(* ===== verification/Prelude.thy ===== *)
theory Prelude
  imports Main "HOL-Library.Word" "HOL-Library.Signed_Division"
begin

section \<open>Shared types, automation and lemmas\<close>

text \<open>
  The types every component shares and the generic facts their proofs use. A Go string is
  a sequence of bytes, here a \<open>string\<close> (one \<open>char\<close> is one byte). A Go \<open>int64\<close>, and
  \<open>int\<close> on the 64-bit targets the plugin is built for, is a \<open>64 word\<close> whose \<open>+\<close>, \<open>-\<close> and
  \<open>*\<close> wrap; \<open>sint\<close> reads it as the signed value that Go compares and divides.
  The collection \<open>step_defs\<close> holds the defining equations of the operations of the model,
  so that a proof about one step unfolds it with \<open>simp add: step_defs\<close>.
\<close>

type_synonym bytes = string
type_synonym int64 = "64 word"

named_theorems step_defs \<open>definitions of the operations of the model\<close>
named_theorems frame_simps \<open>what an operation leaves unchanged\<close>

subsection \<open>Signed 64-bit arithmetic\<close>

lemma sint64_ge [simp]: "- 9223372036854775808 \<le> sint (x :: int64)"
  using sint_ge [of x] by simp

lemma sint64_less [simp]: "sint (x :: int64) < 9223372036854775808"
  using sint_lt [of x] by simp

lemma sint64_of_int:
  assumes "- 9223372036854775808 \<le> i" "i < 9223372036854775808"
  shows "sint (word_of_int i :: int64) = i"
  using assms by (simp add: int_word_sint)

lemma sint64_add:
  assumes "- 9223372036854775808 \<le> sint a + sint b" "sint a + sint b < 9223372036854775808"
  shows "sint (a + b :: int64) = sint a + sint b"
proof -
  have "a + b = (word_of_int (sint a + sint b) :: int64)" by simp
  then show ?thesis using sint64_of_int [OF assms] by simp
qed

lemma sint64_mult:
  assumes "- 9223372036854775808 \<le> sint a * sint b" "sint a * sint b < 9223372036854775808"
  shows "sint (a * b :: int64) = sint a * sint b"
proof -
  have "a * b = (word_of_int (sint a * sint b) :: int64)" by simp
  then show ?thesis using sint64_of_int [OF assms] by simp
qed

lemma sint64_eq_iff: "sint (a :: int64) = sint b \<longleftrightarrow> a = b"
  using signed_word_eqI by blast

text \<open>Go's \<open>/\<close> and \<open>%\<close> on \<open>int64\<close> truncate towards zero (the divisors here are constants).\<close>

definition go_div :: "int64 \<Rightarrow> int64 \<Rightarrow> int64" where
  "go_div a b = word_of_int (sint a sdiv sint b)"

definition go_mod :: "int64 \<Rightarrow> int64 \<Rightarrow> int64" where
  "go_mod a b = word_of_int (sint a smod sint b)"

lemma sint_go_div_nonneg:
  assumes "0 \<le> sint a" "0 < sint b"
  shows "sint (go_div a b) = sint a div sint b"
proof -
  have le: "sint a div sint b \<le> sint a" using assms
    by (metis div_by_1 int_one_le_iff_zero_less zdiv_mono2 zero_less_one)
  have sdiv: "sint a sdiv sint b = sint a div sint b"
    using assms by (simp add: signed_divide_int_def sgn_if)
  have "0 \<le> sint a div sint b"
    using assms by (simp add: pos_imp_zdiv_nonneg_iff)
  moreover have "sint a < 9223372036854775808" by (rule sint64_less)
  ultimately have "sint (word_of_int (sint a div sint b) :: int64) = sint a div sint b"
    using le by (intro sint64_of_int) linarith+
  then show ?thesis
    using sdiv by (simp add: go_div_def)
qed

end
