(* ===== verification/Go_Strings.thy ===== *)
theory Go_Strings
  imports Prelude
begin

section \<open>Go's package \<open>strings\<close>\<close>

text \<open>
  The functions of package \<open>strings\<close> the program calls, on byte strings. \<open>TrimSpace\<close> and
  \<open>Fields\<close> cut at Unicode white space; a white space character is recognised by its UTF-8
  encoding, which no other valid or invalid sequence of bytes can contain in its middle.
\<close>

fun Join :: "string list \<Rightarrow> string \<Rightarrow> string" where
  "Join [] sep = []"
| "Join [x] sep = x"
| "Join (x # y # xs) sep = x @ sep @ Join (y # xs) sep"

definition HasPrefix :: "string \<Rightarrow> string \<Rightarrow> bool" where
  "HasPrefix s p \<longleftrightarrow> take (length p) s = p"

definition CutPrefix :: "string \<Rightarrow> string \<Rightarrow> string option" where
  "CutPrefix s p = (if HasPrefix s p then Some (drop (length p) s) else None)"

definition TrimPrefix :: "string \<Rightarrow> string \<Rightarrow> string" where
  "TrimPrefix s p = (case CutPrefix s p of None \<Rightarrow> s | Some r \<Rightarrow> r)"

text \<open>\<open>strings.Split\<close> at a one-byte separator: \<open>n\<close> separators make \<open>n + 1\<close> parts.\<close>

fun Split_from :: "string \<Rightarrow> string \<Rightarrow> char \<Rightarrow> string list" where
  "Split_from cur [] sep = [rev cur]"
| "Split_from cur (c # s) sep =
     (if c = sep then rev cur # Split_from [] s sep else Split_from (c # cur) s sep)"

definition Split :: "string \<Rightarrow> char \<Rightarrow> string list" where
  "Split s sep = Split_from [] s sep"

text \<open>The encodings of the characters \<open>unicode.IsSpace\<close> accepts.\<close>

definition space_runes :: "string list" where
  "space_runes =
    [[CHR 0x09], [CHR 0x0A], [CHR 0x0B], [CHR 0x0C], [CHR 0x0D], [CHR 0x20],
     [CHR 0xC2, CHR 0x85], [CHR 0xC2, CHR 0xA0], [CHR 0xE1, CHR 0x9A, CHR 0x80],
     [CHR 0xE2, CHR 0x80, CHR 0x80], [CHR 0xE2, CHR 0x80, CHR 0x81],
     [CHR 0xE2, CHR 0x80, CHR 0x82], [CHR 0xE2, CHR 0x80, CHR 0x83],
     [CHR 0xE2, CHR 0x80, CHR 0x84], [CHR 0xE2, CHR 0x80, CHR 0x85],
     [CHR 0xE2, CHR 0x80, CHR 0x86], [CHR 0xE2, CHR 0x80, CHR 0x87],
     [CHR 0xE2, CHR 0x80, CHR 0x88], [CHR 0xE2, CHR 0x80, CHR 0x89],
     [CHR 0xE2, CHR 0x80, CHR 0x8A], [CHR 0xE2, CHR 0x80, CHR 0xA8],
     [CHR 0xE2, CHR 0x80, CHR 0xA9], [CHR 0xE2, CHR 0x80, CHR 0xAF],
     [CHR 0xE2, CHR 0x81, CHR 0x9F], [CHR 0xE3, CHR 0x80, CHR 0x80]]"

text \<open>The length of the white space character at the front of \<open>s\<close>, 0 if there is none.\<close>

definition space_at :: "string list \<Rightarrow> string \<Rightarrow> nat" where
  "space_at runes s = (case find (HasPrefix s) runes of None \<Rightarrow> 0 | Some r \<Rightarrow> length r)"

function trim_left :: "string list \<Rightarrow> string \<Rightarrow> string" where
  "trim_left runes s =
     (if s = [] \<or> space_at runes s = 0 then s else trim_left runes (drop (space_at runes s) s))"
  by pat_completeness auto
termination
  by (relation "measure (\<lambda>(runes, s). length s)") auto

declare trim_left.simps [simp del]

definition TrimSpace :: "string \<Rightarrow> string" where
  "TrimSpace s = rev (trim_left (map rev space_runes) (rev (trim_left space_runes s)))"

text \<open>\<open>strings.Fields\<close>: the maximal runs without white space. \<open>cur\<close> is the run being read, reversed.\<close>

function Fields_from :: "string \<Rightarrow> string \<Rightarrow> string list" where
  "Fields_from cur s =
     (let emit = (if cur = [] then [] else [rev cur]) in
      if s = [] then emit
      else if space_at space_runes s = 0 then Fields_from (hd s # cur) (tl s)
      else emit @ Fields_from [] (drop (space_at space_runes s) s))"
  by pat_completeness auto
termination
  by (relation "measure (\<lambda>(cur, s). length s)") auto

declare Fields_from.simps [simp del]

definition Fields :: "string \<Rightarrow> string list" where
  "Fields s = Fields_from [] s"

subsection \<open>Facts\<close>

lemma HasPrefix_iff: "HasPrefix s p \<longleftrightarrow> (\<exists>r. s = p @ r)"
  by (auto simp: HasPrefix_def) (metis append_take_drop_id)

lemma CutPrefix_append [simp]: "CutPrefix (p @ r) p = Some r"
  by (simp add: CutPrefix_def HasPrefix_def)

lemma trim_left_suffix: "\<exists>p. s = p @ trim_left runes s"
proof (induction runes s rule: trim_left.induct)
  case (1 runes s)
  show ?case
  proof (cases "s = [] \<or> space_at runes s = 0")
    case True
    then show ?thesis by (auto simp: trim_left.simps [of runes s])
  next
    case False
    then obtain p where "drop (space_at runes s) s = p @ trim_left runes s"
      using "1.IH" by (auto simp: trim_left.simps [of runes s])
    then have "s = (take (space_at runes s) s @ p) @ trim_left runes s"
      by (metis append_assoc append_take_drop_id)
    then show ?thesis by blast
  qed
qed

text \<open>Only white space at the two ends is cut.\<close>

lemma TrimSpace_infix: "\<exists>p q. s = p @ TrimSpace s @ q"
proof -
  obtain p where p: "s = p @ trim_left space_runes s" using trim_left_suffix by blast
  obtain q where "rev (trim_left space_runes s) = q @ trim_left (map rev space_runes) (rev (trim_left space_runes s))"
    using trim_left_suffix by blast
  then have "trim_left space_runes s = TrimSpace s @ rev q"
    unfolding TrimSpace_def by (metis rev_append rev_rev_ident)
  with p show ?thesis by metis
qed

lemma Split_from_nonempty: "Split_from cur s sep \<noteq> []"
  by (induction cur s sep rule: Split_from.induct) auto

lemma Split_from_no_sep:
  "sep \<notin> set cur \<Longrightarrow> w \<in> set (Split_from cur s sep) \<Longrightarrow> sep \<notin> set w"
  by (induction cur s sep rule: Split_from.induct) (auto split: if_splits)

lemma Split_no_sep: "w \<in> set (Split s sep) \<Longrightarrow> sep \<notin> set w"
  using Split_from_no_sep [of sep "[]"] by (simp add: Split_def)

lemma Join_Cons: "ws \<noteq> [] \<Longrightarrow> Join (w # ws) sep = w @ sep @ Join ws sep"
  by (cases ws) auto

lemma Join_Split_from: "Join (Split_from cur s sep) [sep] = rev cur @ s"
  by (induction cur s sep rule: Split_from.induct) (auto simp: Join_Cons Split_from_nonempty)

lemma Join_Split: "Join (Split s sep) [sep] = s"
  by (simp add: Split_def Join_Split_from)

end
