(* ===== verification/Database.thy ===== *)
theory Database
  imports Go_Strings
begin

section \<open>The SQL database behind \<open>*sql.DB\<close>\<close>

text \<open>
  Both the expire index (\<open>server/expiry/store.go\<close>) and the hard purge
  (\<open>server/purge/purge.go\<close>) run SQL statements on the Mattermost master database. The rows of
  the plugin's own table \<open>mpmd_expire\<close> are entries, in an order the program never chooses
  (\<open>None\<close> until the table is created); every other table is a list of its column names and
  of its rows, a row being a map from column names to values.

  Whether a call reaches the database is not the program's to decide. \<open>outcomes\<close> is the
  fate of the calls to come: \<open>Done\<close> (the call is carried out and its own result comes
  back), \<open>Failed\<close> (an error, nothing done) or \<open>Lost\<close> (the change is made and an error comes
  back all the same, as when the connection drops after a commit). Calls beyond the end of
  the list are \<open>Done\<close>. Theorems that do not restrict the list hold for every fate.
\<close>

text \<open>A row of \<open>mpmd_expire\<close> (type \<open>Entry\<close> of \<open>server/expiry/store.go\<close>).\<close>

record entry =
  PostID :: string
  ChannelID :: string
  RootID :: string
  ExpireAt :: int64
  CreatedAt :: int64

record sql_table =
  tbl_cols :: "string list"
  tbl_rows :: "(string \<rightharpoonup> string) list"

datatype db_outcome = Done | Failed | Lost

datatype db_error = DriverError | NoSuchTable string | NoSuchColumn string string | BadArgs

record sqldb =
  expire_rows :: "entry list option"
  tables :: "string \<rightharpoonup> sql_table"
  outcomes :: "db_outcome list"

definition next_outcome :: "'a sqldb_scheme \<Rightarrow> db_outcome \<times> 'a sqldb_scheme" where
  "next_outcome s =
     (case outcomes s of [] \<Rightarrow> (Done, s) | o1 # os \<Rightarrow> (o1, s\<lparr>outcomes := os\<rparr>))"

text \<open>\<open>ExecContext\<close> outside a transaction: one statement, atomic by itself.\<close>

definition db_exec ::
  "('a sqldb_scheme \<Rightarrow> db_error + 'a sqldb_scheme) \<Rightarrow> 'a sqldb_scheme
    \<Rightarrow> db_error option \<times> 'a sqldb_scheme" where
  "db_exec stmt s =
     (case next_outcome s of
        (Failed, s1) \<Rightarrow> (Some DriverError, s1)
      | (Done, s1) \<Rightarrow> (case stmt s1 of Inl e \<Rightarrow> (Some e, s1) | Inr s2 \<Rightarrow> (None, s2))
      | (Lost, s1) \<Rightarrow> (Some DriverError, case stmt s1 of Inl e \<Rightarrow> s1 | Inr s2 \<Rightarrow> s2))"

text \<open>
  A driver accepts a statement only with as many arguments as it has placeholders.
\<close>

definition placeholders :: "string \<Rightarrow> nat" where
  "placeholders sql = length (filter (\<lambda>c. c = CHR ''?'') sql)"

text \<open>\<open>QueryContext\<close> with the scan of its rows: it changes nothing.\<close>

definition db_query ::
  "('a sqldb_scheme \<Rightarrow> db_error + 'r) \<Rightarrow> 'a sqldb_scheme \<Rightarrow> (db_error + 'r) \<times> 'a sqldb_scheme" where
  "db_query q s =
     (case next_outcome s of
        (Done, s1) \<Rightarrow> (q s1, s1)
      | (_, s1) \<Rightarrow> (Inl DriverError, s1))"

subsection \<open>Placeholders of an IN list\<close>

lemma placeholders_append [simp]: "placeholders (xs @ ys) = placeholders xs + placeholders ys"
  by (simp add: placeholders_def)

lemma placeholders_join: "placeholders (Join (map (\<lambda>i. ''?'') ids) '', '') = length ids"
proof (induction ids rule: induct_list012)
  case (3 x y zs)
  then show ?case by (simp add: placeholders_def)
qed (simp_all add: placeholders_def)

lemma placeholders_list:
  "placeholders (''('' @ Join (map (\<lambda>i. ''?'') ids) '', '' @ '')'') = length ids"
proof -
  have "placeholders ''('' = 0" "placeholders '')'' = 0" by (simp_all add: placeholders_def)
  then show ?thesis by (simp only: placeholders_append placeholders_join add_0 add_0_right)
qed

subsection \<open>What a call leaves alone\<close>

text \<open>Two states that differ in the fate of the calls to come at most.\<close>

definition same_data :: "'a sqldb_scheme \<Rightarrow> 'a sqldb_scheme \<Rightarrow> bool" where
  "same_data s s' \<longleftrightarrow>
     expire_rows s' = expire_rows s \<and> tables s' = tables s \<and> sqldb.more s' = sqldb.more s"

lemma same_data_refl [simp]: "same_data s s"
  by (simp add: same_data_def)

lemma same_data_trans: "same_data s t \<Longrightarrow> same_data t u \<Longrightarrow> same_data s u"
  by (simp add: same_data_def)

lemma next_outcome_frame: "next_outcome s = (r, s1) \<Longrightarrow> same_data s s1"
  by (auto simp: next_outcome_def same_data_def split: list.splits)

lemma next_outcome_Done:
  "outcomes s = [] \<Longrightarrow> next_outcome s = (Done, s)"
  by (simp add: next_outcome_def)

lemma db_query_frame:
  "db_query q s = (r, s1) \<Longrightarrow> same_data s s1"
  by (auto simp: db_query_def dest: next_outcome_frame split: prod.splits db_outcome.splits)

text \<open>A query that returns rows read them in the state it leaves behind.\<close>

lemma db_query_Inr: "db_query q s = (Inr x, s1) \<Longrightarrow> q s1 = Inr x"
  by (auto simp: db_query_def split: prod.splits db_outcome.splits)

text \<open>
  A statement that reports success was carried out; one that reports an error was carried
  out or changed nothing.
\<close>

lemma db_exec_cases:
  assumes "db_exec stmt s = (r, s')"
  obtains (applied) s1 d where "next_outcome s = (d, s1)" "stmt s1 = Inr s'"
  | (kept) d e where "next_outcome s = (d, s')" "r = Some e"
  using assms by (auto simp: db_exec_def split: prod.splits db_outcome.splits sum.splits)

end
