(* ===== verification/Expire_Index.thy ===== *)
theory Expire_Index
  imports Database
begin

section \<open>The contract of the expire index\<close>

text \<open>
  The interface \<open>ExpireIndexStore\<close> of \<open>server/expiry/store.go\<close> is the record \<open>expire_store\<close>
  of its methods over a state. Its contract says what each method does to the map from post
  ids to entries: a method that reports success has done exactly that; one that reports an
  error has done that or nothing. The locale \<open>sweep_store\<close> is the subset that the sweeper
  declares as its own interface \<open>ExpireStore\<close> (\<open>server/sweeper/sweeper.go\<close>); \<open>expire_index\<close>
  extends it to the whole interface. Neither method touches the rest of the state.
\<close>

datatype expire_error =
    ErrMigrate db_error
  | ErrUpsert string db_error
  | ErrBump string db_error
  | ErrGet string db_error
  | ErrQuery db_error
  | ErrDelete string db_error
  | ErrDeleteBatch db_error

record 's expire_store =
  ix_Migrate :: "'s \<Rightarrow> expire_error option \<times> 's"
  ix_Upsert :: "entry \<Rightarrow> 's \<Rightarrow> expire_error option \<times> 's"
  ix_UpdateExpireByRoot :: "string \<Rightarrow> int64 \<Rightarrow> 's \<Rightarrow> expire_error option \<times> 's"
  ix_GetByPostID :: "string \<Rightarrow> 's \<Rightarrow> (expire_error + entry option) \<times> 's"
  ix_GetExpired :: "int64 \<Rightarrow> int64 \<Rightarrow> 's \<Rightarrow> (expire_error + entry list) \<times> 's"
  ix_DeleteByPostID :: "string \<Rightarrow> 's \<Rightarrow> expire_error option \<times> 's"
  ix_DeleteByPostIDs :: "string list \<Rightarrow> 's \<Rightarrow> expire_error option \<times> 's"

subsection \<open>The operations on maps\<close>

type_synonym index_map = "string \<rightharpoonup> entry"

definition map_upsert :: "entry \<Rightarrow> index_map \<Rightarrow> index_map" where
  "map_upsert e m = m(PostID e \<mapsto>
     (case m (PostID e) of None \<Rightarrow> e | Some old \<Rightarrow> e\<lparr>CreatedAt := CreatedAt old\<rparr>))"

definition map_bump :: "string \<Rightarrow> int64 \<Rightarrow> index_map \<Rightarrow> index_map" where
  "map_bump root t m =
     (\<lambda>p. map_option (\<lambda>e. if RootID e = root then e\<lparr>ExpireAt := t\<rparr> else e) (m p))"

definition map_remove :: "string list \<Rightarrow> index_map \<Rightarrow> index_map" where
  "map_remove ids m = m |` (- set ids)"

definition expired_in :: "int64 \<Rightarrow> index_map \<Rightarrow> entry \<Rightarrow> bool" where
  "expired_in nowMs m e \<longleftrightarrow> m (PostID e) = Some e \<and> sint (ExpireAt e) \<le> sint nowMs"

text \<open>
  A batch of at most \<open>n\<close> expired entries, oldest first, that leaves an expired entry out only
  when it is full and everything in it is at least as old.
\<close>

definition oldest_batch :: "int64 \<Rightarrow> nat \<Rightarrow> index_map \<Rightarrow> entry list \<Rightarrow> bool" where
  "oldest_batch nowMs n m es \<longleftrightarrow>
     length es \<le> n \<and> distinct (map PostID es) \<and> sorted (map (\<lambda>e. sint (ExpireAt e)) es)
     \<and> (\<forall>e\<in>set es. expired_in nowMs m e)
     \<and> (\<forall>e. expired_in nowMs m e \<longrightarrow> e \<in> set es
          \<or> length es = n \<and> (\<forall>b\<in>set es. sint (ExpireAt b) \<le> sint (ExpireAt e)))"

definition written ::
  "(index_map \<Rightarrow> index_map) \<Rightarrow> expire_error option \<Rightarrow> index_map \<Rightarrow> index_map \<Rightarrow> bool" where
  "written f r m m' \<longleftrightarrow> m' = f m \<or> r \<noteq> None \<and> m' = m"

lemma written_None [simp]: "written f None m m' \<longleftrightarrow> m' = f m"
  by (simp add: written_def)

subsection \<open>The contract\<close>

locale sweep_store =
  fixes ix :: "'s expire_store"
    and index :: "'s \<Rightarrow> index_map"
    and ok :: "'s \<Rightarrow> bool"
    and rest :: "'s \<Rightarrow> 'r"
  assumes index_key: "index s p = Some e \<Longrightarrow> PostID e = p"
    and get_expired: "ok s \<Longrightarrow> ix_GetExpired ix nowMs limit s = (r, s') \<Longrightarrow>
      ok s' \<and> rest s' = rest s \<and> index s' = index s
      \<and> (\<forall>es. r = Inr es \<longrightarrow> oldest_batch nowMs (nat (sint limit)) (index s) es)"
    and delete_ids: "ok s \<Longrightarrow> ix_DeleteByPostIDs ix ids s = (er, s') \<Longrightarrow>
      ok s' \<and> rest s' = rest s \<and> written (map_remove ids) er (index s) (index s')"
begin

lemma batch_is_expired:
  assumes "ok s" "ix_GetExpired ix nowMs limit s = (Inr es, s')" "e \<in> set es"
  shows "expired_in nowMs (index s) e"
  using get_expired [OF assms(1,2)] assms(3) by (auto simp: oldest_batch_def)

lemma empty_batch:
  assumes "ok s" "ix_GetExpired ix nowMs limit s = (Inr [], s')" "0 < sint limit"
  shows "\<not> expired_in nowMs (index s) e"
  using get_expired [OF assms(1,2)] assms(3) by (auto simp: oldest_batch_def)

end

locale expire_index = sweep_store ix index ok rest
  for ix :: "'s expire_store"
    and index :: "'s \<Rightarrow> index_map"
    and ok :: "'s \<Rightarrow> bool"
    and rest :: "'s \<Rightarrow> 'r" +
  assumes migrate: "ok s \<Longrightarrow> ix_Migrate ix s = (er, s') \<Longrightarrow>
      ok s' \<and> rest s' = rest s \<and> index s' = index s"
    and upsert: "ok s \<Longrightarrow> ix_Upsert ix x s = (er, s') \<Longrightarrow>
      ok s' \<and> rest s' = rest s \<and> written (map_upsert x) er (index s) (index s')"
    and bump: "ok s \<Longrightarrow> ix_UpdateExpireByRoot ix root t s = (er, s') \<Longrightarrow>
      ok s' \<and> rest s' = rest s \<and> written (map_bump root t) er (index s) (index s')"
    and get_by_post: "ok s \<Longrightarrow> ix_GetByPostID ix p s = (rv, s') \<Longrightarrow>
      ok s' \<and> rest s' = rest s \<and> index s' = index s \<and> (\<forall>v. rv = Inr v \<longrightarrow> v = index s p)"
    and delete_one: "ok s \<Longrightarrow> ix_DeleteByPostID ix p s = (er, s') \<Longrightarrow>
      ok s' \<and> rest s' = rest s \<and> written (map_remove [p]) er (index s) (index s')"
begin

text \<open>Insert, then look up: what comes back is what was stored.\<close>

lemma upsert_then_get:
  assumes "ok s" "ix_Upsert ix x s = (None, s1)" "ix_GetByPostID ix (PostID x) s1 = (Inr v, s2)"
  shows "\<exists>y. v = Some y \<and> ChannelID y = ChannelID x \<and> RootID y = RootID x \<and> ExpireAt y = ExpireAt x"
  using upsert [OF assms(1,2)] get_by_post [OF _ assms(3)]
  by (auto simp: map_upsert_def split: option.splits)

lemma delete_then_get:
  assumes "ok s" "ix_DeleteByPostID ix p s = (None, s1)" "ix_GetByPostID ix p s1 = (Inr v, s2)"
  shows "v = None"
  using delete_one [OF assms(1,2)] get_by_post [OF _ assms(3)] by (auto simp: map_remove_def)

end

subsection \<open>Facts about the maps\<close>

lemma map_upsert_same:
  "\<exists>y. map_upsert e m (PostID e) = Some y \<and> ChannelID y = ChannelID e
     \<and> RootID y = RootID e \<and> ExpireAt y = ExpireAt e"
  by (auto simp: map_upsert_def split: option.splits)

lemma map_upsert_other: "p \<noteq> PostID e \<Longrightarrow> map_upsert e m p = m p"
  by (simp add: map_upsert_def)

lemma dom_map_upsert: "dom (map_upsert e m) = insert (PostID e) (dom m)"
  by (simp add: map_upsert_def)

lemma dom_map_bump: "dom (map_bump root t m) = dom m"
  by (auto simp: map_bump_def dom_def)

lemma map_bump_other: "m p = Some e \<Longrightarrow> RootID e \<noteq> root \<Longrightarrow> map_bump root t m p = Some e"
  by (simp add: map_bump_def)

lemma map_bump_thread:
  "m p = Some e \<Longrightarrow> RootID e = root \<Longrightarrow> map_bump root t m p = Some (e\<lparr>ExpireAt := t\<rparr>)"
  by (simp add: map_bump_def)

lemma map_remove_apply: "map_remove ids m p = (if p \<in> set ids then None else m p)"
  by (simp add: map_remove_def restrict_map_def)

lemma map_remove_Nil [simp]: "map_remove [] m = m"
  by (simp add: fun_eq_iff map_remove_apply)

text \<open>The posts that had expired at time \<open>t\<close>.\<close>

definition backlog :: "int64 \<Rightarrow> index_map \<Rightarrow> string set" where
  "backlog t m = {p. \<exists>e. m p = Some e \<and> sint (ExpireAt e) \<le> sint t}"

lemma backlog_remove: "backlog t (map_remove ids m) = backlog t m - set ids"
  by (auto simp: backlog_def map_remove_apply)

text \<open>
  Removing a batch taken at \<open>now\<close> makes the backlog of every earlier time smaller by the size
  of the batch, or empties it: newer expired entries cannot push older ones out of the batch.
\<close>

lemma oldest_batch_progress:
  assumes b: "oldest_batch now n m es" and t: "sint t \<le> sint now" and fin: "finite (backlog t m)"
    and key: "\<And>p e. m p = Some e \<Longrightarrow> PostID e = p"
  shows "card (backlog t (map_remove (map PostID es) m)) \<le> card (backlog t m) - n"
proof (cases "backlog t m \<subseteq> PostID ` set es")
  case True
  then have "backlog t (map_remove (map PostID es) m) = {}"
    by (auto simp: backlog_remove)
  then show ?thesis by simp
next
  case False
  then obtain p e where p: "m p = Some e" "sint (ExpireAt e) \<le> sint t" "p \<notin> PostID ` set es"
    by (auto simp: backlog_def)
  then have "expired_in now m e" "e \<notin> set es"
    using key t by (force simp: expired_in_def)+
  then have full: "length es = n" "\<forall>b\<in>set es. sint (ExpireAt b) \<le> sint (ExpireAt e)"
    using b by (auto simp: oldest_batch_def)
  have "PostID ` set es \<subseteq> backlog t m"
    using b full(2) p(2) by (force simp: oldest_batch_def expired_in_def backlog_def)
  moreover have "card (PostID ` set es) = n"
    using b full(1) distinct_card [of "map PostID es"] by (simp add: oldest_batch_def)
  ultimately show ?thesis
    using fin by (simp add: backlog_remove card_Diff_subset finite_subset)
qed

end
