(* ===== verification/Expire_Store.thy ===== *)
theory Expire_Store
  imports Expire_Index
begin

section \<open>The expire index (\<open>server/expiry/store.go\<close>)\<close>

text \<open>
  \<open>sqlStore\<close> implements the interface of \<open>Expire_Index\<close>. The statements it sends are the
  definitions \<open>ddl\<close>, \<open>upsertSQL\<close>, ... below, on the rows of \<open>mpmd_expire\<close>. The
  interpretation at the end is the refinement: seen through the abstraction \<open>index_of\<close> (rows
  to a map from post ids), every method does what the contract says.
\<close>

subsection \<open>The statements, on the rows of the table\<close>

text \<open>A statement on a table that has not been created is an error.\<close>

definition on_expire ::
  "(entry list \<Rightarrow> entry list) \<Rightarrow> 'a sqldb_scheme \<Rightarrow> db_error + 'a sqldb_scheme" where
  "on_expire f s =
     (case expire_rows s of
        None \<Rightarrow> Inl (NoSuchTable ''mpmd_expire'')
      | Some rs \<Rightarrow> Inr (s\<lparr>expire_rows := Some (f rs)\<rparr>))"

definition from_expire ::
  "(entry list \<Rightarrow> db_error + 'r) \<Rightarrow> 'a sqldb_scheme \<Rightarrow> db_error + 'r" where
  "from_expire q s =
     (case expire_rows s of None \<Rightarrow> Inl (NoSuchTable ''mpmd_expire'') | Some rs \<Rightarrow> q rs)"

text \<open>\<open>CREATE TABLE IF NOT EXISTS\<close> (the indexes do not change what a statement returns).\<close>

definition ddl :: "'a sqldb_scheme \<Rightarrow> db_error + 'a sqldb_scheme" where
  "ddl s = Inr (case expire_rows s of None \<Rightarrow> s\<lparr>expire_rows := Some []\<rparr> | Some _ \<Rightarrow> s)"

text \<open>
  \<open>INSERT ... ON CONFLICT(post_id) DO UPDATE SET\<close> channel, root and expiry: the creation time
  of a row that is already there stays.
\<close>

fun upsertSQL :: "entry \<Rightarrow> entry list \<Rightarrow> entry list" where
  "upsertSQL e [] = [e]"
| "upsertSQL e (r # rs) =
     (if PostID r = PostID e
      then r\<lparr>ChannelID := ChannelID e, RootID := RootID e, ExpireAt := ExpireAt e\<rparr> # rs
      else r # upsertSQL e rs)"

definition updateByRootSQL :: "int64 \<Rightarrow> string \<Rightarrow> entry list \<Rightarrow> entry list" where
  "updateByRootSQL t root rs = map (\<lambda>r. if RootID r = root then r\<lparr>ExpireAt := t\<rparr> else r) rs"

definition getByPostSQL :: "string \<Rightarrow> entry list \<Rightarrow> entry option" where
  "getByPostSQL p rs = find (\<lambda>r. PostID r = p) rs"

text \<open>
  \<open>WHERE expire_at <= ? ORDER BY expire_at LIMIT ?\<close>. Rows with the same \<open>expire_at\<close> come in
  the order of the table, which is arbitrary. A negative limit is an error.
\<close>

definition getExpiredSQL :: "int64 \<Rightarrow> int64 \<Rightarrow> entry list \<Rightarrow> db_error + entry list" where
  "getExpiredSQL nowMs limit rs =
     (if sint limit < 0 then Inl BadArgs
      else Inr (take (nat (sint limit))
        (sort_key (\<lambda>r. sint (ExpireAt r)) (filter (\<lambda>r. sint (ExpireAt r) \<le> sint nowMs) rs))))"

definition deleteByPostSQL :: "string \<Rightarrow> entry list \<Rightarrow> entry list" where
  "deleteByPostSQL p rs = filter (\<lambda>r. PostID r \<noteq> p) rs"

text \<open>
  The text of an \<open>IN\<close> list and its arguments. A statement with as many placeholders as
  arguments is sent; any other is refused by the driver.
\<close>

definition inClause :: "string list \<Rightarrow> string \<times> string list" where
  "inClause ids = (''('' @ Join (map (\<lambda>i. ''?'') ids) '', '' @ '')'', map (\<lambda>i. i) ids)"

definition deleteInSQL ::
  "string \<Rightarrow> string list \<Rightarrow> 'a sqldb_scheme \<Rightarrow> db_error + 'a sqldb_scheme" where
  "deleteInSQL ph args s =
     (if placeholders ph \<noteq> length args then Inl BadArgs
      else on_expire (filter (\<lambda>r. PostID r \<notin> set args)) s)"

subsection \<open>The methods of \<open>sqlStore\<close>\<close>

definition sqlStore_Migrate :: "'a sqldb_scheme \<Rightarrow> expire_error option \<times> 'a sqldb_scheme" where
  "sqlStore_Migrate s = apfst (map_option ErrMigrate) (db_exec ddl s)"

definition sqlStore_Upsert ::
  "entry \<Rightarrow> 'a sqldb_scheme \<Rightarrow> expire_error option \<times> 'a sqldb_scheme" where
  "sqlStore_Upsert e s =
     apfst (map_option (ErrUpsert (PostID e))) (db_exec (on_expire (upsertSQL e)) s)"

definition sqlStore_UpdateExpireByRoot ::
  "string \<Rightarrow> int64 \<Rightarrow> 'a sqldb_scheme \<Rightarrow> expire_error option \<times> 'a sqldb_scheme" where
  "sqlStore_UpdateExpireByRoot root t s =
     apfst (map_option (ErrBump root)) (db_exec (on_expire (updateByRootSQL t root)) s)"

definition sqlStore_GetByPostID ::
  "string \<Rightarrow> 'a sqldb_scheme \<Rightarrow> (expire_error + entry option) \<times> 'a sqldb_scheme" where
  "sqlStore_GetByPostID p s =
     apfst (map_sum (ErrGet p) id) (db_query (from_expire (\<lambda>rs. Inr (getByPostSQL p rs))) s)"

definition sqlStore_GetExpired ::
  "int64 \<Rightarrow> int64 \<Rightarrow> 'a sqldb_scheme \<Rightarrow> (expire_error + entry list) \<times> 'a sqldb_scheme" where
  "sqlStore_GetExpired nowMs limit s =
     apfst (map_sum ErrQuery id) (db_query (from_expire (getExpiredSQL nowMs limit)) s)"

definition sqlStore_DeleteByPostID ::
  "string \<Rightarrow> 'a sqldb_scheme \<Rightarrow> expire_error option \<times> 'a sqldb_scheme" where
  "sqlStore_DeleteByPostID p s =
     apfst (map_option (ErrDelete p)) (db_exec (on_expire (deleteByPostSQL p)) s)"

definition sqlStore_DeleteByPostIDs ::
  "string list \<Rightarrow> 'a sqldb_scheme \<Rightarrow> expire_error option \<times> 'a sqldb_scheme" where
  "sqlStore_DeleteByPostIDs ids s =
     (if ids = [] then (None, s)
      else let (ph, args) = inClause ids
           in apfst (map_option ErrDeleteBatch) (db_exec (deleteInSQL ph args) s))"

definition sqlStore :: "('a sqldb_scheme) expire_store" where
  "sqlStore = \<lparr>
     ix_Migrate = sqlStore_Migrate,
     ix_Upsert = sqlStore_Upsert,
     ix_UpdateExpireByRoot = sqlStore_UpdateExpireByRoot,
     ix_GetByPostID = sqlStore_GetByPostID,
     ix_GetExpired = sqlStore_GetExpired,
     ix_DeleteByPostID = sqlStore_DeleteByPostID,
     ix_DeleteByPostIDs = sqlStore_DeleteByPostIDs\<rparr>"

lemma sqlStore_sel [simp]:
  "ix_Migrate sqlStore = sqlStore_Migrate"
  "ix_Upsert sqlStore = sqlStore_Upsert"
  "ix_UpdateExpireByRoot sqlStore = sqlStore_UpdateExpireByRoot"
  "ix_GetByPostID sqlStore = sqlStore_GetByPostID"
  "ix_GetExpired sqlStore = sqlStore_GetExpired"
  "ix_DeleteByPostID sqlStore = sqlStore_DeleteByPostID"
  "ix_DeleteByPostIDs sqlStore = sqlStore_DeleteByPostIDs"
  by (simp_all add: sqlStore_def)

subsection \<open>The rows as a map\<close>

definition rows_map :: "entry list \<Rightarrow> index_map" where
  "rows_map rs p = getByPostSQL p rs"

definition index_of :: "'a sqldb_scheme \<Rightarrow> index_map" where
  "index_of s = (case expire_rows s of None \<Rightarrow> Map.empty | Some rs \<Rightarrow> rows_map rs)"

text \<open>The primary key: no two rows with the same post id.\<close>

definition index_ok :: "'a sqldb_scheme \<Rightarrow> bool" where
  "index_ok s = (case expire_rows s of None \<Rightarrow> True | Some rs \<Rightarrow> distinct (map PostID rs))"

definition other_state :: "'a sqldb_scheme \<Rightarrow> (string \<rightharpoonup> sql_table) \<times> 'a" where
  "other_state s = (tables s, sqldb.more s)"

lemmas store_views = index_of_def index_ok_def other_state_def same_data_def

lemma rows_map_simps [simp]:
  "rows_map [] p = None"
  "rows_map (r # rs) p = (if PostID r = p then Some r else rows_map rs p)"
  by (simp_all add: rows_map_def getByPostSQL_def)

lemma rows_map_Some: "rows_map rs p = Some e \<Longrightarrow> e \<in> set rs \<and> PostID e = p"
  by (induction rs) (auto split: if_splits)

lemma rows_map_in: "distinct (map PostID rs) \<Longrightarrow> e \<in> set rs \<Longrightarrow> rows_map rs (PostID e) = Some e"
  by (induction rs) auto

lemma rows_map_iff:
  "distinct (map PostID rs) \<Longrightarrow> rows_map rs (PostID e) = Some e \<longleftrightarrow> e \<in> set rs"
  using rows_map_in rows_map_Some by blast

lemma rows_map_upsert: "rows_map (upsertSQL e rs) = map_upsert e (rows_map rs)"
  by (induction rs) (auto simp: map_upsert_def fun_eq_iff)

lemma upsertSQL_ids: "set (map PostID (upsertSQL e rs)) = insert (PostID e) (set (map PostID rs))"
  by (induction rs) auto

lemma upsertSQL_distinct: "distinct (map PostID rs) \<Longrightarrow> distinct (map PostID (upsertSQL e rs))"
proof (induction rs)
  case (Cons r rs)
  then show ?case using upsertSQL_ids [of e rs] by auto
qed simp

lemma updateByRootSQL_ids: "map PostID (updateByRootSQL t root rs) = map PostID rs"
  by (induction rs) (auto simp: updateByRootSQL_def)

lemma rows_map_update: "rows_map (updateByRootSQL t root rs) = map_bump root t (rows_map rs)"
  by (induction rs) (auto simp: updateByRootSQL_def map_bump_def fun_eq_iff)

lemma rows_map_delete:
  "rows_map (filter (\<lambda>r. PostID r \<notin> set ids) rs) = map_remove ids (rows_map rs)"
  by (induction rs) (auto simp: map_remove_apply fun_eq_iff)

lemma rows_map_expired:
  assumes "distinct (map PostID rs)"
  shows "expired_in t (rows_map rs) e \<longleftrightarrow> e \<in> set (filter (\<lambda>r. sint (ExpireAt r) \<le> sint t) rs)"
  using rows_map_iff [OF assms] by (auto simp: expired_in_def)

text \<open>The first \<open>n\<close> of a sorted list: what is left out is no older than what is in.\<close>

lemma take_sort_key_oldest:
  assumes "x \<in> set xs" "x \<notin> set (take n (sort_key f xs))"
  shows "length (take n (sort_key f xs)) = n \<and> (\<forall>b\<in>set (take n (sort_key f xs)). f b \<le> f x)"
proof -
  let ?s = "sort_key f xs"
  have "set (take n ?s) \<union> set (drop n ?s) = set xs"
    by (metis append_take_drop_id set_append set_sort)
  then have x: "x \<in> set (drop n ?s)" using assms by blast
  then have "n < length ?s" by (metis drop_all empty_iff empty_set not_le)
  moreover have "sorted (map f (take n ?s) @ map f (drop n ?s))"
    by (simp add: map_append [symmetric] del: map_append)
  ultimately show ?thesis using x by (auto simp: sorted_append)
qed

lemma getExpiredSQL_batch:
  assumes "distinct (map PostID rs)" "getExpiredSQL t limit rs = Inr es"
  shows "oldest_batch t (nat (sint limit)) (rows_map rs) es"
proof -
  let ?k = "\<lambda>r. sint (ExpireAt r)"
  let ?xs = "filter (\<lambda>r. ?k r \<le> sint t) rs"
  have es: "es = take (nat (sint limit)) (sort_key ?k ?xs)"
    using assms(2) by (simp add: getExpiredSQL_def split: if_splits)
  have "distinct (map PostID (sort_key ?k ?xs))"
    using distinct_map_filter [OF assms(1)] by (simp add: distinct_map)
  then have "distinct (map PostID es)" by (simp add: es take_map [symmetric])
  moreover have "sorted (map ?k es)"
    by (simp add: es take_map [symmetric] sorted_wrt_take)
  moreover have "expired_in t (rows_map rs) e" if "e \<in> set es" for e
    using in_set_takeD [OF that [unfolded es]] by (simp add: rows_map_expired [OF assms(1)])
  moreover have "e \<in> set es \<or> length es = nat (sint limit) \<and> (\<forall>b\<in>set es. ?k b \<le> ?k e)"
    if "expired_in t (rows_map rs) e" for e
    using take_sort_key_oldest [of e ?xs "nat (sint limit)" ?k] that es
    by (auto simp: rows_map_expired [OF assms(1)])
  ultimately show ?thesis by (auto simp: oldest_batch_def es)
qed

subsection \<open>The text of the IN list\<close>

lemma inClause_placeholders: "placeholders (fst (inClause ids)) = length (snd (inClause ids))"
  unfolding inClause_def fst_conv snd_conv placeholders_list by simp

lemma snd_inClause [simp]: "snd (inClause ids) = ids"
  by (simp add: inClause_def)

lemma deleteInSQL_inClause:
  "deleteInSQL (fst (inClause ids)) (snd (inClause ids)) = on_expire (filter (\<lambda>r. PostID r \<notin> set ids))"
  by (simp add: fun_eq_iff deleteInSQL_def inClause_placeholders [simplified])

subsection \<open>The refinement\<close>

text \<open>One statement on the rows: it is carried out or it changes nothing, and then it is an error.\<close>

lemma db_exec_on_expire:
  assumes "index_ok s" "db_exec (on_expire f) s = (er, s')"
    and "\<And>rs. distinct (map PostID rs) \<Longrightarrow> distinct (map PostID (f rs)) \<and> rows_map (f rs) = g (rows_map rs)"
  shows "index_ok s' \<and> other_state s' = other_state s
    \<and> (index_of s' = g (index_of s) \<or> er \<noteq> None \<and> index_of s' = index_of s)"
  using assms(2)
proof (cases rule: db_exec_cases)
  case (applied s1 d)
  then obtain rs where rs: "expire_rows s1 = Some rs" "s' = s1\<lparr>expire_rows := Some (f rs)\<rparr>"
    by (auto simp: on_expire_def split: option.splits)
  have f: "expire_rows s1 = expire_rows s" "tables s1 = tables s" "sqldb.more s1 = sqldb.more s"
    using next_outcome_frame [OF applied(1)] by (simp_all add: same_data_def)
  then have r: "expire_rows s = Some rs" using rs(1) by simp
  then have "distinct (map PostID rs)" using assms(1) by (simp add: index_ok_def)
  from assms(3) [OF this] show ?thesis
    using f by (simp add: rs(2) r index_ok_def index_of_def other_state_def)
next
  case (kept d e)
  note next_outcome_frame [OF kept(1)]
  then show ?thesis using kept(2) assms(1) by (auto simp: store_views)
qed

lemma sqlStore_write:
  assumes "index_ok s" "apfst (map_option c) (db_exec (on_expire f) s) = (er, s')"
    and "\<And>rs. distinct (map PostID rs) \<Longrightarrow> distinct (map PostID (f rs)) \<and> rows_map (f rs) = g (rows_map rs)"
  shows "index_ok s' \<and> other_state s' = other_state s \<and> written g er (index_of s) (index_of s')"
proof (cases "db_exec (on_expire f) s")
  case (Pair er0 s0)
  then show ?thesis
    using db_exec_on_expire [OF assms(1) Pair assms(3)] assms(2) by (auto simp: written_def)
qed

lemma sqlStore_read:
  assumes "index_ok s" "db_query q s = (r, s')"
  shows "index_ok s' \<and> other_state s' = other_state s \<and> index_of s' = index_of s"
  using db_query_frame [OF assms(2)] assms(1) by (simp add: store_views)

text \<open>A read that succeeds saw the rows of the table.\<close>

lemma sqlStore_rows:
  assumes "index_ok s" "db_query (from_expire q) s = (Inr x, s')"
  shows "\<exists>rs. q rs = Inr x \<and> distinct (map PostID rs) \<and> index_of s = rows_map rs"
proof -
  have "from_expire q s' = Inr x" using assms(2) by (rule db_query_Inr)
  moreover have "index_ok s'" "index_of s' = index_of s"
    using sqlStore_read [OF assms] by auto
  ultimately show ?thesis
    by (auto simp: from_expire_def index_ok_def index_of_def split: option.splits)
qed

lemma sql_key: "index_of s p = Some e \<Longrightarrow> PostID e = p"
  by (auto simp: index_of_def dest: rows_map_Some split: option.splits)

lemma sql_get_expired:
  assumes s: "index_ok s" and "ix_GetExpired sqlStore t l s = (r, s')"
  shows "index_ok s' \<and> other_state s' = other_state s \<and> index_of s' = index_of s
    \<and> (\<forall>es. r = Inr es \<longrightarrow> oldest_batch t (nat (sint l)) (index_of s) es)"
proof -
  obtain r0 where q: "db_query (from_expire (getExpiredSQL t l)) s = (r0, s')"
    and r: "r = map_sum ErrQuery id r0"
    using assms(2) by (auto simp: sqlStore_GetExpired_def apfst_def map_prod_def split: prod.splits)
  have "oldest_batch t (nat (sint l)) (index_of s) es" if "r = Inr es" for es
  proof -
    have "r0 = Inr es" using r that by (cases r0) auto
    with q have "db_query (from_expire (getExpiredSQL t l)) s = (Inr es, s')" by simp
    from sqlStore_rows [OF s this] show ?thesis by (auto intro: getExpiredSQL_batch)
  qed
  then show ?thesis using sqlStore_read [OF s q] by blast
qed

lemma sql_get_by_post:
  assumes s: "index_ok s" and "ix_GetByPostID sqlStore p s = (r, s')"
  shows "index_ok s' \<and> other_state s' = other_state s \<and> index_of s' = index_of s
    \<and> (\<forall>v. r = Inr v \<longrightarrow> v = index_of s p)"
proof -
  obtain r0 where q: "db_query (from_expire (\<lambda>rs. Inr (getByPostSQL p rs))) s = (r0, s')"
    and r: "r = map_sum (ErrGet p) id r0"
    using assms(2) by (auto simp: sqlStore_GetByPostID_def apfst_def map_prod_def split: prod.splits)
  have "v = index_of s p" if "r = Inr v" for v
  proof -
    have "r0 = Inr v" using r that by (cases r0) auto
    with q show ?thesis by (auto simp: rows_map_def dest: sqlStore_rows [OF s])
  qed
  then show ?thesis using sqlStore_read [OF s q] by blast
qed

lemma sql_migrate:
  assumes s: "index_ok s" and "ix_Migrate sqlStore s = (er, s')"
  shows "index_ok s' \<and> other_state s' = other_state s \<and> index_of s' = index_of s"
proof -
  obtain er0 where "db_exec ddl s = (er0, s')"
    using assms(2) by (auto simp: sqlStore_Migrate_def apfst_def map_prod_def split: prod.splits)
  then show ?thesis
  proof (cases rule: db_exec_cases)
    case (applied s1 d)
    then show ?thesis using s next_outcome_frame [OF applied(1)]
      by (auto simp: ddl_def store_views fun_eq_iff split: option.splits)
  next
    case (kept d e)
    then show ?thesis using s next_outcome_frame [OF kept(1)] by (auto simp: store_views)
  qed
qed

text \<open>After a migration that reports success there is a table.\<close>

lemma Migrate_table: "sqlStore_Migrate s = (None, s') \<Longrightarrow> expire_rows s' \<noteq> None"
proof -
  assume "sqlStore_Migrate s = (None, s')"
  then have "db_exec ddl s = (None, s')"
    by (auto simp: sqlStore_Migrate_def apfst_def map_prod_def split: prod.splits)
  then show "expire_rows s' \<noteq> None"
    by (cases rule: db_exec_cases) (auto simp: ddl_def split: option.splits)
qed

lemma sql_delete_batch:
  assumes s: "index_ok s" and d: "ix_DeleteByPostIDs sqlStore ids s = (er, s')"
  shows "index_ok s' \<and> other_state s' = other_state s
    \<and> written (map_remove ids) er (index_of s) (index_of s')"
proof (cases "ids = []")
  case True
  with s d show ?thesis by (auto simp: sqlStore_DeleteByPostIDs_def map_remove_def)
next
  case False
  with d have "apfst (map_option ErrDeleteBatch)
      (db_exec (on_expire (filter (\<lambda>r. PostID r \<notin> set ids))) s) = (er, s')"
    by (simp add: sqlStore_DeleteByPostIDs_def case_prod_beta deleteInSQL_inClause [simplified])
  from sqlStore_write [OF s this] show ?thesis
    by (simp add: rows_map_delete distinct_map_filter)
qed

text \<open>The three writes that are one statement each.\<close>

lemma sql_upsert:
  "index_ok s \<Longrightarrow> ix_Upsert sqlStore x s = (er, s') \<Longrightarrow>
    index_ok s' \<and> other_state s' = other_state s \<and> written (map_upsert x) er (index_of s) (index_of s')"
  by (rule sqlStore_write) (auto simp: sqlStore_Upsert_def upsertSQL_distinct rows_map_upsert)

lemma sql_bump:
  "index_ok s \<Longrightarrow> ix_UpdateExpireByRoot sqlStore root t s = (er, s') \<Longrightarrow>
    index_ok s' \<and> other_state s' = other_state s \<and> written (map_bump root t) er (index_of s) (index_of s')"
  by (rule sqlStore_write)
    (auto simp: sqlStore_UpdateExpireByRoot_def updateByRootSQL_ids rows_map_update)

lemma sql_delete_one:
  "index_ok s \<Longrightarrow> ix_DeleteByPostID sqlStore p s = (er, s') \<Longrightarrow>
    index_ok s' \<and> other_state s' = other_state s \<and> written (map_remove [p]) er (index_of s) (index_of s')"
  using rows_map_delete [of "[p]"]
  by (intro sqlStore_write) (auto simp: sqlStore_DeleteByPostID_def deleteByPostSQL_def distinct_map_filter)

lemmas sql_laws = sql_key sql_get_expired sql_delete_batch sql_migrate sql_upsert sql_bump
  sql_get_by_post sql_delete_one

interpretation sql: expire_index sqlStore index_of index_ok other_state
  by unfold_locales (rule sql_laws; assumption)+

subsection \<open>When every call reaches the database\<close>

lemma db_exec_Done:
  "outcomes s = [] \<Longrightarrow> db_exec stmt s = (case stmt s of Inl e \<Rightarrow> (Some e, s) | Inr s2 \<Rightarrow> (None, s2))"
  by (simp add: db_exec_def next_outcome_Done)

lemma db_query_Done: "outcomes s = [] \<Longrightarrow> db_query q s = (q s, s)"
  by (simp add: db_query_def next_outcome_Done)

lemma GetExpired_Done:
  assumes "outcomes s = []" "expire_rows s = Some rs" "0 \<le> sint l"
  shows "\<exists>es. sqlStore_GetExpired t l s = (Inr es, s)"
  using assms by (simp add: sqlStore_GetExpired_def db_query_Done from_expire_def getExpiredSQL_def)

lemma DeleteByPostIDs_Done:
  assumes "outcomes s = []" "expire_rows s = Some rs"
  shows "sqlStore_DeleteByPostIDs ids s
    = (None, s\<lparr>expire_rows := Some (filter (\<lambda>r. PostID r \<notin> set ids) rs)\<rparr>)"
proof (cases "ids = []")
  case True
  then show ?thesis using assms by (simp add: sqlStore_DeleteByPostIDs_def)
next
  case False
  then show ?thesis using assms
    by (simp add: sqlStore_DeleteByPostIDs_def case_prod_beta deleteInSQL_inClause [simplified]
        db_exec_Done on_expire_def)
qed

lemma finite_index: "finite (dom (index_of s))"
proof -
  have "finite (dom (rows_map rs))" for rs
    by (rule finite_subset [of _ "PostID ` set rs"]) (auto dest: rows_map_Some)
  then show ?thesis by (simp add: index_of_def split: option.splits)
qed

lemma finite_backlog: "finite (backlog t (index_of s))"
  by (rule finite_subset [OF _ finite_index [of s]]) (auto simp: backlog_def)

end
