(* ===== verification/Purge.thy ===== *)
theory Purge
  imports Expire_Store
begin

section \<open>The transactional hard purge (\<open>server/purge/purge.go\<close>)\<close>

text \<open>
  The interface \<open>Purger\<close> is a function from post ids and a state to the pair that Go returns
  and the new state; its contract is the locale \<open>purger\<close>, shared with the expire index it must
  leave alone. \<open>sqlPurger\<close> deletes every row of the footprint in one transaction: the
  statements work on a private copy of the tables, which the commit publishes.
\<close>

datatype purge_error =
    PurgeBegin db_error
  | PurgeDelete string string db_error
  | PurgeCommit db_error
  | ErrSchemaSkipped

type_synonym 's purge_fn = "string list \<Rightarrow> 's \<Rightarrow> (int \<times> purge_error option) \<times> 's"

subsection \<open>The contract\<close>

text \<open>
  A purger does nothing for an empty batch, reports the size of the batch exactly when it
  reports success, never touches the expire index and never touches the data of a post that
  is not in the batch.
\<close>

locale purger =
  fixes purge :: "'s purge_fn"
    and index :: "'s \<Rightarrow> index_map"
    and ok :: "'s \<Rightarrow> bool"
    and data :: "'s \<Rightarrow> string \<Rightarrow> 'd"
  assumes purge_empty: "purge [] s = ((0, None), s)"
    and purge_index: "ok s \<Longrightarrow> purge ids s = (r, s') \<Longrightarrow> ok s' \<and> index s' = index s"
    and purge_count: "purge ids s = ((n, er), s') \<Longrightarrow>
      n = (if er = None then int (length ids) else 0)"
    and purge_others: "purge ids s = (r, s') \<Longrightarrow> p \<notin> set ids \<Longrightarrow> data s' p = data s p"

subsection \<open>The statements\<close>

type_synonym db_tables = "string \<rightharpoonup> sql_table"

definition footprint :: "(string \<times> string) list" where
  "footprint =
    [(''posts'', ''id''),
     (''fileinfo'', ''post_id''),
     (''reactions'', ''post_id''),
     (''mentions'', ''post_id'')]"

definition purge_inClause :: "string list \<Rightarrow> string \<times> string list" where
  "purge_inClause ids = (''('' @ Join (map (\<lambda>i. ''?'') ids) '', '' @ '')'', map (\<lambda>i. i) ids)"

text \<open>\<open>DELETE FROM t WHERE c IN (?, ...)\<close> on the tables as the transaction sees them.\<close>

definition delete_rows :: "string \<Rightarrow> string list \<Rightarrow> sql_table \<Rightarrow> sql_table" where
  "delete_rows c args tb = tb\<lparr>tbl_rows := filter (\<lambda>r. r c \<notin> Some ` set args) (tbl_rows tb)\<rparr>"

definition delete_stmt ::
  "string \<Rightarrow> string \<Rightarrow> string \<Rightarrow> string list \<Rightarrow> db_tables \<Rightarrow> db_error + db_tables" where
  "delete_stmt t c ph args tx =
     (case tx t of
        None \<Rightarrow> Inl (NoSuchTable t)
      | Some tb \<Rightarrow>
          if c \<notin> set (tbl_cols tb) then Inl (NoSuchColumn t c)
          else if placeholders ph \<noteq> length args then Inl BadArgs
          else Inr (tx(t \<mapsto> delete_rows c args tb)))"

text \<open>The loop over the footprint; any error ends it (and the caller rolls back).\<close>

fun purge_loop ::
  "(string \<times> string) list \<Rightarrow> string \<Rightarrow> string list \<Rightarrow> db_tables \<Rightarrow> 'a sqldb_scheme
    \<Rightarrow> (purge_error + db_tables) \<times> 'a sqldb_scheme" where
  "purge_loop [] ph args tx s = (Inr tx, s)"
| "purge_loop ((t, c) # fs) ph args tx s =
     (case next_outcome s of
        (Done, s1) \<Rightarrow>
          (case delete_stmt t c ph args tx of
             Inl e \<Rightarrow> (Inl (PurgeDelete t c e), s1)
           | Inr tx' \<Rightarrow> purge_loop fs ph args tx' s1)
      | (_, s1) \<Rightarrow> (Inl (PurgeDelete t c DriverError), s1))"

definition sqlPurger_Purge :: "('a sqldb_scheme) purge_fn" where
  "sqlPurger_Purge ids s =
     (if ids = [] then ((0, None), s)
      else
        let (ph, args) = purge_inClause ids in
        case next_outcome s of
          (Done, s1) \<Rightarrow>
            (case purge_loop footprint ph args (tables s1) s1 of
               (Inl e, s2) \<Rightarrow> ((0, Some e), s2)
             | (Inr tx, s2) \<Rightarrow>
                 (case next_outcome s2 of
                    (Done, s3) \<Rightarrow> ((int (length ids), None), s3\<lparr>tables := tx\<rparr>)
                  | (Failed, s3) \<Rightarrow> ((0, Some (PurgeCommit DriverError)), s3)
                  | (Lost, s3) \<Rightarrow> ((0, Some (PurgeCommit DriverError)), s3\<lparr>tables := tx\<rparr>)))
        | (_, s1) \<Rightarrow> ((0, Some (PurgeBegin DriverError)), s1))"

subsection \<open>What the loop computes\<close>

text \<open>The tables without the rows of the given posts, one footprint entry after the other.\<close>

fun wipe :: "(string \<times> string) list \<Rightarrow> string list \<Rightarrow> db_tables \<Rightarrow> db_tables" where
  "wipe [] ids tx = tx"
| "wipe ((t, c) # fs) ids tx = wipe fs ids (tx(t := map_option (delete_rows c ids) (tx t)))"

text \<open>The schema the purge was written for: every footprint table with its column.\<close>

definition has_col :: "db_tables \<Rightarrow> string \<times> string \<Rightarrow> bool" where
  "has_col tx f = (case tx (fst f) of None \<Rightarrow> False | Some tb \<Rightarrow> snd f \<in> set (tbl_cols tb))"

definition schema_ok :: "(string \<times> string) list \<Rightarrow> db_tables \<Rightarrow> bool" where
  "schema_ok fs tx = list_all (has_col tx) fs"

lemma schema_ok_simps [simp]:
  "schema_ok [] tx" "schema_ok (f # fs) tx \<longleftrightarrow> has_col tx f \<and> schema_ok fs tx"
  by (simp_all add: schema_ok_def)

lemma has_col_delete: "has_col (tx(t := map_option (delete_rows c ids) (tx t))) f = has_col tx f"
  by (auto simp: has_col_def delete_rows_def split: option.splits)

lemma schema_ok_delete:
  "schema_ok fs (tx(t := map_option (delete_rows c ids) (tx t))) = schema_ok fs tx"
  by (induction fs) (simp_all add: has_col_delete del: fun_upd_apply)

lemma schema_ok_wipe: "schema_ok fs (wipe gs ids tx) = schema_ok fs tx"
  by (induction gs ids tx rule: wipe.induct)
    (simp_all add: schema_ok_delete del: fun_upd_apply)

lemma delete_stmt_cases:
  assumes "placeholders ph = length args"
  shows "if has_col tx (t, c)
    then delete_stmt t c ph args tx = Inr (tx(t := map_option (delete_rows c args) (tx t)))
    else \<exists>e. delete_stmt t c ph args tx = Inl e"
  using assms by (auto simp: delete_stmt_def has_col_def split: option.splits)

lemma purge_loop_frame:
  "purge_loop fs ph args tx s = (r, s') \<Longrightarrow> same_data s s'"
proof (induction fs arbitrary: tx s)
  case (Cons f fs)
  obtain t c where f: "f = (t, c)" by (cases f)
  obtain d s1 where n: "next_outcome s = (d, s1)" by (cases "next_outcome s")
  then have s1: "same_data s s1" by (rule next_outcome_frame)
  show ?case
  proof (cases "d = Done \<and> (\<exists>tx'. delete_stmt t c ph args tx = Inr tx')")
    case True
    then obtain tx' where d: "d = Done" "delete_stmt t c ph args tx = Inr tx'" by blast
    then have "same_data s1 s'" using Cons n by (simp add: f)
    then show ?thesis by (rule same_data_trans [OF s1])
  next
    case False
    then have "s' = s1" using Cons.prems n by (cases d) (auto simp: f split: sum.splits)
    then show ?thesis using s1 by simp
  qed
qed simp

text \<open>
  The loop gets through exactly when every call reaches the database and the schema is the
  expected one, and then its result is the wiped tables.
\<close>

lemma purge_loop_Inr:
  assumes "placeholders ph = length args" "purge_loop fs ph args tx s = (Inr tx', s')"
  shows "tx' = wipe fs args tx \<and> schema_ok fs tx"
  using assms(2)
proof (induction fs arbitrary: tx s)
  case (Cons f fs)
  obtain t c where f: "f = (t, c)" by (cases f)
  obtain d s1 where n: "next_outcome s = (d, s1)" by (cases "next_outcome s")
  have d: "d = Done" "has_col tx f"
    using Cons.prems n delete_stmt_cases [OF assms(1), of tx t c]
    by (auto simp: f split: db_outcome.splits if_splits)
  then have "delete_stmt t c ph args tx = Inr (tx(t := map_option (delete_rows c args) (tx t)))"
    using delete_stmt_cases [OF assms(1), of tx t c] by (simp add: f)
  then have "purge_loop fs ph args (tx(t := map_option (delete_rows c args) (tx t))) s1 = (Inr tx', s')"
    using Cons.prems d n by (simp add: f del: fun_upd_apply)
  from Cons.IH [OF this] d show ?case by (simp add: f schema_ok_delete del: fun_upd_apply)
qed simp

lemma purge_loop_Done:
  assumes "placeholders ph = length args" "schema_ok fs tx" "outcomes s = []"
  shows "purge_loop fs ph args tx s = (Inr (wipe fs args tx), s)"
  using assms(2,3)
proof (induction fs arbitrary: tx)
  case (Cons f fs)
  obtain t c where f: "f = (t, c)" by (cases f)
  have "delete_stmt t c ph args tx = Inr (tx(t := map_option (delete_rows c args) (tx t)))"
    using delete_stmt_cases [OF assms(1), of tx t c] Cons.prems(1) by (simp add: f)
  then show ?case
    using Cons by (simp add: f next_outcome_Done schema_ok_delete del: fun_upd_apply)
qed simp

subsection \<open>What the purger does\<close>

lemma purge_inClause_args: "snd (purge_inClause ids) = ids"
  by (simp add: purge_inClause_def)

lemma purge_inClause_placeholders: "placeholders (fst (purge_inClause ids)) = length ids"
  unfolding purge_inClause_def fst_conv placeholders_list by simp

text \<open>The three ways a purge can end.\<close>

lemma sqlPurger_cases:
  assumes "ids \<noteq> []" "sqlPurger_Purge ids s = ((n, er), s')"
  obtains (wiped) "n = int (length ids)" "er = None" "schema_ok footprint (tables s)"
      "tables s' = wipe footprint ids (tables s)"
      "expire_rows s' = expire_rows s" "sqldb.more s' = sqldb.more s"
    | (lost) "n = 0" "er = Some (PurgeCommit DriverError)" "schema_ok footprint (tables s)"
      "tables s' = wipe footprint ids (tables s)"
      "expire_rows s' = expire_rows s" "sqldb.more s' = sqldb.more s"
    | (undone) e where "n = 0" "er = Some e" "same_data s s'"
proof -
  obtain d s1 where n1: "next_outcome s = (d, s1)" by (cases "next_outcome s")
  note f1 = next_outcome_frame [OF n1]
  obtain ph where in_eq: "purge_inClause ids = (ph, ids)" and ph: "placeholders ph = length ids"
    by (metis prod.collapse purge_inClause_args purge_inClause_placeholders)
  show ?thesis
  proof (cases "d = Done")
    case False
    then show ?thesis
      using assms n1 f1 undone by (cases d) (auto simp: sqlPurger_Purge_def in_eq)
  next
    case d: True
    obtain r s2 where l: "purge_loop footprint ph ids (tables s1) s1 = (r, s2)"
      by (cases "purge_loop footprint ph ids (tables s1) s1")
    note f2 = same_data_trans [OF f1 purge_loop_frame [OF l]]
    show ?thesis
    proof (cases r)
      case (Inl e)
      then show ?thesis
        using assms n1 d l f2 undone by (auto simp: sqlPurger_Purge_def in_eq)
    next
      case (Inr tx)
      with l have tx: "tx = wipe footprint ids (tables s)" "schema_ok footprint (tables s)"
        using purge_loop_Inr [OF ph, of footprint "tables s1" s1 tx s2] f1
        by (auto simp: same_data_def)
      obtain d3 s3 where n3: "next_outcome s2 = (d3, s3)" by (cases "next_outcome s2")
      note f3 = same_data_trans [OF f2 next_outcome_frame [OF n3]]
      show ?thesis
        using assms n1 d l Inr n3 f3 tx that
        by (cases d3) (auto simp: sqlPurger_Purge_def in_eq same_data_def)
    qed
  qed
qed

text \<open>The rows of a post, footprint table by footprint table.\<close>

definition rows_of :: "db_tables \<Rightarrow> string \<Rightarrow> string \<times> string \<Rightarrow> (string \<rightharpoonup> string) list" where
  "rows_of tx p f =
     (case tx (fst f) of None \<Rightarrow> [] | Some tb \<Rightarrow> filter (\<lambda>r. r (snd f) = Some p) (tbl_rows tb))"

definition post_rows :: "'a sqldb_scheme \<Rightarrow> string \<Rightarrow> (string \<rightharpoonup> string) list list" where
  "post_rows s p = map (rows_of (tables s) p) footprint"

lemma wipe_outside: "t \<notin> fst ` set fs \<Longrightarrow> wipe fs ids tx t = tx t"
  by (induction fs ids tx rule: wipe.induct) auto

lemma wipe_inside:
  "distinct (map fst fs) \<Longrightarrow> (t, c) \<in> set fs \<Longrightarrow>
     wipe fs ids tx t = map_option (delete_rows c ids) (tx t)"
proof (induction fs ids tx rule: wipe.induct)
  case (2 t' c' fs ids tx)
  show ?case
  proof (cases "t = t'")
    case True
    have "t' \<notin> fst ` set fs" using 2 by simp
    then have "(t, c) \<notin> set fs" using True by (metis fst_conv image_eqI)
    then have "c = c'" using 2 by simp
    then show ?thesis using 2 True by (simp add: wipe_outside)
  next
    case False
    then show ?thesis using 2 by (auto simp del: fun_upd_apply simp add: fun_upd_other)
  qed
qed simp

lemma distinct_footprint: "distinct (map fst footprint)"
  by (simp add: footprint_def)

lemma rows_of_delete:
  "rows_of (\<lambda>t. if t = fst f then map_option (delete_rows (snd f) ids) (tx t) else tx t) p f
     = (if p \<in> set ids then [] else rows_of tx p f)"
  by (auto simp: rows_of_def delete_rows_def filter_empty_conv split: option.splits
      intro!: filter_cong)

lemma rows_of_wipe:
  assumes "f \<in> set footprint"
  shows "rows_of (wipe footprint ids tx) p f = (if p \<in> set ids then [] else rows_of tx p f)"
proof -
  have "wipe footprint ids tx (fst f) = map_option (delete_rows (snd f) ids) (tx (fst f))"
    using wipe_inside [OF distinct_footprint, of "fst f" "snd f"] assms by simp
  then show ?thesis using rows_of_delete [of f ids tx p] by (simp add: rows_of_def)
qed

lemma post_rows_wipe:
  assumes "tables s' = wipe footprint ids (tables s)"
  shows "post_rows s' p = (if p \<in> set ids then [[], [], [], []] else post_rows s p)"
proof (cases "p \<in> set ids")
  case True
  then have "post_rows s' p = map (\<lambda>f. []) footprint"
    unfolding post_rows_def assms by (intro map_cong) (simp_all add: rows_of_wipe)
  then show ?thesis using True by (simp add: footprint_def)
next
  case False
  then have "post_rows s' p = post_rows s p"
    unfolding post_rows_def assms by (intro map_cong) (simp_all add: rows_of_wipe)
  then show ?thesis using False by simp
qed

lemma post_rows_same: "tables s' = tables s \<Longrightarrow> post_rows s' p = post_rows s p"
  by (simp add: post_rows_def)

lemma post_rows_tables: "tables s' = tables s \<Longrightarrow> post_rows s' = post_rows s"
  by (rule ext) (simp add: post_rows_def)

text \<open>Wiping twice is wiping once: the retry after a lost commit deletes nothing more.\<close>

lemma delete_rows_idem: "delete_rows c ids (delete_rows c ids tb) = delete_rows c ids tb"
  by (simp add: delete_rows_def)

lemma wipe_idem: "wipe footprint ids (wipe footprint ids tx) = wipe footprint ids tx"
proof
  fix t
  show "wipe footprint ids (wipe footprint ids tx) t = wipe footprint ids tx t"
  proof (cases "t \<in> fst ` set footprint")
    case True
    then obtain c where "(t, c) \<in> set footprint" by force
    then show ?thesis
      by (simp add: wipe_inside [OF distinct_footprint] option.map_comp o_def delete_rows_idem)
  qed (simp add: wipe_outside)
qed

lemma sqlPurger_empty [simp]: "sqlPurger_Purge [] s = ((0, None), s)"
  by (simp add: sqlPurger_Purge_def)

lemma sqlPurger_Done:
  assumes "outcomes s = []" "schema_ok footprint (tables s)" "ids \<noteq> []"
  shows "sqlPurger_Purge ids s
    = ((int (length ids), None), s\<lparr>tables := wipe footprint ids (tables s)\<rparr>)"
proof -
  obtain ph where "purge_inClause ids = (ph, ids)" "placeholders ph = length ids"
    by (metis prod.collapse purge_inClause_args purge_inClause_placeholders)
  then show ?thesis
    using assms by (simp add: sqlPurger_Purge_def next_outcome_Done purge_loop_Done)
qed

lemma sqlPurger_bad_schema:
  assumes "\<not> schema_ok footprint (tables s)" "ids \<noteq> []" "sqlPurger_Purge ids s = ((n, er), s')"
  shows "n = 0 \<and> er \<noteq> None \<and> same_data s s'"
  using assms(2,3)
proof (cases rule: sqlPurger_cases)
  case wiped
  then show ?thesis using assms(1) by simp
next
  case lost
  then show ?thesis using assms(1) by simp
qed simp

lemma sqlPurger_wipes_or_keeps:
  assumes "sqlPurger_Purge ids s = ((n, er), s')"
  shows "tables s' = wipe footprint ids (tables s) \<and> (er = None \<longrightarrow> n = int (length ids))
    \<or> tables s' = tables s \<and> er \<noteq> None"
proof (cases "ids = []")
  case True
  have "delete_rows c [] = id" for c by (simp add: fun_eq_iff delete_rows_def)
  then have "wipe footprint [] tx = tx" for tx
    by (simp add: footprint_def fun_upd_idem option.map_id)
  with True assms show ?thesis by simp
next
  case False
  from this assms show ?thesis
    by (cases rule: sqlPurger_cases) (auto simp: same_data_def)
qed

lemma sqlPurger_keeps_index:
  assumes "sqlPurger_Purge ids s = (r, s')"
  shows "expire_rows s' = expire_rows s \<and> sqldb.more s' = sqldb.more s"
proof (cases "ids = []")
  case True
  with assms show ?thesis by simp
next
  case False
  obtain n er where "r = (n, er)" by (cases r)
  with assms have "sqlPurger_Purge ids s = ((n, er), s')" by simp
  with False show ?thesis by (cases rule: sqlPurger_cases) (auto simp: same_data_def)
qed

interpretation hard: purger sqlPurger_Purge index_of index_ok post_rows
proof
  fix s :: "'a sqldb_scheme"
  show "sqlPurger_Purge [] s = ((0, None), s)" by simp
next
  fix s s' :: "'a sqldb_scheme" and ids r
  assume "index_ok s" "sqlPurger_Purge ids s = (r, s')"
  then show "index_ok s' \<and> index_of s' = index_of s"
    using sqlPurger_keeps_index [of ids s r s'] by (simp add: index_ok_def index_of_def)
next
  fix s s' :: "'a sqldb_scheme" and ids n er
  assume p: "sqlPurger_Purge ids s = ((n, er), s')"
  show "n = (if er = None then int (length ids) else 0)"
  proof (cases "ids = []")
    case False
    from this p show ?thesis by (cases rule: sqlPurger_cases) auto
  qed (use p in simp)
next
  fix s s' :: "'a sqldb_scheme" and ids r p
  assume a: "sqlPurger_Purge ids s = (r, s')" and p: "p \<notin> set ids"
  obtain n er where "r = (n, er)" by (cases r)
  with a have "sqlPurger_Purge ids s = ((n, er), s')" by simp
  from sqlPurger_wipes_or_keeps [OF this] show "post_rows s' p = post_rows s p"
    using p post_rows_wipe [of s' ids s p] post_rows_same [of s' s p] by metis
qed

end
