(* ===== verification/Go_Float.thy ===== *)
theory Go_Float
  imports Prelude
begin

section \<open>Non-negative IEEE 754 doubles\<close>

text \<open>
  The program reaches \<open>float64\<close> in two places of Go's \<open>time\<close> package: \<open>Duration.Seconds\<close>
  (used by \<open>server/ttl/service.go\<close> and \<open>server/api/command.go\<close>) and the fraction part of
  \<open>time.ParseDuration\<close>. Both only handle non-negative values (a negative duration is handled
  through its absolute value: rounding to nearest is symmetric). A double is \<open>Fin m e\<close>,
  the number \<open>m * 2 ^ e\<close>, or \<open>Inf\<close>. Every operation computes the exact fraction and
  rounds it once, to nearest with ties to even, to 53 bits of mantissa and no exponent below
  -1074, as IEEE 754 prescribes.
\<close>

datatype f64 = Fin int int | Inf

text \<open>The integer nearest to \<open>p / q\<close>, ties to the even one.\<close>

definition rne :: "int \<Rightarrow> int \<Rightarrow> int" where
  "rne p q = (let f = p div q; r = p mod q in
     if 2 * r < q then f
     else if q < 2 * r then f + 1
     else if even f then f else f + 1)"

text \<open>
  Scaling \<open>p / q\<close> so that its integer part has 53 bits: doubling \<open>p\<close> lowers the exponent
  (down to -1074, where doubles become subnormal), doubling \<open>q\<close> raises it.
\<close>

function scale_up :: "int \<Rightarrow> int \<Rightarrow> int \<Rightarrow> int \<times> int" where
  "scale_up p q e =
     (if p \<le> 0 \<or> 4503599627370496 * q \<le> p \<or> e \<le> -1074 then (p, e)
      else scale_up (2 * p) q (e - 1))"
  by pat_completeness auto
termination
  by (relation "measure (\<lambda>(p, q, e). nat (e + 1074))") auto

function scale_down :: "int \<Rightarrow> int \<Rightarrow> int \<Rightarrow> int \<times> int" where
  "scale_down p q e =
     (if q \<le> 0 \<or> p < 9007199254740992 * q then (q, e)
      else scale_down p (2 * q) (e + 1))"
  by pat_completeness auto
termination
  by (relation "measure (\<lambda>(p, q, e). nat (p - q))") auto

declare scale_up.simps [simp del] scale_down.simps [simp del]

definition f64_round :: "int \<Rightarrow> int \<Rightarrow> f64" where
  "f64_round p q =
     (let (p', e) = scale_up p q 0; (q', e') = scale_down p' q e; m = rne p' q'
      in if e' > 971 \<or> (e' = 971 \<and> 9007199254740992 \<le> m) then Inf else Fin m e')"

definition f64_of_int :: "int \<Rightarrow> f64" where
  "f64_of_int i = f64_round i 1"

text \<open>A finite double as a fraction.\<close>

definition num_of :: "int \<Rightarrow> int \<Rightarrow> int" where
  "num_of m e = m * 2 ^ nat e"

definition den_of :: "int \<Rightarrow> int" where
  "den_of e = 2 ^ nat (- e)"

fun f64_add :: "f64 \<Rightarrow> f64 \<Rightarrow> f64" where
  "f64_add (Fin m e) (Fin n g) =
     f64_round (num_of m e * den_of g + num_of n g * den_of e) (den_of e * den_of g)"
| "f64_add _ _ = Inf"

text \<open>A product with infinity only occurs here with a positive factor.\<close>

fun f64_mul :: "f64 \<Rightarrow> f64 \<Rightarrow> f64" where
  "f64_mul (Fin m e) (Fin n g) = f64_round (num_of m e * num_of n g) (den_of e * den_of g)"
| "f64_mul _ _ = Inf"

text \<open>Division by a positive double; a finite number divided by infinity is zero.\<close>

fun f64_div :: "f64 \<Rightarrow> f64 \<Rightarrow> f64" where
  "f64_div (Fin m e) (Fin n g) = f64_round (num_of m e * den_of g) (den_of e * num_of n g)"
| "f64_div (Fin m e) Inf = Fin 0 0"
| "f64_div Inf _ = Inf"

text \<open>Conversion to an integer type drops the fraction (of an in-range value).\<close>

fun f64_trunc :: "f64 \<Rightarrow> int" where
  "f64_trunc (Fin m e) = num_of m e div den_of e"
| "f64_trunc Inf = 0"

subsection \<open>Rounding keeps integer bounds\<close>

text \<open>
  The one fact the proofs need: a value between two integers below \<open>2 ^ 53\<close> still is after
  rounding, because those integers are doubles themselves.
\<close>

lemma rne_between:
  assumes "0 < q" "a * q \<le> p" "p \<le> b * q"
  shows "a \<le> rne p q \<and> rne p q \<le> b"
proof -
  have a: "a \<le> p div q" using assms(1,2) by (simp add: zdiv_mono1 [of "a * q" p q, simplified])
  have b: "p div q \<le> b" using assms(1,3) zdiv_mono1 [of p "b * q" q] by simp
  have "p div q + 1 \<le> b" if "p mod q \<noteq> 0"
  proof -
    have "p div q * q < p" using that assms(1)
      by (metis div_mult_mod_eq less_add_same_cancel1 order_le_less pos_mod_sign)
    then have "p div q * q < b * q" using assms(3) by linarith
    then show ?thesis using assms(1) by (simp add: mult_less_cancel_right)
  qed
  then show ?thesis using a b assms(1) unfolding rne_def Let_def by (auto split: if_splits)
qed

lemma scale_up_shift:
  assumes "scale_up p q e = (p', e')" "0 < q" "p < 9007199254740992 * q" "0 \<le> p"
  shows "e' \<le> e \<and> p' = p * 2 ^ nat (e - e') \<and> p' < 9007199254740992 * q"
  using assms
proof (induction p q e arbitrary: p' e' rule: scale_up.induct)
  case (1 p q e)
  show ?case
  proof (cases "p \<le> 0 \<or> 4503599627370496 * q \<le> p \<or> e \<le> -1074")
    case True
    with 1 show ?thesis by (simp add: scale_up.simps [of p q e])
  next
    case False
    then have "scale_up (2 * p) q (e - 1) = (p', e')"
      using "1.prems"(1) by (simp add: scale_up.simps [of p q e])
    with "1.IH" [OF False] False "1.prems"(2)
    have IH: "e' \<le> e - 1" "p' = 2 * p * 2 ^ nat (e - 1 - e')" "p' < 9007199254740992 * q"
      by auto
    then have "nat (e - e') = Suc (nat (e - 1 - e'))" by simp
    then show ?thesis using IH by simp
  qed
qed

lemma scale_down_id: "0 < q \<Longrightarrow> p < 9007199254740992 * q \<Longrightarrow> scale_down p q e = (q, e)"
  by (simp add: scale_down.simps)

lemma f64_round_between:
  assumes "0 < q" "a * q \<le> p" "p \<le> b * q" "0 \<le> a" "b < 9007199254740992"
  obtains m k where "f64_round p q = Fin m (- int k)" "a * 2 ^ k \<le> m" "m \<le> b * 2 ^ k"
proof -
  obtain p' e where up: "scale_up p q 0 = (p', e)" by (cases "scale_up p q 0")
  have "b * q < 9007199254740992 * q" using assms(1,5) by simp
  then have lt: "p < 9007199254740992 * q" using assms(3) by linarith
  have "0 \<le> a * q" using assms(1,4) by simp
  then have "0 \<le> p" using assms(2) by linarith
  with scale_up_shift [OF up assms(1) lt]
  have e: "e \<le> 0" and p': "p' = p * 2 ^ nat (- e)" and lt': "p' < 9007199254740992 * q" by auto
  let ?k = "nat (- e)"
  have "(a * 2 ^ ?k) * q \<le> p'" "p' \<le> (b * 2 ^ ?k) * q"
    using assms(2,3) p' mult_right_mono [of "a * q" p "2 ^ ?k"] mult_right_mono [of p "b * q" "2 ^ ?k"]
    by (auto simp: mult_ac)
  then have m: "a * 2 ^ ?k \<le> rne p' q \<and> rne p' q \<le> b * 2 ^ ?k"
    by (rule rne_between [OF assms(1)])
  have "f64_round p q = Fin (rne p' q) (- int ?k)"
    using up scale_down_id [OF assms(1) lt', of e] e by (simp add: f64_round_def)
  with m show ?thesis by (blast intro: that)
qed

lemma f64_of_int_exact:
  assumes "0 \<le> i" "i < 9007199254740992"
  obtains k where "f64_of_int i = Fin (i * 2 ^ k) (- int k)"
proof -
  from assms obtain m k where "f64_round i 1 = Fin m (- int k)" "i * 2 ^ k \<le> m" "m \<le> i * 2 ^ k"
    using f64_round_between [of 1 i i i] by auto
  then show ?thesis using that by (simp add: f64_of_int_def)
qed

lemma f64_trunc_between:
  assumes "a * 2 ^ k \<le> m" "m \<le> b * 2 ^ k"
  shows "a \<le> f64_trunc (Fin m (- int k)) \<and> f64_trunc (Fin m (- int k)) \<le> b"
  using zdiv_mono1 [OF assms(1), of "2 ^ k"] zdiv_mono1 [OF assms(2), of "2 ^ k"]
  by (simp add: num_of_def den_of_def)

end
