(* ===== verification/Go_Time.thy ===== *)
theory Go_Time
  imports Go_Float
begin

section \<open>Go durations\<close>

text \<open>
  What the program uses of Go's package \<open>time\<close>. A \<open>time.Duration\<close> is an \<open>int64\<close> number
  of nanoseconds. A \<open>time.Time\<close> is only ever read through \<open>UnixMilli\<close> by the server, so
  an instant is its \<open>int64\<close> number of milliseconds.
\<close>

type_synonym duration = int64

abbreviation Second :: duration where "Second \<equiv> 1000000000"
abbreviation Minute :: duration where "Minute \<equiv> 60000000000"
abbreviation Hour :: duration where "Hour \<equiv> 3600000000000"

definition Milliseconds :: "duration \<Rightarrow> int64" where
  "Milliseconds d = go_div d 1000000"

text \<open>
  \<open>int64(d.Seconds())\<close>: the standard library divides into whole seconds and nanoseconds,
  adds \<open>float64(sec) + float64(nsec) / 1e9\<close>, and the conversion drops the fraction.
\<close>

definition Seconds :: "int \<Rightarrow> f64" where
  "Seconds n = f64_add (f64_of_int (n div 1000000000))
     (f64_div (f64_of_int (n mod 1000000000)) (f64_of_int 1000000000))"

definition int64_Seconds :: "duration \<Rightarrow> int64" where
  "int64_Seconds d =
     (let t = f64_trunc (Seconds \<bar>sint d\<bar>) in word_of_int (if sint d < 0 then - t else t))"

lemma Milliseconds_nonneg: "0 \<le> sint d \<Longrightarrow> sint (Milliseconds d) = sint d div 1000000"
  by (simp add: Milliseconds_def sint_go_div_nonneg)

lemma f64_billion: "f64_of_int 1000000000 = Fin 8388608000000000 (-23)"
  by (simp add: f64_of_int_def f64_round_def scale_up.simps scale_down.simps rne_def Let_def)

lemma f64_div_billion:
  assumes "0 \<le> i" "i < 1000000000"
  obtains m k where "f64_div (f64_of_int i) (f64_of_int 1000000000) = Fin m (- int k)"
    "0 \<le> m" "m \<le> 2 ^ k" "i = 0 \<Longrightarrow> m = 0"
proof -
  from assms obtain k where i: "f64_of_int i = Fin (i * 2 ^ k) (- int k)"
    using f64_of_int_exact [of i] by auto
  define q :: int where "q = 2 ^ k * 8388608000000000"
  have q: "0 < q" by (simp add: q_def)
  have eq: "f64_div (f64_of_int i) (f64_of_int 1000000000) = f64_round (i * 2 ^ k * 8388608) q"
    by (simp add: i f64_billion num_of_def den_of_def q_def)
  have "i * 2 ^ k * 8388608 \<le> (if i = 0 then 0 else 1) * q"
    using assms by (auto simp: q_def)
  moreover have "0 * q \<le> i * 2 ^ k * 8388608" using assms by simp
  ultimately obtain m n where "f64_round (i * 2 ^ k * 8388608) q = Fin m (- int n)"
    and "0 * 2 ^ n \<le> m" "m \<le> (if i = 0 then 0 else 1) * 2 ^ n"
    using f64_round_between [OF q, of 0 "i * 2 ^ k * 8388608" "if i = 0 then 0 else 1"]
    by (auto split: if_splits)
  then show ?thesis by (intro that [of m n]) (auto simp: eq split: if_splits)
qed

lemma Seconds_between:
  assumes "0 \<le> n" "n \<le> 9223372036854775808"
  shows "n div 1000000000 \<le> f64_trunc (Seconds n)
    \<and> f64_trunc (Seconds n) \<le> n div 1000000000 + (if n mod 1000000000 = 0 then 0 else 1)"
proof -
  define s i where "s = n div 1000000000" and "i = n mod 1000000000"
  have s: "0 \<le> s" "s \<le> 9223372036" and i: "0 \<le> i" "i < 1000000000"
    using assms by (auto simp: s_def i_def pos_imp_zdiv_nonneg_iff intro: order_trans [OF zdiv_mono1])
  obtain k where a: "f64_of_int s = Fin (s * 2 ^ k) (- int k)"
    using s f64_of_int_exact [of s] by auto
  obtain m l where b: "f64_div (f64_of_int i) (f64_of_int 1000000000) = Fin m (- int l)"
    and m: "0 \<le> m" "m \<le> 2 ^ l" "i = 0 \<Longrightarrow> m = 0"
    using f64_div_billion [OF i] by blast
  let ?u = "if i = 0 then 0 else 1 :: int"
  let ?p = "s * 2 ^ k * 2 ^ l + m * 2 ^ k" and ?q = "2 ^ k * 2 ^ l :: int"
  have sum: "Seconds n = f64_round ?p ?q"
    by (simp add: Seconds_def a b s_def [symmetric] i_def [symmetric] num_of_def den_of_def)
  have mu: "m \<le> ?u * 2 ^ l" using m by auto
  have "s * ?q \<le> ?p" "?p \<le> (s + ?u) * ?q"
    using m(1) mult_right_mono [OF mu, of "2 ^ k"] by (auto simp: algebra_simps)
  moreover have "s + ?u < 9007199254740992" "0 < ?q" using s by (auto split: if_splits)
  ultimately obtain r j
    where "f64_round ?p ?q = Fin r (- int j)" "s * 2 ^ j \<le> r" "r \<le> (s + ?u) * 2 ^ j"
    using f64_round_between [of ?q s ?p "s + ?u"] s(1) by blast
  then show ?thesis
    using f64_trunc_between [of s j r "s + ?u"] sum by (simp add: s_def i_def)
qed

text \<open>
  \<open>int64(d.Seconds())\<close> is the number of whole seconds, or one more: the sum of the two
  doubles may round up to the next integer. On whole seconds it is exact.
\<close>

lemma int64_Seconds_between:
  assumes "0 \<le> sint d"
  shows "sint d div 1000000000 \<le> sint (int64_Seconds d)
    \<and> sint (int64_Seconds d) \<le> sint d div 1000000000 + (if sint d mod 1000000000 = 0 then 0 else 1)"
proof -
  let ?t = "f64_trunc (Seconds (sint d))"
  have lt: "sint d < 9223372036854775808" by (rule sint64_less)
  then have t: "sint d div 1000000000 \<le> ?t
      \<and> ?t \<le> sint d div 1000000000 + (if sint d mod 1000000000 = 0 then 0 else 1)"
    by (intro Seconds_between assms less_imp_le)
  have "0 \<le> sint d div 1000000000" "sint d div 1000000000 \<le> sint d"
    using assms by (auto simp: pos_imp_zdiv_nonneg_iff)
  moreover have "sint d div 1000000000 + 1 < 9223372036854775808" using lt assms by linarith
  ultimately have "sint (word_of_int ?t :: int64) = ?t"
    using t by (intro sint64_of_int) (auto split: if_splits)
  then show ?thesis using t assms by (simp add: int64_Seconds_def)
qed

text \<open>The product of a number of seconds with \<open>time.Second\<close>, while it does not overflow.\<close>

lemma sint_seconds:
  assumes "0 \<le> sint n" "sint n \<le> 9223372036"
  shows "sint (n * Second) = sint n * 1000000000"
  using sint64_mult [of n Second] assms by simp

lemma int64_Seconds_whole:
  assumes "0 \<le> sint n" "sint n \<le> 9223372036"
  shows "int64_Seconds (n * Second) = n"
proof -
  have s: "sint (n * Second) = sint n * 1000000000" by (rule sint_seconds [OF assms])
  then have "sint (int64_Seconds (n * Second)) = sint n"
    using int64_Seconds_between [of "n * Second"] assms by auto
  then show ?thesis by (simp add: sint64_eq_iff)
qed

end
