(* ===== verification/TTL_Policy.thy ===== *)
theory TTL_Policy
  imports Go_Time
begin

section \<open>TTL bounds, presets and errors (\<open>server/ttl/ttl.go\<close>)\<close>

text \<open>
  The bounds and presets of a channel's time to live, and the errors of the package \<open>ttl\<close>.
  Go's sentinel errors are the constructors of \<open>ttl_error\<close>; an error that wraps another one
  with \<open>%w\<close> carries what it wraps, so that \<open>errors.Is\<close> is a test on the constructor. A
  Mattermost \<open>*model.AppError\<close> is only ever wrapped or logged: it is its text. \<open>ErrDecode\<close> keeps
  the data that could not be decoded.
\<close>

type_synonym app_error = string

datatype ttl_error =
    ErrInvalidTTL
  | ErrForbidden
  | ErrChannelNotFound string app_error
  | ErrTooManyRetries
  | ErrEncode string string
  | ErrDecode string string
  | ErrKVGet string app_error
  | ErrKVSet string app_error
  | ErrKVDelete string app_error

abbreviation MinTTL :: duration where "MinTTL \<equiv> Minute"

definition MaxTTL :: duration where
  "MaxTTL = 365 * 24 * Hour"

record preset =
  Label :: string
  Duration :: duration

definition Presets :: "preset list" where
  "Presets =
    [\<lparr>Label = ''5m'', Duration = 5 * Minute\<rparr>,
     \<lparr>Label = ''1h'', Duration = Hour\<rparr>,
     \<lparr>Label = ''8h'', Duration = 8 * Hour\<rparr>,
     \<lparr>Label = ''1d'', Duration = 24 * Hour\<rparr>,
     \<lparr>Label = ''1w'', Duration = 7 * 24 * Hour\<rparr>]"

definition ValidateTTL :: "duration \<Rightarrow> ttl_error option" where
  "ValidateTTL d = (if sint d < sint MinTTL \<or> sint MaxTTL < sint d then Some ErrInvalidTTL else None)"

fun preset_loop :: "string \<Rightarrow> preset list \<Rightarrow> preset option" where
  "preset_loop label [] = None"
| "preset_loop label (p # ps) = (if Label p = label then Some p else preset_loop label ps)"

definition PresetForLabel :: "string \<Rightarrow> preset option" where
  "PresetForLabel label = preset_loop label Presets"

subsection \<open>Facts\<close>

lemma sint_MaxTTL [simp]: "sint MaxTTL = 31536000000000000"
  by (simp add: MaxTTL_def)

lemma ValidateTTL_None_iff:
  "ValidateTTL d = None \<longleftrightarrow> 60000000000 \<le> sint d \<and> sint d \<le> 31536000000000000"
  by (auto simp: ValidateTTL_def)

lemma ValidateTTL_Some_iff:
  "ValidateTTL d = Some e \<longleftrightarrow>
    e = ErrInvalidTTL \<and> (sint d < 60000000000 \<or> 31536000000000000 < sint d)"
  by (auto simp: ValidateTTL_def)

lemma ValidateTTL_cases:
  "ValidateTTL d = None \<or> ValidateTTL d = Some ErrInvalidTTL"
  by (simp add: ValidateTTL_def)

lemma preset_loop_Some: "preset_loop l ps = Some p \<Longrightarrow> p \<in> set ps \<and> Label p = l"
  by (induction ps) (auto split: if_splits)

lemma preset_loop_distinct:
  "distinct (map Label ps) \<Longrightarrow> p \<in> set ps \<Longrightarrow> preset_loop (Label p) ps = Some p"
  by (induction ps) auto

lemma Presets_valid: "p \<in> set Presets \<Longrightarrow> ValidateTTL (Duration p) = None"
  by (auto simp: Presets_def ValidateTTL_None_iff)

lemma Presets_whole_seconds:
  "p \<in> set Presets \<Longrightarrow> \<exists>n. 0 \<le> sint n \<and> sint n \<le> 31536000 \<and> Duration p = n * Second"
  by (auto simp: Presets_def intro: exI [of _ 300] exI [of _ 3600] exI [of _ 28800]
      exI [of _ 86400] exI [of _ 604800])

text \<open>A valid TTL, read in whole seconds, stays between a minute and a year.\<close>

lemma valid_TTL_seconds:
  assumes "ValidateTTL d = None"
  shows "60 \<le> sint (int64_Seconds d) \<and> sint (int64_Seconds d) \<le> 31536000"
proof -
  have d: "60000000000 \<le> sint d" "sint d \<le> 31536000000000000"
    using assms by (auto simp: ValidateTTL_None_iff)
  then have "60 \<le> sint d div 1000000000" by linarith
  moreover have "sint d div 1000000000 + (if sint d mod 1000000000 = 0 then 0 else 1) \<le> 31536000"
    using d div_mult_mod_eq [of "sint d" 1000000000] pos_mod_sign [of 1000000000 "sint d"]
    by (simp only: split: if_splits) linarith
  ultimately show ?thesis using int64_Seconds_between [of d] d by linarith
qed

text \<open>Cut to whole seconds, a valid TTL is valid, and the same if it had no fraction.\<close>

lemma valid_TTL_whole:
  assumes "ValidateTTL d = None"
  defines "d' \<equiv> int64_Seconds d * Second"
  shows "ValidateTTL d' = None
    \<and> (sint d' = sint d div 1000000000 * 1000000000 \<or> sint d' = sint d div 1000000000 * 1000000000 + 1000000000)
    \<and> (sint d mod 1000000000 = 0 \<longrightarrow> d' = d)"
proof -
  let ?n = "sint (int64_Seconds d)"
  have b: "60 \<le> ?n" "?n \<le> 31536000" using valid_TTL_seconds [OF assms(1)] by auto
  have d: "60000000000 \<le> sint d" using assms(1) by (simp add: ValidateTTL_None_iff)
  have s: "sint d' = ?n * 1000000000" using sint_seconds [of "int64_Seconds d"] b by (simp add: d'_def)
  have n: "sint d div 1000000000 \<le> ?n"
      "?n \<le> sint d div 1000000000 + (if sint d mod 1000000000 = 0 then 0 else 1)"
    using int64_Seconds_between [of d] d by auto
  then have "?n = sint d div 1000000000 \<or> ?n = sint d div 1000000000 + 1"
    by (auto split: if_splits)
  then have "sint d' = sint d div 1000000000 * 1000000000 \<or> sint d' = sint d div 1000000000 * 1000000000 + 1000000000"
    unfolding s by (elim disjE) (simp_all add: algebra_simps)
  moreover have "d' = d" if z: "sint d mod 1000000000 = 0"
  proof -
    have "?n = sint d div 1000000000" using n z by simp
    then have "sint d' = sint d div 1000000000 * 1000000000" using s by simp
    also have "\<dots> = sint d" using z div_mult_mod_eq [of "sint d" 1000000000] by linarith
    finally show ?thesis by (simp add: sint64_eq_iff)
  qed
  moreover have "ValidateTTL d' = None" using b by (simp add: ValidateTTL_None_iff s)
  ultimately show ?thesis by blast
qed

end
