(* ===== verification/World.thy ===== *)
theory World
  imports Purge TTL_Policy
begin

section \<open>The state of the plugin's environment and the Mattermost plugin API\<close>

text \<open>
  The state the components share: the database of theory \<open>Database\<close>, what the Mattermost
  server holds besides (\<open>srv\<close>, of any type), and two traces of outputs, the log lines and
  the WebSocket events, in the order they were produced. A log line is its level, its message
  and the key/value pairs after it; a value of the interface type \<open>error\<close> is a \<open>go_error\<close>.

  The methods of the plugin API (\<open>plugin.API\<close>, third-party code) are the fields of records of
  functions over any state; the code of the plugin takes them as arguments. What is assumed
  of them is stated where it is used.
\<close>

datatype go_error =
    AppErr app_error
  | TTLErr ttl_error
  | ExpireErr expire_error
  | PurgeErr purge_error

datatype log_value = LogInt int | LogString string | LogErr go_error

type_synonym keyvals = "(string \<times> log_value) list"

datatype log_line = Info string keyvals | Error string keyvals

text \<open>The payload of an event (\<open>ttlDTO\<close> of \<open>server/api/handler.go\<close>).\<close>

record ttlDTO =
  dto_DurationSeconds :: int64
  dto_SetBy :: string
  dto_SetAt :: int64

record ws_event =
  ws_name :: string
  ws_channel :: string
  ws_ttl :: "ttlDTO option"
  ws_broadcast_channel :: string

record 'w world = sqldb +
  srv :: 'w
  logs :: "log_line list"
  events :: "ws_event list"

definition LogInfo :: "string \<Rightarrow> keyvals \<Rightarrow> 'w world \<Rightarrow> 'w world" where
  "LogInfo msg kvs s = s\<lparr>logs := logs s @ [Info msg kvs]\<rparr>"

definition LogError :: "string \<Rightarrow> keyvals \<Rightarrow> 'w world \<Rightarrow> 'w world" where
  "LogError msg kvs s = s\<lparr>logs := logs s @ [Error msg kvs]\<rparr>"

definition PublishWebSocketEvent ::
  "string \<Rightarrow> string \<Rightarrow> ttlDTO option \<Rightarrow> string \<Rightarrow> 'w world \<Rightarrow> 'w world" where
  "PublishWebSocketEvent name ch t bc s = s\<lparr>events := events s @
     [\<lparr>ws_name = name, ws_channel = ch, ws_ttl = t, ws_broadcast_channel = bc\<rparr>]\<rparr>"

text \<open>The long dash of the messages, in UTF-8.\<close>

definition dash :: string where
  "dash = [CHR 0xE2, CHR 0x80, CHR 0x94]"

subsection \<open>The plugin API\<close>

text \<open>A byte slice that may be nil.\<close>

type_synonym byte_slice = "bytes option"

record kv_options =
  Atomic :: bool
  OldValue :: byte_slice

record 's kv_api =
  KVGet :: "string \<Rightarrow> 's \<Rightarrow> (app_error + byte_slice) \<times> 's"
  KVSetWithOptions :: "string \<Rightarrow> bytes \<Rightarrow> kv_options \<Rightarrow> 's \<Rightarrow> (app_error + bool) \<times> 's"
  KVDelete :: "string \<Rightarrow> 's \<Rightarrow> app_error option \<times> 's"

datatype permission =
    PermissionManageSystem
  | PermissionManagePublicChannelProperties
  | PermissionManagePrivateChannelProperties

text \<open>What the code asks of a \<open>*model.Channel\<close>: the results of its two methods.\<close>

record channel =
  IsGroupOrDirect :: bool
  IsOpen :: bool

record 's perm_api =
  HasPermissionTo :: "string \<Rightarrow> permission \<Rightarrow> 's \<Rightarrow> bool"
  HasPermissionToChannel :: "string \<Rightarrow> string \<Rightarrow> permission \<Rightarrow> 's \<Rightarrow> bool"
  GetChannel :: "string \<Rightarrow> 's \<Rightarrow> channel option \<times> app_error option"

text \<open>\<open>HasLicense\<close> is \<open>GetLicense() != nil\<close>.\<close>

record 's server_api =
  HasLicense :: "'s \<Rightarrow> bool"
  GetServerVersion :: "'s \<Rightarrow> string"
  DeletePost :: "string \<Rightarrow> 's \<Rightarrow> app_error option \<times> 's"

subsection \<open>Outputs leave the rest of the state alone\<close>

lemma LogError_frame [simp]:
  "expire_rows (LogError m kvs s) = expire_rows s" "tables (LogError m kvs s) = tables s"
  "outcomes (LogError m kvs s) = outcomes s" "srv (LogError m kvs s) = srv s"
  "events (LogError m kvs s) = events s" "logs (LogError m kvs s) = logs s @ [Error m kvs]"
  by (simp_all add: LogError_def)

lemma LogInfo_frame [simp]:
  "expire_rows (LogInfo m kvs s) = expire_rows s" "tables (LogInfo m kvs s) = tables s"
  "outcomes (LogInfo m kvs s) = outcomes s" "srv (LogInfo m kvs s) = srv s"
  "events (LogInfo m kvs s) = events s" "logs (LogInfo m kvs s) = logs s @ [Info m kvs]"
  by (simp_all add: LogInfo_def)

lemma PublishWebSocketEvent_frame [simp]:
  "expire_rows (PublishWebSocketEvent n c t b s) = expire_rows s"
  "tables (PublishWebSocketEvent n c t b s) = tables s"
  "outcomes (PublishWebSocketEvent n c t b s) = outcomes s"
  "srv (PublishWebSocketEvent n c t b s) = srv s"
  "logs (PublishWebSocketEvent n c t b s) = logs s"
  by (simp_all add: PublishWebSocketEvent_def)

lemma index_of_outputs [simp]:
  "index_of (LogError m kvs s) = index_of s" "index_ok (LogError m kvs s) = index_ok s"
  "post_rows (LogError m kvs s) = post_rows s"
  by (simp_all add: index_of_def index_ok_def post_rows_def fun_eq_iff)

end
