(* ===== verification/Config.thy ===== *)
theory Config
  imports World
begin

section \<open>Configuration and the deletion mode (\<open>server/configuration.go\<close>)\<close>

text \<open>
  The plugin's configuration, the parsing of the version allowlist and the decision between
  soft delete, skipping and hard purge. The holder of the active configuration is a value
  that \<open>set\<close> replaces and \<open>get\<close> returns, each under its lock.
\<close>

record configuration =
  EnablePurge :: bool
  PurgeSchemaAllowlistRaw :: string

text \<open>The zero value of the struct.\<close>

definition zero_configuration :: configuration where
  "zero_configuration = \<lparr>EnablePurge = False, PurgeSchemaAllowlistRaw = ''''\<rparr>"

fun allowlist_loop :: "string list \<Rightarrow> string list" where
  "allowlist_loop [] = []"
| "allowlist_loop (e # es) =
     (let e' = TrimSpace e in if e' \<noteq> [] then e' # allowlist_loop es else allowlist_loop es)"

text \<open>The receiver is a pointer: nil gives no entries.\<close>

definition PurgeSchemaAllowlist :: "configuration option \<Rightarrow> string list" where
  "PurgeSchemaAllowlist c =
     (case c of
        None \<Rightarrow> []
      | Some c \<Rightarrow> allowlist_loop (Split (PurgeSchemaAllowlistRaw c) (CHR '','')))"

record configHolder =
  conf :: configuration

definition holder_get :: "configHolder \<Rightarrow> configuration" where
  "holder_get h = conf h"

definition holder_set :: "configuration \<Rightarrow> configHolder \<Rightarrow> configHolder" where
  "holder_set c h = h\<lparr>conf := c\<rparr>"

fun version_loop :: "string \<Rightarrow> string list \<Rightarrow> bool" where
  "version_loop v [] = False"
| "version_loop v (a # as) = (if HasPrefix v a then True else version_loop v as)"

definition versionAllowed :: "string \<Rightarrow> string list \<Rightarrow> bool" where
  "versionAllowed v allowlist = (if length allowlist = 0 then False else version_loop v allowlist)"

datatype purgeMode = PurgeSoft | PurgeSkip | PurgeHard

definition purgeDecision :: "bool \<Rightarrow> bool \<Rightarrow> string \<Rightarrow> string list \<Rightarrow> purgeMode" where
  "purgeDecision enablePurge isEnterprise serverVersion allowlist =
     (if \<not> enablePurge \<or> isEnterprise then PurgeSoft
      else if \<not> versionAllowed serverVersion allowlist then PurgeSkip
      else PurgeHard)"

subsection \<open>Facts\<close>

lemma versionAllowed_iff: "versionAllowed v as \<longleftrightarrow> (\<exists>a\<in>set as. \<exists>r. v = a @ r)"
proof -
  have "version_loop v as \<longleftrightarrow> (\<exists>a\<in>set as. HasPrefix v a)" by (induction as) auto
  then show ?thesis by (auto simp: versionAllowed_def HasPrefix_iff)
qed

lemma allowlist_loop_in: "a \<in> set (allowlist_loop es) \<longleftrightarrow> a \<noteq> [] \<and> a \<in> TrimSpace ` set es"
  by (induction es) (auto simp: Let_def)

lemma purgeDecision_hard_iff:
  "purgeDecision en ent v as = PurgeHard \<longleftrightarrow> en \<and> \<not> ent \<and> versionAllowed v as"
  by (auto simp: purgeDecision_def)

lemma purgeDecision_skip_iff:
  "purgeDecision en ent v as = PurgeSkip \<longleftrightarrow> en \<and> \<not> ent \<and> \<not> versionAllowed v as"
  by (auto simp: purgeDecision_def)

lemma purgeDecision_soft_iff: "purgeDecision en ent v as = PurgeSoft \<longleftrightarrow> \<not> en \<or> ent"
  by (auto simp: purgeDecision_def)

text \<open>An entry of the parsed list is never empty: the empty prefix would allow every version.\<close>

lemma allowlist_entry:
  assumes "a \<in> set (PurgeSchemaAllowlist c)"
  shows "a \<noteq> [] \<and> CHR '','' \<notin> set a"
proof -
  obtain c' :: configuration where "a \<in> set (allowlist_loop (Split (PurgeSchemaAllowlistRaw c') (CHR '','')))"
    using assms by (cases c) (auto simp: PurgeSchemaAllowlist_def)
  then obtain e where "a \<noteq> []" "a = TrimSpace e"
    and "e \<in> set (Split (PurgeSchemaAllowlistRaw c') (CHR '',''))"
    unfolding allowlist_loop_in by blast
  then show ?thesis
    using TrimSpace_infix [of e] Split_no_sep [of e "PurgeSchemaAllowlistRaw c'" "CHR '',''"]
    by (metis Un_iff set_append)
qed

lemma zero_allowlist [simp]: "PurgeSchemaAllowlist (Some zero_configuration) = []"
  by (simp add: PurgeSchemaAllowlist_def zero_configuration_def Split_def TrimSpace_def
      trim_left.simps)

end
