(* ===== verification/Purge_Switch.thy ===== *)
theory Purge_Switch
  imports Config
begin

section \<open>Routing a purge (\<open>server/purger_switch.go\<close>)\<close>

text \<open>
  \<open>configPurger\<close> implements the interface \<open>Purger\<close> as well: it reads the configuration, the
  license and the version for every batch, and deletes softly through the API, skips with an
  error, or hands the batch to the hard purger it was built with.
\<close>

definition msg_soft_failed :: string where
  "msg_soft_failed = ''disappear: soft-delete failed''"

definition msg_skipped :: string where
  "msg_skipped = ''disappear: hard purge skipped '' @ dash
     @ '' MM schema version not in allowlist (fail-safe)''"

text \<open>The loop: a post whose deletion fails is logged, and the loop goes on.\<close>

fun softDelete_loop :: "('w world) server_api \<Rightarrow> string list \<Rightarrow> 'w world \<Rightarrow> 'w world" where
  "softDelete_loop api [] s = s"
| "softDelete_loop api (i # ids) s =
     (case DeletePost api i s of
        (None, s1) \<Rightarrow> softDelete_loop api ids s1
      | (Some e, s1) \<Rightarrow> softDelete_loop api ids
          (LogError msg_soft_failed [(''post_id'', LogString i), (''err'', LogErr (AppErr e))] s1))"

definition softDelete :: "('w world) server_api \<Rightarrow> string list \<Rightarrow> 'w world \<Rightarrow> int \<times> 'w world" where
  "softDelete api ids s = (int (length ids), softDelete_loop api ids s)"

definition configPurger_Purge ::
  "configHolder \<Rightarrow> ('w world) purge_fn \<Rightarrow> ('w world) server_api \<Rightarrow> ('w world) purge_fn" where
  "configPurger_Purge holder hard api ids s =
     (if length ids = 0 then ((0, None), s)
      else
        let cfg = holder_get holder in
        case purgeDecision (EnablePurge cfg) (HasLicense api s) (GetServerVersion api s)
            (PurgeSchemaAllowlist (Some cfg)) of
          PurgeSoft \<Rightarrow> (let (n, s') = softDelete api ids s in ((n, None), s'))
        | PurgeSkip \<Rightarrow> ((0, Some ErrSchemaSkipped),
            LogError msg_skipped [(''version'', LogString (GetServerVersion api s))] s)
        | PurgeHard \<Rightarrow> hard ids s)"

subsection \<open>The switch is a purger\<close>

text \<open>
  What the switch needs of its parts: the purger behind it is one, and the API's deletion
  changes neither the plugin's own table nor the data of another post.
\<close>

locale switched_purger = purger hard index ok data
  for hard :: "('w world) purge_fn"
    and index :: "'w world \<Rightarrow> index_map"
    and ok :: "'w world \<Rightarrow> bool"
    and data :: "'w world \<Rightarrow> string \<Rightarrow> 'd" +
  fixes api :: "('w world) server_api"
  assumes delete_index: "ok s \<Longrightarrow> DeletePost api i s = (er, s') \<Longrightarrow> ok s' \<and> index s' = index s"
    and delete_others: "DeletePost api i s = (er, s') \<Longrightarrow> p \<noteq> i \<Longrightarrow> data s' p = data s p"
    and log_index: "ok (LogError m kvs s) = ok s" "index (LogError m kvs s) = index s"
    and log_data: "data (LogError m kvs s) = data s"
begin

lemma soft_index: "ok s \<Longrightarrow> ok (softDelete_loop api ids s) \<and> index (softDelete_loop api ids s) = index s"
proof (induction ids arbitrary: s)
  case (Cons i ids)
  obtain er s1 where d: "DeletePost api i s = (er, s1)" by (cases "DeletePost api i s")
  have "ok s1 \<and> index s1 = index s" using delete_index [OF Cons.prems d] .
  then show ?case
    using Cons.IH [of s1] Cons.IH [of "LogError msg_soft_failed kvs s1" for kvs] d
    by (cases er) (simp_all add: log_index)
qed simp

lemma soft_others: "p \<notin> set ids \<Longrightarrow> data (softDelete_loop api ids s) p = data s p"
proof (induction ids arbitrary: s)
  case (Cons i ids)
  obtain er s1 where d: "DeletePost api i s = (er, s1)" by (cases "DeletePost api i s")
  have "data s1 p = data s p" using delete_others [OF d] Cons.prems by simp
  then show ?case using Cons d by (cases er) (simp_all add: log_data)
qed simp

lemma switch_cases:
  obtains (soft) "configPurger_Purge holder hard api ids s
        = ((int (length ids), None), softDelete_loop api ids s)"
    | (skip) "configPurger_Purge holder hard api ids s
        = ((0, Some ErrSchemaSkipped),
          LogError msg_skipped [(''version'', LogString (GetServerVersion api s))] s)" "ids \<noteq> []"
    | (hard) "configPurger_Purge holder hard api ids s = hard ids s"
  using purge_empty [of s]
  by (cases "purgeDecision (EnablePurge (holder_get holder)) (HasLicense api s)
      (GetServerVersion api s) (PurgeSchemaAllowlist (Some (holder_get holder)))"; cases "ids = []")
    (auto simp: configPurger_Purge_def softDelete_def Let_def)

end

sublocale switched_purger \<subseteq> switch: purger "configPurger_Purge holder hard api" index ok data
  for holder
proof
  fix s
  show "configPurger_Purge holder hard api [] s = ((0, None), s)"
    by (simp add: configPurger_Purge_def)
next
  fix s ids r s'
  assume s: "ok s" and "configPurger_Purge holder hard api ids s = (r, s')"
  then show "ok s' \<and> index s' = index s"
    using soft_index [OF s, of ids] purge_index [OF s, of ids r s']
    by (cases rule: switch_cases [of holder ids s]) (auto simp: log_index)
next
  fix ids s n er s'
  assume "configPurger_Purge holder hard api ids s = ((n, er), s')"
  then show "n = (if er = None then int (length ids) else 0)"
    using purge_count [of ids s n er s']
    by (cases rule: switch_cases [of holder ids s]) auto
next
  fix ids s r s' p
  assume "configPurger_Purge holder hard api ids s = (r, s')" and p: "p \<notin> set ids"
  then show "data s' p = data s p"
    using soft_others [OF p, of s] purge_others [of ids s r s' p]
    by (cases rule: switch_cases [of holder ids s]) (auto simp: log_data)
qed

text \<open>
  A Mattermost server whose methods read and change its own state only, whatever they do
  there: \<open>del\<close>, \<open>lic\<close> and \<open>ver\<close> are arbitrary.
\<close>

definition server_of ::
  "(string \<Rightarrow> 'w \<Rightarrow> app_error option \<times> 'w) \<Rightarrow> ('w \<Rightarrow> bool) \<Rightarrow> ('w \<Rightarrow> string) \<Rightarrow> ('w world) server_api" where
  "server_of del lic ver = \<lparr>
     HasLicense = (\<lambda>s. lic (srv s)),
     GetServerVersion = (\<lambda>s. ver (srv s)),
     DeletePost = (\<lambda>i s. let (er, w) = del i (srv s) in (er, s\<lparr>srv := w\<rparr>))\<rparr>"

lemma world_srv_frame [simp]:
  "index_of (s\<lparr>srv := w\<rparr>) = index_of s" "index_ok (s\<lparr>srv := w\<rparr>) = index_ok s"
  "post_rows (s\<lparr>srv := w\<rparr>) = post_rows s"
  by (simp_all add: index_of_def index_ok_def post_rows_def fun_eq_iff)

interpretation prod_switch:
  switched_purger sqlPurger_Purge index_of index_ok post_rows "server_of del lic ver"
  for del lic ver
  by unfold_locales (auto simp: server_of_def Let_def split: prod.splits)

end
