(* ===== verification/Sweeper.thy ===== *)
theory Sweeper
  imports Purge_Switch
begin

section \<open>The sweeper (\<open>server/sweeper/sweeper.go\<close>)\<close>

text \<open>
  One tick of the sweeper over its three ports: the expire index, the purger and the log. Its
  lemmas are proved in the locale \<open>sweeper_ports\<close>, from the contracts of the two ports alone,
  and interpreted at the end on the SQL store and the switch in front of the SQL purger, the
  ports \<open>server/plugin.go\<close> gives it. A batch size that is not positive is replaced by 500.
\<close>

definition defaultBatchSize :: int64 where
  "defaultBatchSize = 500"

record sweeper_cfg =
  batchSize :: int64

definition Sweeper_New :: "int64 \<Rightarrow> sweeper_cfg" where
  "Sweeper_New n = \<lparr>batchSize = (if sint n \<le> 0 then defaultBatchSize else n)\<rparr>"

definition msg_query_failed :: string where
  "msg_query_failed = ''disappear: sweeper query failed''"

definition msg_purge_failed :: string where
  "msg_purge_failed = ''disappear: purge failed; will retry next tick''"

definition msg_prune_failed :: string where
  "msg_prune_failed = ''disappear: prune expire rows failed''"

text \<open>\<open>now\<close> is what the injectable clock returns for this tick.\<close>

definition Sweeper_Run ::
  "sweeper_cfg \<Rightarrow> 's expire_store \<Rightarrow> 's purge_fn \<Rightarrow> (string \<Rightarrow> keyvals \<Rightarrow> 's \<Rightarrow> 's)
    \<Rightarrow> int64 \<Rightarrow> 's \<Rightarrow> 's" where
  "Sweeper_Run sw ix purge log now s =
     (case ix_GetExpired ix now (batchSize sw) s of
        (Inl e, s1) \<Rightarrow> log msg_query_failed [(''err'', LogErr (ExpireErr e))] s1
      | (Inr entries, s1) \<Rightarrow>
          if length entries = 0 then s1
          else
            let postIDs = map PostID entries in
            case purge postIDs s1 of
              ((_, Some e), s2) \<Rightarrow> log msg_purge_failed
                [(''n'', LogInt (int (length postIDs))), (''err'', LogErr (PurgeErr e))] s2
            | ((_, None), s2) \<Rightarrow>
                (case ix_DeleteByPostIDs ix postIDs s2 of
                   (Some e, s3) \<Rightarrow> log msg_prune_failed [(''err'', LogErr (ExpireErr e))] s3
                 | (None, s3) \<Rightarrow> s3))"

lemma Sweeper_New_positive: "0 < sint (batchSize (Sweeper_New n))"
  by (simp add: Sweeper_New_def defaultBatchSize_def)

subsection \<open>From the contracts of the ports\<close>

locale sweeper_ports =
  store: sweep_store ix index ok rest +
  purge: purger purge index ok data
  for ix :: "'s expire_store"
    and index :: "'s \<Rightarrow> index_map"
    and ok :: "'s \<Rightarrow> bool"
    and rest :: "'s \<Rightarrow> 'r"
    and purge :: "'s purge_fn"
    and data :: "'s \<Rightarrow> string \<Rightarrow> 'd" +
  fixes log :: "string \<Rightarrow> keyvals \<Rightarrow> 's \<Rightarrow> 's"
  assumes data_rest: "rest s' = rest s \<Longrightarrow> data s' = data s"
    and log_ok: "ok (log m kvs s) = ok s" and log_index: "index (log m kvs s) = index s"
    and log_data: "data (log m kvs s) = data s"
begin

text \<open>
  What a tick can be: it stops before the purge; or the purge fails, and the index stays; or
  the purge succeeds, and then the batch is removed from the index or (the prune failed) the
  index stays. In every case the data that changes belongs to posts of the batch.
\<close>

lemma run_cases:
  assumes s: "ok s"
  obtains (idle) "index (Sweeper_Run sw ix purge log now s) = index s"
      "data (Sweeper_Run sw ix purge log now s) = data s"
      "ok (Sweeper_Run sw ix purge log now s)"
    | (failed) es s1 n e s2 where "ix_GetExpired ix now (batchSize sw) s = (Inr es, s1)"
      "oldest_batch now (nat (sint (batchSize sw))) (index s) es"
      "purge (map PostID es) s1 = ((n, Some e), s2)" "ok s1" "data s1 = data s"
      "index (Sweeper_Run sw ix purge log now s) = index s"
      "data (Sweeper_Run sw ix purge log now s) = data s2"
      "ok (Sweeper_Run sw ix purge log now s)"
    | (swept) es s1 n s2 where "ix_GetExpired ix now (batchSize sw) s = (Inr es, s1)"
      "oldest_batch now (nat (sint (batchSize sw))) (index s) es"
      "purge (map PostID es) s1 = ((n, None), s2)" "ok s1" "data s1 = data s"
      "index (Sweeper_Run sw ix purge log now s) = index s
        \<or> index (Sweeper_Run sw ix purge log now s) = map_remove (map PostID es) (index s)"
      "data (Sweeper_Run sw ix purge log now s) = data s2"
      "ok (Sweeper_Run sw ix purge log now s)"
proof -
  obtain r s1 where g: "ix_GetExpired ix now (batchSize sw) s = (r, s1)"
    by (cases "ix_GetExpired ix now (batchSize sw) s")
  note g' = store.get_expired [OF s g]
  have d1: "data s1 = data s" using g' data_rest by blast
  show ?thesis
  proof (cases "\<exists>es. r = Inr es \<and> es \<noteq> []")
    case False
    then show ?thesis using g g' d1 idle
      by (cases r) (simp_all add: Sweeper_Run_def log_index log_data log_ok)
  next
    case True
    then obtain es where es: "r = Inr es" "es \<noteq> []" by blast
    obtain n er s2 where p: "purge (map PostID es) s1 = ((n, er), s2)"
      by (metis prod.exhaust)
    have p': "ok s2 \<and> index s2 = index s" using purge.purge_index [OF _ p] g' by simp
    obtain er' s3 where d: "ix_DeleteByPostIDs ix (map PostID es) s2 = (er', s3)"
      by (cases "ix_DeleteByPostIDs ix (map PostID es) s2")
    have d': "ok s3 \<and> rest s3 = rest s2 \<and> written (map_remove (map PostID es)) er' (index s2) (index s3)"
      using store.delete_ids [OF _ d] p' by blast
    then have d3: "data s3 = data s2" using data_rest by blast
    show ?thesis
    proof (cases er)
      case (Some e)
      then show ?thesis using g g' es p p' d1
        by (intro failed [of es s1 n e s2]) (simp_all add: Sweeper_Run_def log_index log_data log_ok)
    next
      case None
      then show ?thesis using g g' es p p' d d' d1 d3
        by (intro swept [of es s1 n s2])
          (cases er'; auto simp: Sweeper_Run_def log_index log_data log_ok written_def)+
    qed
  qed
qed

lemma run_ok: "ok s \<Longrightarrow> ok (Sweeper_Run sw ix purge log now s)"
  by (cases rule: run_cases [of s sw now]) simp_all

text \<open>Nothing but expired posts: a post without an expired entry keeps its data.\<close>

lemma run_only_expired:
  assumes "ok s" "data (Sweeper_Run sw ix purge log now s) p \<noteq> data s p"
  shows "\<exists>e. index s p = Some e \<and> sint (ExpireAt e) \<le> sint now"
  using assms(1)
proof (cases rule: run_cases [of s sw now])
  case idle
  then show ?thesis using assms by simp
next
  case (failed es s1 n e s2)
  then have "p \<in> set (map PostID es)"
    using purge.purge_others [of "map PostID es" s1 _ s2 p] assms(2) by auto
  then show ?thesis using failed(2) by (auto simp: oldest_batch_def expired_in_def)
next
  case (swept es s1 n s2)
  then have "p \<in> set (map PostID es)"
    using purge.purge_others [of "map PostID es" s1 _ s2 p] assms(2) by auto
  then show ?thesis using swept(2) by (auto simp: oldest_batch_def expired_in_def)
qed

text \<open>An entry leaves the index only when it has expired and its post went through the purger.\<close>

lemma run_keeps_live:
  assumes "ok s" "index s p = Some e" "sint now < sint (ExpireAt e)"
  shows "index (Sweeper_Run sw ix purge log now s) p = Some e"
  using assms(1)
proof (cases rule: run_cases [of s sw now])
  case (swept es s1 n s2)
  have "p \<notin> set (map PostID es)"
    using swept(2) assms(2,3) by (auto simp: oldest_batch_def expired_in_def)
  then show ?thesis using swept(6) assms(2) by (auto simp: map_remove_apply)
qed (use assms in simp_all)

text \<open>A tick never adds an entry or changes one.\<close>

lemma run_shrinks:
  assumes "ok s" "index (Sweeper_Run sw ix purge log now s) p = Some e"
  shows "index s p = Some e"
  using assms(1)
proof (cases rule: run_cases [of s sw now])
  case (swept es s1 n s2)
  then show ?thesis using assms(2) by (auto simp: map_remove_apply split: if_splits)
qed (use assms in simp_all)

lemma run_failed_keeps:
  assumes "ok s" "ix_GetExpired ix now (batchSize sw) s = (Inr es, s1)"
    and "purge (map PostID es) s1 = ((n, Some e), s2)"
  shows "index (Sweeper_Run sw ix purge log now s) = index s"
  using assms(1)
proof (cases rule: run_cases [of s sw now])
  case (swept es' s1' n' s2')
  then show ?thesis using assms(2,3) by auto
qed simp_all

end

subsection \<open>The ports of the plugin\<close>

interpretation prod_sweep:
  sweeper_ports sqlStore index_of index_ok other_state
    "configPurger_Purge holder sqlPurger_Purge (server_of del lic ver)" post_rows LogError
  for holder del lic ver
proof (intro sweeper_ports.intro sweeper_ports_axioms.intro)
  show "sweep_store sqlStore index_of index_ok (other_state :: 'a world \<Rightarrow> _)"
    by (rule sql.sweep_store_axioms)
  show "purger (configPurger_Purge holder sqlPurger_Purge (server_of del lic ver))
      index_of index_ok post_rows"
    by (rule prod_switch.switch.purger_axioms)
qed (auto simp: other_state_def intro: post_rows_tables)

text \<open>
  A Team server on an allowed version, with the schema the purge was written for and a
  database that answers: what a tick needs to make progress.
\<close>

definition hard_mode :: "configHolder \<Rightarrow> bool \<Rightarrow> string \<Rightarrow> bool" where
  "hard_mode holder licensed version \<longleftrightarrow>
     purgeDecision (EnablePurge (holder_get holder)) licensed version
       (PurgeSchemaAllowlist (Some (holder_get holder))) = PurgeHard"

definition healthy :: "'a sqldb_scheme \<Rightarrow> bool" where
  "healthy s \<longleftrightarrow> outcomes s = [] \<and> expire_rows s \<noteq> None \<and> index_ok s \<and> schema_ok footprint (tables s)"

lemma configPurger_hard:
  assumes "hard_mode holder (lic (srv s)) (ver (srv s))" "ids \<noteq> []"
  shows "configPurger_Purge holder hard (server_of del lic ver) ids s = hard ids s"
  using assms by (simp add: configPurger_Purge_def hard_mode_def server_of_def)

lemma healthy_tick:
  fixes s :: "'w world" and now :: int64
    and del :: "string \<Rightarrow> 'w \<Rightarrow> app_error option \<times> 'w"
  assumes h: "healthy s" and m: "hard_mode holder (lic (srv s)) (ver (srv s))"
    and sw: "0 < sint (batchSize sw)"
  defines "s' \<equiv> Sweeper_Run sw sqlStore
      (configPurger_Purge holder sqlPurger_Purge (server_of del lic ver)) LogError now s"
  shows "\<exists>es. oldest_batch now (nat (sint (batchSize sw))) (index_of s) es
    \<and> index_of s' = map_remove (map PostID es) (index_of s)
    \<and> (\<forall>p. post_rows s' p = (if p \<in> set (map PostID es) then [[], [], [], []] else post_rows s p))
    \<and> healthy s' \<and> srv s' = srv s \<and> logs s' = logs s"
proof -
  obtain rs where rs: "expire_rows s = Some rs" and o: "outcomes s = []" and ok: "index_ok s"
    and sch: "schema_ok footprint (tables s)"
    using h by (auto simp: healthy_def)
  have "0 \<le> sint (batchSize sw)" using sw by (rule less_imp_le)
  from GetExpired_Done [where t = now, OF o rs this]
  obtain es where g: "sqlStore_GetExpired now (batchSize sw) s = (Inr es, s)" by blast
  have b: "oldest_batch now (nat (sint (batchSize sw))) (index_of s) es"
    using sql.get_expired [OF ok, of now "batchSize sw" "Inr es" s] g by simp
  show ?thesis
  proof (cases "es = []")
    case True
    then show ?thesis using b g h
      by (intro exI [of _ es]) (simp add: s'_def Sweeper_Run_def map_remove_Nil)
  next
    case False
    let ?ids = "map PostID es"
    let ?s2 = "s\<lparr>tables := wipe footprint ?ids (tables s)\<rparr>"
    let ?s3 = "?s2\<lparr>expire_rows := Some (filter (\<lambda>r. PostID r \<notin> set ?ids) rs)\<rparr>"
    have p: "configPurger_Purge holder sqlPurger_Purge (server_of del lic ver) ?ids s
        = ((int (length ?ids), None), ?s2)"
      using configPurger_hard [where s = s and lic = lic and ver = ver, OF m, of ?ids] sqlPurger_Done [OF o sch, of ?ids] False by simp
    have d: "sqlStore_DeleteByPostIDs ?ids ?s2 = (None, ?s3)"
      using DeleteByPostIDs_Done [of ?s2 rs ?ids] o rs by simp
    have s': "s' = ?s3" using False g p d by (simp add: s'_def Sweeper_Run_def)
    have "index_of ?s3 = map_remove ?ids (index_of s)"
      using rows_map_delete [of ?ids rs] by (simp add: index_of_def rs)
    moreover have "post_rows ?s3 p = (if p \<in> set ?ids then [[], [], [], []] else post_rows s p)" for p
      by (rule post_rows_wipe) simp
    moreover have "healthy ?s3" using h rs
      by (simp add: healthy_def index_ok_def distinct_map_filter schema_ok_wipe)
    ultimately show ?thesis unfolding s' using b by (intro exI [of _ es]) auto
  qed
qed

text \<open>The ticks the scheduler runs one after the other, each at its own time.\<close>

fun Sweeper_ticks ::
  "sweeper_cfg \<Rightarrow> 's expire_store \<Rightarrow> 's purge_fn \<Rightarrow> (string \<Rightarrow> keyvals \<Rightarrow> 's \<Rightarrow> 's)
    \<Rightarrow> int64 list \<Rightarrow> 's \<Rightarrow> 's" where
  "Sweeper_ticks sw ix purge log [] s = s"
| "Sweeper_ticks sw ix purge log (t # ts) s =
     Sweeper_ticks sw ix purge log ts (Sweeper_Run sw ix purge log t s)"

text \<open>Enough ticks clear a backlog, and the posts of the backlog have no rows left.\<close>

lemma ticks_drain:
  fixes s :: "'w world" and del :: "string \<Rightarrow> 'w \<Rightarrow> app_error option \<times> 'w"
  assumes "healthy s" "hard_mode holder (lic (srv s)) (ver (srv s))" "0 < sint (batchSize sw)"
    and "\<And>t. t \<in> set ts \<Longrightarrow> sint t0 \<le> sint t"
    and "card (backlog t0 (index_of s)) \<le> length ts * nat (sint (batchSize sw))"
  defines "run \<equiv> Sweeper_ticks sw sqlStore
      (configPurger_Purge holder sqlPurger_Purge (server_of del lic ver)) LogError ts"
  shows "backlog t0 (index_of (run s)) = {} \<and> logs (run s) = logs s
    \<and> (\<forall>p. p \<in> backlog t0 (index_of s) \<or> post_rows s p = [[], [], [], []]
          \<longrightarrow> post_rows (run s) p = [[], [], [], []])"
  using assms(1,2,4,5) unfolding run_def
proof (induction ts arbitrary: s)
  case Nil
  then have "backlog t0 (index_of s) = {}" using finite_backlog [of t0 s] by simp
  then show ?case by simp
next
  case (Cons t ts)
  let ?purge = "configPurger_Purge holder sqlPurger_Purge (server_of del lic ver)"
  let ?s1 = "Sweeper_Run sw sqlStore ?purge LogError t s"
  let ?n = "nat (sint (batchSize sw))"
  from healthy_tick [where s = s and lic = lic and ver = ver and del = del and now = t,
      OF Cons.prems(1,2) assms(3)]
  obtain es
    where b: "oldest_batch t ?n (index_of s) es"
      and i: "index_of ?s1 = map_remove (map PostID es) (index_of s)"
      and r: "\<And>p. post_rows ?s1 p = (if p \<in> set (map PostID es) then [[], [], [], []] else post_rows s p)"
      and h: "healthy ?s1" "srv ?s1 = srv s" and l: "logs ?s1 = logs s"
    by blast
  have "card (backlog t0 (index_of ?s1)) \<le> card (backlog t0 (index_of s)) - ?n"
    unfolding i using b Cons.prems(3) finite_backlog sql.index_key
    by (intro oldest_batch_progress) auto
  then have "card (backlog t0 (index_of ?s1)) \<le> length ts * ?n"
    using Cons.prems(4) by simp
  with Cons.IH [of ?s1] Cons.prems h
  have "backlog t0 (index_of (Sweeper_ticks sw sqlStore ?purge LogError ts ?s1)) = {}"
    "logs (Sweeper_ticks sw sqlStore ?purge LogError ts ?s1) = logs ?s1"
    "\<And>p. p \<in> backlog t0 (index_of ?s1) \<or> post_rows ?s1 p = [[], [], [], []]
      \<Longrightarrow> post_rows (Sweeper_ticks sw sqlStore ?purge LogError ts ?s1) p = [[], [], [], []]"
    by auto
  moreover have "p \<in> backlog t0 (index_of ?s1) \<or> post_rows ?s1 p = [[], [], [], []]"
    if "p \<in> backlog t0 (index_of s) \<or> post_rows s p = [[], [], [], []]" for p
    using that by (auto simp: i r backlog_remove)
  ultimately show ?case using l by simp
qed

subsection \<open>A tick in soft mode\<close>

text \<open>What the server answers to one deletion after the other, and its state after them.\<close>

fun delete_posts ::
  "(string \<Rightarrow> 'w \<Rightarrow> app_error option \<times> 'w) \<Rightarrow> string list \<Rightarrow> 'w \<Rightarrow> app_error option list \<times> 'w" where
  "delete_posts del [] w = ([], w)"
| "delete_posts del (i # ids) w =
     (let (r, w1) = del i w; (rs, w2) = delete_posts del ids w1 in (r # rs, w2))"

text \<open>The lines of the refused deletions.\<close>

fun soft_log :: "string list \<Rightarrow> app_error option list \<Rightarrow> log_line list" where
  "soft_log (i # ids) (Some e # rs) =
     Error msg_soft_failed [(''post_id'', LogString i), (''err'', LogErr (AppErr e))] # soft_log ids rs"
| "soft_log (i # ids) (None # rs) = soft_log ids rs"
| "soft_log _ _ = []"

lemma softDelete_loop_deletes:
  "softDelete_loop (server_of del lic ver) ids s =
     (let (rs, w) = delete_posts del ids (srv s) in s\<lparr>srv := w, logs := logs s @ soft_log ids rs\<rparr>)"
proof (induction ids arbitrary: s)
  case Nil
  then show ?case by simp
next
  case (Cons i ids)
  obtain r w where d: "del i (srv s) = (r, w)" by (cases "del i (srv s)")
  obtain rs w' where ds: "delete_posts del ids w = (rs, w')" by (cases "delete_posts del ids w")
  show ?case
    using Cons.IH d ds by (cases r) (simp_all add: server_of_def LogError_def)
qed

lemma soft_tick:
  fixes s :: "'w world" and now :: int64
    and del :: "string \<Rightarrow> 'w \<Rightarrow> app_error option \<times> 'w" and ver :: "'w \<Rightarrow> string"
  assumes h: "index_ok s" "expire_rows s \<noteq> None" "outcomes s = []" and sw: "0 < sint (batchSize sw)"
    and m: "\<not> EnablePurge (conf holder) \<or> lic (srv s)"
  defines "s' \<equiv> Sweeper_Run sw sqlStore
      (configPurger_Purge holder sqlPurger_Purge (server_of del lic ver)) LogError now s"
  shows "\<exists>es rs. oldest_batch now (nat (sint (batchSize sw))) (index_of s) es
    \<and> delete_posts del (map PostID es) (srv s) = (rs, srv s')
    \<and> index_of s' = map_remove (map PostID es) (index_of s)
    \<and> tables s' = tables s \<and> logs s' = logs s @ soft_log (map PostID es) rs"
proof -
  obtain xs where xs: "expire_rows s = Some xs" using h(2) by auto
  have "0 \<le> sint (batchSize sw)" using sw by (rule less_imp_le)
  from GetExpired_Done [where t = now, OF h(3) xs this]
  obtain es where g: "sqlStore_GetExpired now (batchSize sw) s = (Inr es, s)" by blast
  have b: "oldest_batch now (nat (sint (batchSize sw))) (index_of s) es"
    using sql.get_expired [OF h(1), of now "batchSize sw" "Inr es" s] g by simp
  let ?ids = "map PostID es"
  obtain rs w where d: "delete_posts del ?ids (srv s) = (rs, w)" by (cases "delete_posts del ?ids (srv s)")
  show ?thesis
  proof (cases "es = []")
    case True
    then show ?thesis using b g d
      by (intro exI [of _ es] exI [of _ rs]) (simp add: s'_def Sweeper_Run_def map_remove_Nil)
  next
    case False
    let ?s2 = "s\<lparr>srv := w, logs := logs s @ soft_log ?ids rs\<rparr>"
    let ?s3 = "?s2\<lparr>expire_rows := Some (filter (\<lambda>r. PostID r \<notin> set ?ids) xs)\<rparr>"
    have "purgeDecision (EnablePurge (conf holder)) (lic (srv s)) v a = PurgeSoft" for v a
      using m by (auto simp: purgeDecision_def)
    moreover have "HasLicense (server_of del lic ver) s = lic (srv s)" by (simp add: server_of_def)
    moreover have "softDelete (server_of del lic ver) ?ids s = (int (length ?ids), ?s2)"
      using d by (simp add: softDelete_def softDelete_loop_deletes)
    ultimately have p: "configPurger_Purge holder sqlPurger_Purge (server_of del lic ver) ?ids s
        = ((int (length ?ids), None), ?s2)"
      using False by (simp add: configPurger_Purge_def holder_get_def)
    have q: "sqlStore_DeleteByPostIDs ?ids ?s2 = (None, ?s3)"
      using DeleteByPostIDs_Done [of ?s2 xs ?ids] h(3) xs by simp
    have s': "s' = ?s3" using False g p q by (simp add: s'_def Sweeper_Run_def)
    have "index_of ?s3 = map_remove ?ids (index_of s)"
      using rows_map_delete [of ?ids xs] by (simp add: index_of_def xs)
    then show ?thesis unfolding s' using b d by (intro exI [of _ es] exI [of _ rs]) simp
  qed
qed

end
