(* ===== verification/Go_Utf8.thy ===== *)
theory Go_Utf8
  imports Go_Strings
begin

section \<open>UTF-8 as Go's package \<open>unicode/utf8\<close> reads it\<close>

text \<open>
  \<open>rune_len\<close> is the length of the well-formed encoding at the front of a byte string, or 0
  where \<open>utf8.DecodeRune\<close> reports an invalid byte; \<open>utf8_encode\<close> is \<open>utf8.AppendRune\<close>. A
  string is \<open>valid_utf8\<close> when it is a sequence of well-formed encodings.
\<close>

abbreviation code :: "char \<Rightarrow> nat" where "code c \<equiv> of_char c"

definition cont :: "char \<Rightarrow> bool" where
  "cont c \<longleftrightarrow> 0x80 \<le> code c \<and> code c \<le> 0xBF"

text \<open>The length a first byte announces, and the range of the byte after it.\<close>

definition lead_len :: "char \<Rightarrow> nat" where
  "lead_len c =
     (let b = code c in
      if b < 0x80 then 1 else if b < 0xC2 then 0 else if b < 0xE0 then 2
      else if b < 0xF0 then 3 else if b < 0xF5 then 4 else 0)"

definition second_ok :: "char \<Rightarrow> char \<Rightarrow> bool" where
  "second_ok c d =
     (let b = code c; e = code d in
      (if b = 0xE0 then 0xA0 else if b = 0xF0 then 0x90 else 0x80) \<le> e
      \<and> e \<le> (if b = 0xED then 0x9F else if b = 0xF4 then 0x8F else 0xBF))"

fun rune_len :: "string \<Rightarrow> nat" where
  "rune_len [] = 0"
| "rune_len (c # s) =
     (let n = lead_len c in
      if n \<le> 1 then n
      else if length s < n - 1 then 0
      else if second_ok c (s ! 0) \<and> list_all cont (take (n - 2) (drop 1 s)) then n else 0)"

definition utf8_encode :: "nat \<Rightarrow> string" where
  "utf8_encode r =
     (if r < 0x80 then [char_of r]
      else if r < 0x800 then [char_of (0xC0 + r div 64), char_of (0x80 + r mod 64)]
      else if r < 0x10000 then
        [char_of (0xE0 + r div 4096), char_of (0x80 + r div 64 mod 64), char_of (0x80 + r mod 64)]
      else
        [char_of (0xF0 + r div 262144), char_of (0x80 + r div 4096 mod 64),
         char_of (0x80 + r div 64 mod 64), char_of (0x80 + r mod 64)])"

text \<open>The encoding of U+FFFD, which replaces what cannot be decoded.\<close>

definition replacement :: string where
  "replacement = [CHR 0xEF, CHR 0xBF, CHR 0xBD]"

lemma rune_len_le: "rune_len s \<le> length s"
  by (cases s) (auto simp: Let_def)

function valid_utf8 :: "string \<Rightarrow> bool" where
  "valid_utf8 s = (if s = [] then True else if rune_len s = 0 then False
     else valid_utf8 (drop (rune_len s) s))"
  by pat_completeness auto
termination by (relation "measure length") auto

declare valid_utf8.simps [simp del]

subsection \<open>Facts\<close>

lemma code_char [simp]: "n < 256 \<Longrightarrow> code (char_of n) = n"
  by simp

lemma rune_len_ascii: "code c < 128 \<Longrightarrow> rune_len (c # s) = 1"
  by (simp add: lead_len_def)

lemma lead_len_ascii: "lead_len c = 1 \<longleftrightarrow> code c < 128"
  by (auto simp: lead_len_def Let_def)

text \<open>What is read at the front does not depend on what follows it.\<close>

lemma rune_len_take:
  assumes "rune_len s \<noteq> 0"
  shows "rune_len (take (rune_len s) s @ t) = rune_len s"
proof (cases s)
  case (Cons c s')
  show ?thesis
  proof (cases "lead_len c \<le> 1")
    case True
    with Cons assms show ?thesis by (cases "lead_len c") (auto simp: Let_def)
  next
    case False
    let ?n = "lead_len c"
    have n: "rune_len s = ?n" "\<not> length s' < ?n - 1" "second_ok c (s' ! 0)"
      "list_all cont (take (?n - 2) (drop 1 s'))"
      using assms False Cons by (auto simp: Let_def split: if_splits)
    define u where "u = take (?n - 1) s'"
    have u: "length u = ?n - 1" using n(2) by (simp add: u_def)
    have "u ! 0 = s' ! 0" using False by (simp add: u_def)
    moreover have "take (?n - 2) (drop 1 s') = drop 1 u"
      using False by (simp add: u_def drop_take numeral_2_eq_2)
    moreover have "take ?n s = c # u" using False Cons by (cases ?n) (auto simp: u_def)
    ultimately show ?thesis
      using n(1,3,4) False u by (auto simp: Let_def nth_append)
  qed
qed (use assms in simp)

lemma valid_utf8_Nil [simp]: "valid_utf8 []"
  by (subst valid_utf8.simps) simp

lemma valid_utf8_ascii: "list_all (\<lambda>c. code c < 128) s \<Longrightarrow> valid_utf8 s"
proof (induction s)
  case (Cons c s)
  then show ?case
    using rune_len_ascii [of c s] by (subst valid_utf8.simps) simp
qed simp

lemma valid_utf8_step:
  "valid_utf8 s \<Longrightarrow> s \<noteq> [] \<Longrightarrow> rune_len s \<noteq> 0 \<and> valid_utf8 (drop (rune_len s) s)"
  by (subst (asm) valid_utf8.simps) (simp split: if_splits)

declare rune_len.simps(2) [simp del]

end
