(* ===== verification/Go_Strconv.thy ===== *)
theory Go_Strconv
  imports Go_Strings
begin

section \<open>Decimal integers (Go's package \<open>strconv\<close>)\<close>

text \<open>
  \<open>FormatInt\<close> in base 10, and \<open>ParseInt\<close> in base 10 at 64 bits: an optional sign, at least one
  digit, digits only, and a value in range.
\<close>

definition digit :: "nat \<Rightarrow> char" where
  "digit n = char_of (48 + n)"

definition is_digit :: "char \<Rightarrow> bool" where
  "is_digit c \<longleftrightarrow> 48 \<le> (of_char c :: nat) \<and> (of_char c :: nat) \<le> 57"

definition digit_val :: "char \<Rightarrow> nat" where
  "digit_val c = of_char c - 48"

fun show_nat :: "nat \<Rightarrow> string" where
  "show_nat n = (if n < 10 then [digit n] else show_nat (n div 10) @ [digit (n mod 10)])"

declare show_nat.simps [simp del]

definition digits_val :: "string \<Rightarrow> nat" where
  "digits_val ds = fold (\<lambda>c v. v * 10 + digit_val c) ds 0"

definition FormatInt :: "int64 \<Rightarrow> string" where
  "FormatInt i = (if sint i < 0 then CHR ''-'' # show_nat (nat (- sint i)) else show_nat (nat (sint i)))"

definition in_int64 :: "int \<Rightarrow> int64 option" where
  "in_int64 i = (if - 9223372036854775808 \<le> i \<and> i < 9223372036854775808
     then Some (word_of_int i) else None)"

definition ParseInt :: "string \<Rightarrow> int64 option" where
  "ParseInt s =
     (let (neg, ds) = (case s of
          c # r \<Rightarrow> if c = CHR ''-'' then (True, r) else if c = CHR ''+'' then (False, r) else (False, s)
        | [] \<Rightarrow> (False, s)) in
      if ds = [] \<or> \<not> list_all is_digit ds then None
      else in_int64 (if neg then - int (digits_val ds) else int (digits_val ds)))"

subsection \<open>Facts\<close>

lemma is_digit_digit [simp]: "n < 10 \<Longrightarrow> is_digit (digit n)"
  by (simp add: is_digit_def digit_def)

lemma digit_val_digit [simp]: "n < 10 \<Longrightarrow> digit_val (digit n) = n"
  by (simp add: digit_val_def digit_def)

lemma is_digit_sign: "is_digit c \<Longrightarrow> c \<noteq> CHR ''-'' \<and> c \<noteq> CHR ''+''"
  by (auto simp: is_digit_def)

lemma show_nat_digits: "list_all is_digit (show_nat n)"
  by (induction n rule: show_nat.induct) (subst show_nat.simps, auto)

lemma show_nat_not_Nil [simp]: "show_nat n \<noteq> []"
  by (subst show_nat.simps) simp

lemma digits_val_append: "digits_val (ds @ [d]) = digits_val ds * 10 + digit_val d"
  by (simp add: digits_val_def)

lemma digits_val_show [simp]: "digits_val (show_nat n) = n"
proof (induction n rule: show_nat.induct)
  case (1 n)
  show ?case
  proof (cases "n < 10")
    case True
    then show ?thesis by (subst show_nat.simps) (simp add: digits_val_def)
  next
    case False
    then show ?thesis
      using 1 by (subst show_nat.simps) (simp add: digits_val_append)
  qed
qed

text \<open>No leading zero, except in \<open>0\<close> itself.\<close>

lemma show_nat_lead: "0 < n \<Longrightarrow> hd (show_nat n) \<noteq> CHR ''0''"
proof (induction n rule: show_nat.induct)
  case (1 n)
  show ?case
  proof (cases "n < 10")
    case True
    then have "(of_char (digit n) :: nat) \<noteq> of_char (CHR ''0'')"
      using "1.prems" by (simp add: digit_def)
    with True show ?thesis by (subst show_nat.simps) auto
  next
    case False
    then have "hd (show_nat (n div 10)) \<noteq> CHR ''0''" using 1 by simp
    with False show ?thesis by (subst show_nat.simps) simp
  qed
qed

lemma digit_zero [simp]: "digit 0 = CHR ''0''"
  by (simp add: digit_def char_of_def bit_iff_odd)

lemma show_nat_zero: "show_nat 0 = ''0''"
  by (subst show_nat.simps) simp

lemma in_int64_sint [simp]: "in_int64 (sint (i :: int64)) = Some i"
  by (simp add: in_int64_def)

lemma ParseInt_FormatInt: "ParseInt (FormatInt i) = Some i"
proof (cases "sint i < 0")
  case True
  then show ?thesis
    by (simp add: FormatInt_def ParseInt_def show_nat_digits)
next
  case False
  obtain c r where s: "show_nat (nat (sint i)) = c # r"
    using show_nat_not_Nil by (metis list.exhaust)
  then have "is_digit c" using show_nat_digits [of "nat (sint i)"] by simp
  moreover have "digits_val (c # r) = nat (sint i)" using digits_val_show s by metis
  moreover have "list_all is_digit (c # r)" using show_nat_digits s by metis
  ultimately show ?thesis
    using False s is_digit_sign [of c] by (simp add: FormatInt_def ParseInt_def)
qed

end
