(* ===== verification/Go_Json.thy ===== *)
theory Go_Json
  imports Go_Utf8 Go_Strconv
begin

section \<open>Go's package \<open>encoding/json\<close>\<close>

text \<open>
  What the program uses of the package: the encoding of strings and integers, and the
  decoding of one JSON value into a struct of strings and \<open>int64\<close>s. The reader is the
  package's scanner with its stack of open objects and arrays (\<open>parseState\<close>) made explicit,
  so it recurses on the input alone and always ends; it refuses what is nested deeper than
  10000. A syntax error and a type error both end in an error, here \<open>None\<close>.
\<close>

subsection \<open>Encoding\<close>

definition hexdigit :: "nat \<Rightarrow> char" where
  "hexdigit n = (if n < 10 then char_of (48 + n) else char_of (87 + n))"

definition json_safe :: "char \<Rightarrow> bool" where
  "json_safe c \<longleftrightarrow> 0x20 \<le> code c \<and> c \<notin> {CHR 0x22, CHR 0x5C, CHR ''<'', CHR ''>'', CHR ''&''}"

definition json_esc :: "char \<Rightarrow> string" where
  "json_esc c =
     (if json_safe c then [c]
      else if c = CHR 0x22 \<or> c = CHR 0x5C then [CHR 0x5C, c]
      else if c = CHR 0x08 then [CHR 0x5C, CHR ''b'']
      else if c = CHR 0x0C then [CHR 0x5C, CHR ''f'']
      else if c = CHR 0x0A then [CHR 0x5C, CHR ''n'']
      else if c = CHR 0x0D then [CHR 0x5C, CHR ''r'']
      else if c = CHR 0x09 then [CHR 0x5C, CHR ''t'']
      else [CHR 0x5C, CHR ''u'', CHR ''0'', CHR ''0'', hexdigit (code c div 16), hexdigit (code c mod 16)])"

text \<open>U+2028 and U+2029, which are escaped though they are valid in JSON.\<close>

definition line_sep :: "string \<Rightarrow> bool" where
  "line_sep r \<longleftrightarrow> r = [CHR 0xE2, CHR 0x80, CHR 0xA8] \<or> r = [CHR 0xE2, CHR 0x80, CHR 0xA9]"

function json_body :: "string \<Rightarrow> string" where
  "json_body s =
     (case s of
        [] \<Rightarrow> []
      | c # cs \<Rightarrow>
          if code c < 128 then json_esc c @ json_body cs
          else if rune_len s = 0 then [CHR 0x5C] @ ''ufffd'' @ json_body cs
          else
            let r = take (rune_len s) s in
            (if line_sep r then [CHR 0x5C] @ ''u202'' @ [hexdigit (code (r ! 2) mod 16)] else r)
              @ json_body (drop (rune_len s) s))"
  by pat_completeness auto
termination by (relation "measure length") auto

declare json_body.simps [simp del]

definition json_quote :: "string \<Rightarrow> string" where
  "json_quote s = CHR 0x22 # json_body s @ [CHR 0x22]"

subsection \<open>Reading strings and numbers\<close>

definition hex_val :: "char \<Rightarrow> nat option" where
  "hex_val c =
     (let n = code c in
      if 48 \<le> n \<and> n \<le> 57 then Some (n - 48)
      else if 97 \<le> n \<and> n \<le> 102 then Some (n - 87)
      else if 65 \<le> n \<and> n \<le> 70 then Some (n - 55)
      else None)"

fun hex4 :: "string \<Rightarrow> (nat \<times> string) option" where
  "hex4 (a # b # c # d # s) =
     (case (hex_val a, hex_val b, hex_val c, hex_val d) of
        (Some w, Some x, Some y, Some z) \<Rightarrow> Some (w * 4096 + x * 256 + y * 16 + z, s)
      | _ \<Rightarrow> None)"
| "hex4 _ = None"

definition hi_surrogate :: "nat \<Rightarrow> bool" where
  "hi_surrogate r \<longleftrightarrow> 0xD800 \<le> r \<and> r < 0xDC00"

definition lo_surrogate :: "nat \<Rightarrow> bool" where
  "lo_surrogate r \<longleftrightarrow> 0xDC00 \<le> r \<and> r < 0xE000"

text \<open>The second half of a surrogate pair, if the input goes on with one.\<close>

definition second_half :: "string \<Rightarrow> (nat \<times> string) option" where
  "second_half s =
     (case s of
        b # u # s' \<Rightarrow>
          if b = CHR 0x5C \<and> u = CHR ''u''
          then (case hex4 s' of None \<Rightarrow> None | Some (r, t) \<Rightarrow> if lo_surrogate r then Some (r, t) else None)
          else None
      | _ \<Rightarrow> None)"

text \<open>A \<open>\u\<close> escape: the characters it stands for, and the rest of the input.\<close>

definition unicode_escape :: "string \<Rightarrow> (string \<times> string) option" where
  "unicode_escape s =
     (case hex4 s of
        None \<Rightarrow> None
      | Some (r, t) \<Rightarrow>
          if hi_surrogate r then
            (case second_half t of
               Some (q, t') \<Rightarrow> Some (utf8_encode (0x10000 + (r - 0xD800) * 1024 + (q - 0xDC00)), t')
             | None \<Rightarrow> Some (replacement, t))
          else if lo_surrogate r then Some (replacement, t)
          else Some (utf8_encode r, t))"

definition short_escape :: "char \<Rightarrow> char option" where
  "short_escape c =
     (if c = CHR 0x22 \<or> c = CHR 0x5C \<or> c = CHR ''/'' then Some c
      else if c = CHR ''b'' then Some (CHR 0x08)
      else if c = CHR ''f'' then Some (CHR 0x0C)
      else if c = CHR ''n'' then Some (CHR 0x0A)
      else if c = CHR ''r'' then Some (CHR 0x0D)
      else if c = CHR ''t'' then Some (CHR 0x09)
      else None)"

lemma hex4_shorter: "hex4 s = Some (r, t) \<Longrightarrow> length t < length s"
  by (cases s rule: hex4.cases) (auto split: option.splits)

lemma unicode_escape_shorter: "unicode_escape s = Some (u, t) \<Longrightarrow> length t < length s"
  by (auto simp: unicode_escape_def second_half_def dest!: hex4_shorter
      split: option.splits if_splits list.splits)

text \<open>The characters of a string literal up to its closing quote, and what follows it.\<close>

function json_string :: "string \<Rightarrow> (string \<times> string) option" where
  "json_string s =
     (case s of
        [] \<Rightarrow> None
      | c # cs \<Rightarrow>
          if c = CHR 0x22 then Some ([], cs)
          else if c = CHR 0x5C then
            (case cs of
               [] \<Rightarrow> None
             | e # es \<Rightarrow>
                 if e = CHR ''u'' then
                   (case unicode_escape es of
                      None \<Rightarrow> None
                    | Some (u, t) \<Rightarrow> map_option (apfst ((@) u)) (json_string t))
                 else
                   (case short_escape e of
                      None \<Rightarrow> None
                    | Some d \<Rightarrow> map_option (apfst ((#) d)) (json_string es)))
          else if code c < 0x20 then None
          else if code c < 128 then map_option (apfst ((#) c)) (json_string cs)
          else if rune_len s = 0 then map_option (apfst ((@) replacement)) (json_string cs)
          else map_option (apfst ((@) (take (rune_len s) s))) (json_string (drop (rune_len s) s)))"
  by pat_completeness auto
termination
  by (relation "measure length") (auto dest!: unicode_escape_shorter)

declare json_string.simps [simp del]

text \<open>
  A number literal: an optional minus, digits without a leading zero, an optional fraction and
  an optional exponent, both with at least one digit.
\<close>

definition json_frac :: "string \<Rightarrow> (string \<times> string) option" where
  "json_frac s =
     (case s of
        [] \<Rightarrow> Some ([], [])
      | c # cs \<Rightarrow>
          if c \<noteq> CHR ''.'' then Some ([], s)
          else if takeWhile is_digit cs = [] then None
          else Some (c # takeWhile is_digit cs, dropWhile is_digit cs))"

definition json_exp :: "string \<Rightarrow> (string \<times> string) option" where
  "json_exp s =
     (case s of
        [] \<Rightarrow> Some ([], [])
      | c # cs \<Rightarrow>
          if c \<noteq> CHR ''e'' \<and> c \<noteq> CHR ''E'' then Some ([], s)
          else
            let (sg, ds) = (case cs of
                d # r \<Rightarrow> if d = CHR ''+'' \<or> d = CHR ''-'' then ([d], r) else ([], cs)
              | [] \<Rightarrow> ([], [])) in
            if takeWhile is_digit ds = [] then None
            else Some (c # sg @ takeWhile is_digit ds, dropWhile is_digit ds))"

definition json_int :: "string \<Rightarrow> (string \<times> string) option" where
  "json_int s =
     (case s of
        [] \<Rightarrow> None
      | d # r \<Rightarrow>
          if \<not> is_digit d then None
          else if d = CHR ''0'' then Some ([d], r)
          else Some (takeWhile is_digit s, dropWhile is_digit s))"

definition json_number :: "string \<Rightarrow> (string \<times> string) option" where
  "json_number s =
     (let (sg, s1) = (case s of
          c # r \<Rightarrow> if c = CHR ''-'' then ([c], r) else ([], s)
        | [] \<Rightarrow> ([], [])) in
      case json_int s1 of
        None \<Rightarrow> None
      | Some (ip, s2) \<Rightarrow>
          (case json_frac s2 of
             None \<Rightarrow> None
           | Some (fp, s3) \<Rightarrow>
               (case json_exp s3 of
                  None \<Rightarrow> None
                | Some (ep, s4) \<Rightarrow> Some (sg @ ip @ fp @ ep, s4))))"

subsection \<open>Reading values\<close>

datatype json =
    JNull
  | JBool bool
  | JNum string
  | JStr string
  | JArr "json list"
  | JObj "(string \<times> json) list"

text \<open>
  An open array with the elements read so far, or an open object with its members and the key
  whose value is being read; both lists are reversed. An object keeps duplicate keys.
\<close>

datatype frame =
    InArr "json list"
  | InObj "(string \<times> json) list" string

definition is_ws :: "char \<Rightarrow> bool" where
  "is_ws c \<longleftrightarrow> c = CHR 0x20 \<or> c = CHR 0x09 \<or> c = CHR 0x0D \<or> c = CHR 0x0A"

definition skip_ws :: "string \<Rightarrow> string" where
  "skip_ws s = dropWhile is_ws s"

definition maxNestingDepth :: nat where
  "maxNestingDepth = 10000"

text \<open>A key and the colon after it.\<close>

definition json_key :: "string \<Rightarrow> (string \<times> string) option" where
  "json_key s =
     (case skip_ws s of
        [] \<Rightarrow> None
      | c # cs \<Rightarrow>
          if c \<noteq> CHR 0x22 then None
          else
            (case json_string cs of
               None \<Rightarrow> None
             | Some (k, r) \<Rightarrow>
                 (case skip_ws r of
                    [] \<Rightarrow> None
                  | d # r' \<Rightarrow> if d = CHR '':'' then Some (k, r') else None)))"

definition json_scalar :: "string \<Rightarrow> (json \<times> string) option" where
  "json_scalar s =
     (if s = [] then None
      else if hd s = CHR 0x22 then map_option (apfst JStr) (json_string (tl s))
      else if HasPrefix s ''null'' then Some (JNull, drop 4 s)
      else if HasPrefix s ''true'' then Some (JBool True, drop 4 s)
      else if HasPrefix s ''false'' then Some (JBool False, drop 5 s)
      else map_option (apfst JNum) (json_number s))"

lemma skip_ws_le: "length (skip_ws s) \<le> length s"
  by (simp add: skip_ws_def length_dropWhile_le)

lemma skip_ws_shorter: "skip_ws s = c # r \<Longrightarrow> length r < length s"
  using skip_ws_le [of s] by simp

lemma tl_skip_ws_shorter: "length s < n \<Longrightarrow> length (skip_ws s) - Suc 0 < n"
  using skip_ws_le [of s] by linarith

lemma json_string_shorter: "json_string s = Some (k, t) \<Longrightarrow> length t < length s"
proof (induction s arbitrary: k t rule: json_string.induct)
  case (1 s)
  obtain c cs where s: "s = c # cs"
    using "1.prems" by (cases s) (simp_all add: json_string.simps)
  have d: "length (drop (rune_len s) s) < length s" if "rune_len s \<noteq> 0"
    using that s by simp
  show ?case
    using "1.prems" "1.IH" [OF s] s d unfolding json_string.simps [of s]
    by (auto split: if_splits option.splits list.splits dest!: unicode_escape_shorter)
      (fastforce dest: less_trans)+
qed

lemma json_key_shorter: "json_key s = Some (k, t) \<Longrightarrow> length t < length s"
  by (auto simp: json_key_def split: list.splits option.splits if_splits
      dest!: skip_ws_shorter json_string_shorter)

lemma json_frac_le: "json_frac s = Some (f, t) \<Longrightarrow> length t \<le> length s"
  by (auto simp: json_frac_def split: list.splits if_splits intro: le_SucI length_dropWhile_le)

lemma json_exp_le: "json_exp s = Some (f, t) \<Longrightarrow> length t \<le> length s"
  by (auto simp: json_exp_def Let_def split: list.splits if_splits
      intro: le_SucI length_dropWhile_le)

lemma json_int_shorter: "json_int s = Some (i, t) \<Longrightarrow> length t < length s"
  by (auto simp: json_int_def le_imp_less_Suc length_dropWhile_le split: list.splits if_splits)

lemma json_number_shorter: "json_number s = Some (v, t) \<Longrightarrow> length t < length s"
  by (auto simp: json_number_def Let_def split: list.splits if_splits option.splits prod.splits
      dest!: json_frac_le json_exp_le json_int_shorter)

lemma json_scalar_shorter: "json_scalar s = Some (v, t) \<Longrightarrow> length t < length s"
  by (auto simp: json_scalar_def HasPrefix_def split: if_splits
      dest!: json_string_shorter json_number_shorter intro: le_less_trans)

text \<open>
  A value is expected (\<open>json_read\<close>), or has just been read (\<open>json_fill\<close>) and closes or
  continues the innermost open array or object.
\<close>

function json_read :: "frame list \<Rightarrow> string \<Rightarrow> (json \<times> string) option"
  and json_fill :: "frame list \<Rightarrow> json \<Rightarrow> string \<Rightarrow> (json \<times> string) option" where
  "json_read st s =
     (case skip_ws s of
        [] \<Rightarrow> None
      | c # cs \<Rightarrow>
          if c = CHR ''{'' then
            if maxNestingDepth \<le> length st then None
            else if skip_ws cs \<noteq> [] \<and> hd (skip_ws cs) = CHR ''}''
              then json_fill st (JObj []) (tl (skip_ws cs))
            else
              (case json_key cs of
                 None \<Rightarrow> None
               | Some (k, r) \<Rightarrow> json_read (InObj [] k # st) r)
          else if c = CHR ''['' then
            if maxNestingDepth \<le> length st then None
            else if skip_ws cs \<noteq> [] \<and> hd (skip_ws cs) = CHR '']''
              then json_fill st (JArr []) (tl (skip_ws cs))
            else json_read (InArr [] # st) cs
          else
            (case json_scalar (skip_ws s) of
               None \<Rightarrow> None
             | Some (v, r) \<Rightarrow> json_fill st v r))"
| "json_fill [] v s = Some (v, s)"
| "json_fill (InArr vs # st) v s =
     (case skip_ws s of
        [] \<Rightarrow> None
      | c # r \<Rightarrow>
          if c = CHR '','' then json_read (InArr (v # vs) # st) r
          else if c = CHR '']'' then json_fill st (JArr (rev (v # vs))) r
          else None)"
| "json_fill (InObj ms k # st) v s =
     (case skip_ws s of
        [] \<Rightarrow> None
      | c # r \<Rightarrow>
          if c = CHR '','' then
            (case json_key r of
               None \<Rightarrow> None
             | Some (k', r') \<Rightarrow> json_read (InObj ((k, v) # ms) k' # st) r')
          else if c = CHR ''}'' then json_fill st (JObj (rev ((k, v) # ms))) r
          else None)"
  by pat_completeness auto
termination
proof (relation "measure (\<lambda>x. case x of Inl (st, s) \<Rightarrow> length s | Inr (st, v, s) \<Rightarrow> length s)")
qed (auto dest!: skip_ws_shorter json_key_shorter json_scalar_shorter
      intro: less_le_trans [OF _ skip_ws_le] less_trans tl_skip_ws_shorter)

declare json_read.simps [simp del]

subsection \<open>Decoding into a struct\<close>

text \<open>
  A struct is given by its fields: a name and what a value does to the struct (\<open>None\<close> for a
  value of the wrong type; a null changes nothing). A key selects the field of that name, or
  else one whose name it equals up to case; the non-ASCII characters that fold to an ASCII
  letter are U+017F and U+212A. Other keys are skipped, and a later member overrides an earlier.
\<close>

type_synonym 'a field = "string \<times> (json \<Rightarrow> 'a \<Rightarrow> 'a option)"

definition string_field :: "(string \<Rightarrow> 'a \<Rightarrow> 'a) \<Rightarrow> json \<Rightarrow> 'a \<Rightarrow> 'a option" where
  "string_field put v x =
     (case v of JNull \<Rightarrow> Some x | JStr t \<Rightarrow> Some (put t x) | _ \<Rightarrow> None)"

definition int64_field :: "(int64 \<Rightarrow> 'a \<Rightarrow> 'a) \<Rightarrow> json \<Rightarrow> 'a \<Rightarrow> 'a option" where
  "int64_field put v x =
     (case v of JNull \<Rightarrow> Some x | JNum t \<Rightarrow> map_option (\<lambda>i. put i x) (ParseInt t) | _ \<Rightarrow> None)"

definition upper :: "char \<Rightarrow> char" where
  "upper c = (if 97 \<le> code c \<and> code c \<le> 122 then char_of (code c - 32) else c)"

fun fold_name :: "string \<Rightarrow> string" where
  "fold_name [] = []"
| "fold_name (c # s) =
     (if HasPrefix (c # s) [CHR 0xC5, CHR 0xBF] then CHR ''S'' # fold_name (drop 1 s)
      else if HasPrefix (c # s) [CHR 0xE2, CHR 0x84, CHR 0xAA] then CHR ''K'' # fold_name (drop 2 s)
      else upper c # fold_name s)"

definition field_for :: "'a field list \<Rightarrow> string \<Rightarrow> (json \<Rightarrow> 'a \<Rightarrow> 'a option) option" where
  "field_for fs k =
     (case find (\<lambda>f. fst f = k) fs of
        Some f \<Rightarrow> Some (snd f)
      | None \<Rightarrow> map_option snd (find (\<lambda>f. fold_name (fst f) = fold_name k) fs))"

fun decode_members :: "'a field list \<Rightarrow> (string \<times> json) list \<Rightarrow> 'a \<Rightarrow> 'a option" where
  "decode_members fs [] x = Some x"
| "decode_members fs ((k, v) # ms) x =
     (case field_for fs k of
        None \<Rightarrow> decode_members fs ms x
      | Some put \<Rightarrow> (case put v x of None \<Rightarrow> None | Some x' \<Rightarrow> decode_members fs ms x'))"

definition decode_struct :: "'a field list \<Rightarrow> json \<Rightarrow> 'a \<Rightarrow> 'a option" where
  "decode_struct fs v x =
     (case v of JNull \<Rightarrow> Some x | JObj ms \<Rightarrow> decode_members fs ms x | _ \<Rightarrow> None)"

text \<open>\<open>json.Unmarshal\<close> reads all of its input; a \<open>Decoder\<close> stops after the first value.\<close>

definition Unmarshal :: "'a field list \<Rightarrow> string \<Rightarrow> 'a \<Rightarrow> 'a option" where
  "Unmarshal fs s x =
     (case json_read [] s of
        None \<Rightarrow> None
      | Some (v, r) \<Rightarrow> if skip_ws r = [] then decode_struct fs v x else None)"

definition Decode :: "'a field list \<Rightarrow> string \<Rightarrow> 'a \<Rightarrow> 'a option" where
  "Decode fs s x =
     (case json_read [] s of None \<Rightarrow> None | Some (v, r) \<Rightarrow> decode_struct fs v x)"

subsection \<open>Round trips\<close>

lemma hex_val_hexdigit: "n < 16 \<Longrightarrow> hex_val (hexdigit n) = Some n"
  by (auto simp: hex_val_def hexdigit_def)

lemma append_single: "(@) [c] = (#) c"
  by (rule ext) simp

lemma json_string_esc:
  assumes "code c < 128"
  shows "json_string (json_esc c @ s) = map_option (apfst ((#) c)) (json_string s)"
proof (cases "json_safe c")
  case True
  then show ?thesis using assms
    by (subst json_string.simps) (auto simp: json_esc_def json_safe_def)
next
  case False
  let ?S = "{CHR 0x22, CHR 0x5C, CHR 0x08, CHR 0x0C, CHR 0x0A, CHR 0x0D, CHR 0x09}"
  have "\<exists>d. json_esc c = [CHR 0x5C, d] \<and> d \<noteq> CHR ''u'' \<and> short_escape d = Some c" if "c \<in> ?S"
    using that by (auto simp: json_esc_def short_escape_def json_safe_def)
  moreover have "json_esc c = [CHR 0x5C, CHR ''u'', CHR ''0'', CHR ''0'',
      hexdigit (code c div 16), hexdigit (code c mod 16)]" if "c \<notin> ?S"
    using that False by (simp add: json_esc_def)
  ultimately consider (short) d where "json_esc c = [CHR 0x5C, d]" "d \<noteq> CHR ''u''" "short_escape d = Some c"
    | (unicode) "json_esc c = [CHR 0x5C, CHR ''u'', CHR ''0'', CHR ''0'',
        hexdigit (code c div 16), hexdigit (code c mod 16)]"
    by blast
  then show ?thesis
  proof cases
    case short
    then show ?thesis by (subst json_string.simps) simp
  next
    case unicode
    have "hex_val (CHR ''0'') = Some 0" by (simp add: hex_val_def)
    then have "unicode_escape (CHR ''0'' # CHR ''0'' # hexdigit (code c div 16) # hexdigit (code c mod 16) # s)
        = Some ([c], s)"
      using assms
      by (simp add: unicode_escape_def hex_val_hexdigit hi_surrogate_def lo_surrogate_def
          utf8_encode_def less_mult_imp_div_less)
    then show ?thesis by (subst json_string.simps) (simp add: unicode append_single)
  qed
qed

lemma json_string_line_sep:
  assumes "line_sep r"
  shows "json_string ([CHR 0x5C] @ ''u202'' @ [hexdigit (code (r ! 2) mod 16)] @ s)
    = map_option (apfst ((@) r)) (json_string s)"
proof -
  have h: "hex4 (''202'' @ hexdigit n # s) = Some (8224 + n, s)" if "n < 16" for n
    using hex_val_hexdigit [OF that] by (simp add: hex_val_def)
  have e: "utf8_encode 8232 = [CHR 0xE2, CHR 0x80, CHR 0xA8]"
    "utf8_encode 8233 = [CHR 0xE2, CHR 0x80, CHR 0xA9]"
    by (simp_all add: utf8_encode_def char_of_def bit_iff_odd)
  have "unicode_escape (''202'' @ hexdigit (code (r ! 2) mod 16) # s) = Some (r, s)"
    using assms h [of 8] h [of 9] e
    by (auto simp: line_sep_def unicode_escape_def hi_surrogate_def lo_surrogate_def simp del: hex4.simps)
  then show ?thesis by (subst json_string.simps) simp
qed

text \<open>A valid string that was quoted is read back as it was.\<close>

lemma json_string_body:
  "valid_utf8 s \<Longrightarrow> json_string (json_body s @ CHR 0x22 # r) = Some (s, r)"
proof (induction s rule: valid_utf8.induct)
  case (1 s)
  show ?case
  proof (cases s)
    case Nil
    then show ?thesis by (simp add: json_body.simps json_string.simps)
  next
    case (Cons c cs)
    have n: "rune_len s \<noteq> 0" "valid_utf8 (drop (rune_len s) s)"
      using valid_utf8_step [OF "1.prems"] Cons by blast+
    then have IH: "json_string (json_body (drop (rune_len s) s) @ CHR 0x22 # r)
        = Some (drop (rune_len s) s, r)"
      using "1.IH" Cons by blast
    show ?thesis
    proof (cases "code c < 128")
      case True
      then have "rune_len s = 1" using Cons rune_len_ascii by simp
      then have "json_string (json_body cs @ CHR 0x22 # r) = Some (cs, r)"
        using IH Cons by simp
      moreover have "json_body s = json_esc c @ json_body cs"
        using True Cons by (subst json_body.simps) simp
      ultimately show ?thesis using json_string_esc [OF True] Cons by simp
    next
      case False
      let ?n = "rune_len s" and ?t = "json_body (drop (rune_len s) s) @ CHR 0x22 # r"
      show ?thesis
      proof (cases "line_sep (take ?n s)")
        case True
        then show ?thesis
          using False Cons n IH json_string_line_sep [OF True, of ?t]
          by (subst json_body.simps) (simp add: Let_def)
      next
        case sep: False
        then have b: "json_body s @ CHR 0x22 # r = take ?n s @ ?t"
          using False Cons n by (subst json_body.simps) (simp add: Let_def)
        have l: "rune_len (take ?n s @ ?t) = ?n" using n(1) by (rule rune_len_take)
        have h: "take ?n s @ ?t = c # tl (take ?n s) @ ?t" using Cons n by (cases ?n) auto
        have "c \<noteq> CHR 0x22" "c \<noteq> CHR 0x5C" "\<not> code c < 0x20" using False by auto
        then have "json_string (take ?n s @ ?t)
            = map_option (apfst ((@) (take ?n (take ?n s @ ?t)))) (json_string (drop ?n (take ?n s @ ?t)))"
          using False n(1) l by (subst json_string.simps) (simp add: h)
        moreover have "take ?n (take ?n s @ ?t) = take ?n s" "drop ?n (take ?n s @ ?t) = ?t"
          using rune_len_le [of s] by simp_all
        ultimately have "json_string (take ?n s @ ?t)
            = map_option (apfst ((@) (take ?n s))) (Some (drop ?n s, r))"
          using IH by (simp only:)
        then show ?thesis unfolding b by simp
      qed
    qed
  qed
qed

end
