(* ===== verification/TTL_Store.thy ===== *)
theory TTL_Store
  imports World Go_Json
begin

section \<open>TTL settings in the plugin's key-value store (\<open>server/ttl/store.go\<close>)\<close>

text \<open>
  A channel's setting is one JSON object under the key \<open>ttl:\<close> followed by the channel id. The
  interface \<open>KV\<close> is the record \<open>kv_api\<close>; what Mattermost documents of it is the locale
  \<open>kv_service\<close>. The interface \<open>TTLSettingStore\<close> is the record \<open>ttl_store\<close>, its contract the
  locale \<open>ttl_setting_store\<close>: a sublocale shows that \<open>kvStore\<close> over any such key-value store
  implements it. Concurrent writers are the subject of theory \<open>TTL_Race\<close>.
\<close>

record TTLSetting =
  DurationSeconds :: int64
  SetBy :: string
  SetAt :: int64

record 's ttl_store =
  st_Get :: "string \<Rightarrow> 's \<Rightarrow> (ttl_error + TTLSetting option) \<times> 's"
  st_Set :: "string \<Rightarrow> TTLSetting \<Rightarrow> 's \<Rightarrow> ttl_error option \<times> 's"
  st_Clear :: "string \<Rightarrow> 's \<Rightarrow> ttl_error option \<times> 's"

subsection \<open>The JSON shape\<close>

definition json_name :: "string \<Rightarrow> string" where
  "json_name n = json_quote n @ '':''"

definition marshal_TTLSetting :: "TTLSetting \<Rightarrow> bytes" where
  "marshal_TTLSetting t =
     ''{'' @ json_name ''duration_s'' @ FormatInt (DurationSeconds t)
     @ '','' @ json_name ''set_by'' @ json_quote (SetBy t)
     @ '','' @ json_name ''set_at'' @ FormatInt (SetAt t) @ ''}''"

definition TTLSetting_fields :: "TTLSetting field list" where
  "TTLSetting_fields =
     [(''duration_s'', int64_field (\<lambda>i t. t\<lparr>DurationSeconds := i\<rparr>)),
      (''set_by'', string_field (\<lambda>u t. t\<lparr>SetBy := u\<rparr>)),
      (''set_at'', int64_field (\<lambda>i t. t\<lparr>SetAt := i\<rparr>))]"

definition zero_TTLSetting :: TTLSetting where
  "zero_TTLSetting = \<lparr>DurationSeconds = 0, SetBy = '''', SetAt = 0\<rparr>"

definition unmarshal_TTLSetting :: "bytes \<Rightarrow> TTLSetting option" where
  "unmarshal_TTLSetting s = Unmarshal TTLSetting_fields s zero_TTLSetting"

subsection \<open>The store\<close>

record kvStore =
  maxRetries :: int64

definition defaultMaxRetries :: int64 where
  "defaultMaxRetries = 20"

definition NewKVStore :: kvStore where
  "NewKVStore = \<lparr>maxRetries = defaultMaxRetries\<rparr>"

definition kvKey :: "string \<Rightarrow> string" where
  "kvKey channelID = ''ttl:'' @ channelID"

definition kvStore_Get ::
  "'s kv_api \<Rightarrow> string \<Rightarrow> 's \<Rightarrow> (ttl_error + TTLSetting option) \<times> 's" where
  "kvStore_Get kv channelID s =
     (case KVGet kv (kvKey channelID) s of
        (Inl appErr, s1) \<Rightarrow> (Inl (ErrKVGet channelID appErr), s1)
      | (Inr data, s1) \<Rightarrow>
          if data = None \<or> data = Some [] then (Inr None, s1)
          else
            (case unmarshal_TTLSetting (the data) of
               None \<Rightarrow> (Inl (ErrDecode channelID (the data)), s1)
             | Some setting \<Rightarrow> (Inr (Some setting), s1)))"

text \<open>The loop of \<open>Set\<close>; the first argument counts the iterations left.\<close>

fun set_loop ::
  "nat \<Rightarrow> 's kv_api \<Rightarrow> string \<Rightarrow> bytes \<Rightarrow> 's \<Rightarrow> ttl_error option \<times> 's" where
  "set_loop 0 kv channelID value s = (Some ErrTooManyRetries, s)"
| "set_loop (Suc n) kv channelID value s =
     (case KVGet kv (kvKey channelID) s of
        (Inl appErr, s1) \<Rightarrow> (Some (ErrKVGet channelID appErr), s1)
      | (Inr current, s1) \<Rightarrow>
          (case KVSetWithOptions kv (kvKey channelID) value \<lparr>Atomic = True, OldValue = current\<rparr> s1 of
             (Inl appErr, s2) \<Rightarrow> (Some (ErrKVSet channelID appErr), s2)
           | (Inr ok, s2) \<Rightarrow> if ok then (None, s2) else set_loop n kv channelID value s2))"

text \<open>Encoding a \<open>TTLSetting\<close> cannot fail, so \<open>ErrEncode\<close> never arises.\<close>

definition kvStore_Set ::
  "kvStore \<Rightarrow> 's kv_api \<Rightarrow> string \<Rightarrow> TTLSetting \<Rightarrow> 's \<Rightarrow> ttl_error option \<times> 's" where
  "kvStore_Set st kv channelID setting s =
     set_loop (nat (sint (maxRetries st))) kv channelID (marshal_TTLSetting setting) s"

definition kvStore_Clear :: "'s kv_api \<Rightarrow> string \<Rightarrow> 's \<Rightarrow> ttl_error option \<times> 's" where
  "kvStore_Clear kv channelID s =
     (case KVDelete kv (kvKey channelID) s of
        (Some appErr, s1) \<Rightarrow> (Some (ErrKVDelete channelID appErr), s1)
      | (None, s1) \<Rightarrow> (None, s1))"

definition kvStore_api :: "kvStore \<Rightarrow> 's kv_api \<Rightarrow> 's ttl_store" where
  "kvStore_api st kv = \<lparr>st_Get = kvStore_Get kv, st_Set = kvStore_Set st kv, st_Clear = kvStore_Clear kv\<rparr>"

lemma kvStore_api_sel [simp]:
  "st_Get (kvStore_api st kv) = kvStore_Get kv" "st_Set (kvStore_api st kv) = kvStore_Set st kv"
  "st_Clear (kvStore_api st kv) = kvStore_Clear kv"
  by (simp_all add: kvStore_api_def)

subsection \<open>A setting that was encoded is decoded as it was\<close>

lemma FormatInt_lead:
  obtains (pos) d ds where "FormatInt i = d # ds" "is_digit d" "list_all is_digit ds"
      "d = CHR ''0'' \<Longrightarrow> ds = []"
    | (neg) d ds where "FormatInt i = CHR ''-'' # d # ds" "is_digit d" "list_all is_digit ds"
      "d = CHR ''0'' \<Longrightarrow> ds = []"
proof -
  have s: "\<exists>d ds. show_nat n = d # ds \<and> is_digit d \<and> list_all is_digit ds \<and> (d = CHR ''0'' \<longrightarrow> ds = [])" for n
    using show_nat_digits [of n] show_nat_lead [of n] show_nat_zero
    by (cases "show_nat n"; cases "n = 0") auto
  show ?thesis
  proof (cases "sint i < 0")
    case True
    then show ?thesis using s [of "nat (- sint i)"] neg by (auto simp: FormatInt_def)
  next
    case False
    then show ?thesis using s [of "nat (sint i)"] pos by (auto simp: FormatInt_def)
  qed
qed

lemma json_number_FormatInt:
  assumes "c = CHR '','' \<or> c = CHR ''}''"
  shows "json_number (FormatInt i @ c # r) = Some (FormatInt i, c # r)"
proof -
  have nd: "\<not> is_digit c" "c \<noteq> CHR ''.''" "c \<noteq> CHR ''e''" "c \<noteq> CHR ''E''"
    using assms by (auto simp: is_digit_def)
  have tk: "takeWhile is_digit (ds @ c # r) = ds" "dropWhile is_digit (ds @ c # r) = c # r"
    if "list_all is_digit ds" for ds
    using that nd by (auto simp: takeWhile_append dropWhile_append list_all_iff)
  have i: "json_int (d # ds @ c # r) = Some (d # ds, c # r)"
    if "is_digit d" "list_all is_digit ds" "d = CHR ''0'' \<Longrightarrow> ds = []" for d ds
    using that tk [of ds] by (auto simp: json_int_def)
  show ?thesis
  proof (cases i rule: FormatInt_lead)
    case (pos d ds)
    then show ?thesis using i [of d ds] is_digit_sign [of d] nd
      by (simp add: json_number_def json_frac_def json_exp_def)
  next
    case (neg d ds)
    then show ?thesis using i [of d ds] nd
      by (simp add: json_number_def json_frac_def json_exp_def)
  qed
qed

text \<open>How the reader steps over the parts of an encoded object.\<close>

lemma FormatInt_scalar:
  assumes "c = CHR '','' \<or> c = CHR ''}''"
  shows "json_scalar (FormatInt i @ c # r) = Some (JNum (FormatInt i), c # r)"
proof -
  have "hd (FormatInt i) \<notin> {CHR 0x22, CHR ''n'', CHR ''t'', CHR ''f''}" "FormatInt i \<noteq> []"
    by (cases i rule: FormatInt_lead; auto simp: is_digit_def)+
  then show ?thesis using json_number_FormatInt [OF assms, of i r]
    by (cases "FormatInt i") (auto simp: json_scalar_def HasPrefix_def)
qed

lemma read_int_member:
  assumes "c = CHR '','' \<or> c = CHR ''}''"
  shows "json_read st (FormatInt i @ c # r) = json_fill st (JNum (FormatInt i)) (c # r)"
proof -
  have "hd (FormatInt i) \<notin> {CHR ''{'', CHR ''[''}" "\<not> is_ws (hd (FormatInt i))" "FormatInt i \<noteq> []"
    by (cases i rule: FormatInt_lead; auto simp: is_digit_def is_ws_def)+
  then show ?thesis using FormatInt_scalar [OF assms, of i r]
    by (cases "FormatInt i") (auto simp: json_read.simps [of st] skip_ws_def)
qed

lemma read_string_member:
  "valid_utf8 u \<Longrightarrow> json_read st (json_quote u @ r) = json_fill st (JStr u) r"
  by (simp add: json_read.simps [of st] skip_ws_def is_ws_def json_quote_def json_scalar_def
      json_string_body)

lemma read_key:
  "valid_utf8 k \<Longrightarrow> json_key (json_name k @ r) = Some (k, r)"
  by (simp add: json_key_def skip_ws_def is_ws_def json_quote_def json_name_def json_string_body)

lemma fill_comma:
  "valid_utf8 k \<Longrightarrow> json_fill (InObj ms k0 # st) v (CHR '','' # json_name k @ r)
     = json_read (InObj ((k0, v) # ms) k # st) r"
  by (simp add: skip_ws_def is_ws_def read_key)

lemma fill_close:
  "json_fill (InObj ms k0 # st) v (CHR ''}'' # r) = json_fill st (JObj (rev ((k0, v) # ms))) r"
  by (simp add: skip_ws_def is_ws_def)

lemma read_open:
  assumes "valid_utf8 k" "length st < maxNestingDepth"
  shows "json_read st (CHR ''{'' # json_name k @ r) = json_read (InObj [] k # st) r"
  using assms read_key [of k r]
  by (simp add: json_read.simps [of st] skip_ws_def is_ws_def json_name_def json_quote_def)

lemma unmarshal_marshal:
  assumes "valid_utf8 (SetBy t)"
  shows "unmarshal_TTLSetting (marshal_TTLSetting t) = Some t"
proof -
  have k: "valid_utf8 ''duration_s''" "valid_utf8 ''set_by''" "valid_utf8 ''set_at''"
    by (simp_all add: valid_utf8_ascii)
  have "json_read [] (marshal_TTLSetting t) = Some (JObj
      [(''duration_s'', JNum (FormatInt (DurationSeconds t))), (''set_by'', JStr (SetBy t)),
       (''set_at'', JNum (FormatInt (SetAt t)))], [])"
    using assms k
    by (simp add: marshal_TTLSetting_def read_open read_int_member read_string_member fill_comma
        fill_close maxNestingDepth_def del: json_fill.simps(3))
  then show ?thesis
    by (simp add: unmarshal_TTLSetting_def Unmarshal_def skip_ws_def decode_struct_def field_for_def
        TTLSetting_fields_def int64_field_def string_field_def ParseInt_FormatInt zero_TTLSetting_def)
qed

lemma marshal_not_empty [simp]: "marshal_TTLSetting t \<noteq> []"
  by (simp add: marshal_TTLSetting_def)

subsection \<open>The contract of the key-value store\<close>

definition slice :: "byte_slice \<Rightarrow> bytes" where
  "slice b = (case b of None \<Rightarrow> [] | Some v \<Rightarrow> v)"

text \<open>
  What Mattermost documents for a node that is alone: a get returns the cell; an atomic set
  succeeds exactly when the cell still holds the old value, and reports false otherwise; a
  call that returns an error may or may not have taken effect. \<open>other\<close> is what the calls leave
  alone.
\<close>

locale kv_service =
  fixes kv :: "'s kv_api"
    and cells :: "'s \<Rightarrow> string \<rightharpoonup> bytes"
    and other :: "'s \<Rightarrow> 'f"
  assumes kv_get: "KVGet kv k s = (r, s') \<Longrightarrow> cells s' = cells s \<and> other s' = other s
      \<and> (\<forall>v. r = Inr v \<longrightarrow> slice v = slice (cells s k))"
    and kv_cas: "KVSetWithOptions kv k v \<lparr>Atomic = True, OldValue = old\<rparr> s = (b, s') \<Longrightarrow>
      other s' = other s
      \<and> (b = Inr True \<longrightarrow> slice old = slice (cells s k) \<and> cells s' = (cells s)(k \<mapsto> v))
      \<and> (b = Inr False \<longrightarrow> slice old \<noteq> slice (cells s k) \<and> cells s' = cells s)
      \<and> (cells s' = cells s \<or> cells s' = (cells s)(k \<mapsto> v))"
    and kv_delete: "KVDelete kv k s = (er, s') \<Longrightarrow>
      other s' = other s \<and> (cells s' = (cells s)(k := None) \<or> er \<noteq> None \<and> cells s' = cells s)"

definition settings_of :: "(string \<rightharpoonup> bytes) \<Rightarrow> string \<Rightarrow> TTLSetting option" where
  "settings_of c ch =
     (if slice (c (kvKey ch)) = [] then None else unmarshal_TTLSetting (slice (c (kvKey ch))))"

locale ttl_setting_store =
  fixes st :: "'s ttl_store"
    and settings :: "'s \<Rightarrow> string \<Rightarrow> TTLSetting option"
    and other :: "'s \<Rightarrow> 'f"
  assumes st_get: "st_Get st ch s = (r, s') \<Longrightarrow> settings s' = settings s \<and> other s' = other s
      \<and> (\<forall>v. r = Inr v \<longrightarrow> v = settings s ch)"
    and st_set: "st_Set st ch t s = (er, s') \<Longrightarrow> other s' = other s
      \<and> (\<forall>c. c \<noteq> ch \<longrightarrow> settings s' c = settings s c)
      \<and> (valid_utf8 (SetBy t) \<longrightarrow>
           settings s' = (settings s)(ch \<mapsto> t) \<or> er \<noteq> None \<and> settings s' = settings s)"
    and st_clear: "st_Clear st ch s = (er, s') \<Longrightarrow> other s' = other s
      \<and> (settings s' = (settings s)(ch := None) \<or> er \<noteq> None \<and> settings s' = settings s)"
begin

lemma set_then_get:
  assumes "st_Set st ch t s = (None, s1)" "valid_utf8 (SetBy t)" "st_Get st ch s1 = (Inr v, s2)"
  shows "v = Some t"
  using st_set [OF assms(1)] assms(2) st_get [OF assms(3)] by auto

lemma clear_then_get:
  assumes "st_Clear st ch s = (None, s1)" "st_Get st ch s1 = (Inr v, s2)"
  shows "v = None"
  using st_clear [OF assms(1)] st_get [OF assms(2)] by auto

end

lemma kvKey_inj [simp]: "kvKey a = kvKey b \<longleftrightarrow> a = b"
  by (simp add: kvKey_def)

lemma settings_of_put:
  "valid_utf8 (SetBy t) \<Longrightarrow>
    settings_of (c(kvKey ch \<mapsto> marshal_TTLSetting t)) = (settings_of c)(ch \<mapsto> t)"
  by (auto simp: settings_of_def slice_def unmarshal_marshal fun_eq_iff)

lemma settings_of_other: "c' \<noteq> ch \<Longrightarrow> settings_of (c(kvKey ch \<mapsto> v)) c' = settings_of c c'"
  by (simp add: settings_of_def)

lemma settings_of_delete: "settings_of (c(kvKey ch := None)) = (settings_of c)(ch := None)"
  by (auto simp: settings_of_def slice_def fun_eq_iff)

context kv_service
begin

lemma get_reads: "kvStore_Get kv ch s = (r, s') \<Longrightarrow> cells s' = cells s \<and> other s' = other s
    \<and> (\<forall>v. r = Inr v \<longrightarrow> v = settings_of (cells s) ch)"
  by (auto simp: kvStore_Get_def settings_of_def slice_def dest!: kv_get
      split: prod.splits sum.splits if_splits option.splits)

text \<open>A node that is alone never loses the race: the first iteration decides.\<close>

lemma set_writes:
  assumes "set_loop (Suc n) kv ch v s = (er, s')"
  shows "er \<noteq> Some ErrTooManyRetries \<and> other s' = other s
    \<and> (cells s' = (cells s)(kvKey ch \<mapsto> v) \<or> er \<noteq> None \<and> cells s' = cells s)"
proof -
  obtain r s1 where g: "KVGet kv (kvKey ch) s = (r, s1)" by (cases "KVGet kv (kvKey ch) s")
  note g' = kv_get [OF g]
  show ?thesis
  proof (cases r)
    case (Inl e)
    then show ?thesis using assms g g' by auto
  next
    case (Inr cur)
    obtain b s2
      where c: "KVSetWithOptions kv (kvKey ch) v \<lparr>Atomic = True, OldValue = cur\<rparr> s1 = (b, s2)"
      by (cases "KVSetWithOptions kv (kvKey ch) v \<lparr>Atomic = True, OldValue = cur\<rparr> s1")
    have "b \<noteq> Inr False" using kv_cas [OF c] g' Inr by auto
    then show ?thesis using assms g c g' kv_cas [OF c] Inr by (cases b) auto
  qed
qed

lemma set_decides:
  assumes "kvStore_Set NewKVStore kv ch t s = (er, s')"
  shows "er \<noteq> Some ErrTooManyRetries \<and> other s' = other s
    \<and> (cells s' = (cells s)(kvKey ch \<mapsto> marshal_TTLSetting t) \<or> er \<noteq> None \<and> cells s' = cells s)"
proof -
  have "nat (sint (maxRetries NewKVStore)) = Suc 19"
    by (simp add: NewKVStore_def defaultMaxRetries_def)
  with assms have "set_loop (Suc 19) kv ch (marshal_TTLSetting t) s = (er, s')"
    by (simp only: kvStore_Set_def)
  then show ?thesis by (rule set_writes)
qed

end

sublocale kv_service \<subseteq> store: ttl_setting_store
  "kvStore_api NewKVStore kv" "\<lambda>s. settings_of (cells s)" other
proof
  fix ch s r s'
  assume "st_Get (kvStore_api NewKVStore kv) ch s = (r, s')"
  then show "settings_of (cells s') = settings_of (cells s) \<and> other s' = other s
      \<and> (\<forall>v. r = Inr v \<longrightarrow> v = settings_of (cells s) ch)"
    using get_reads by fastforce
next
  fix ch t s er s'
  assume "st_Set (kvStore_api NewKVStore kv) ch t s = (er, s')"
  then show "other s' = other s
      \<and> (\<forall>c. c \<noteq> ch \<longrightarrow> settings_of (cells s') c = settings_of (cells s) c) \<and> (valid_utf8 (SetBy t) \<longrightarrow>
      settings_of (cells s') = (settings_of (cells s))(ch \<mapsto> t)
      \<or> er \<noteq> None \<and> settings_of (cells s') = settings_of (cells s))"
    using set_decides [of ch t s er s'] by (auto simp: settings_of_put settings_of_other)
next
  fix ch s er s'
  assume "st_Clear (kvStore_api NewKVStore kv) ch s = (er, s')"
  then show "other s' = other s \<and> (settings_of (cells s') = (settings_of (cells s))(ch := None)
      \<or> er \<noteq> None \<and> settings_of (cells s') = settings_of (cells s))"
    using kv_delete [of "kvKey ch" s] by (cases "KVDelete kv (kvKey ch) s")
      (auto simp: kvStore_Clear_def settings_of_delete split: option.splits)
qed

context kv_service
begin

lemma kvStore_implements:
  "ttl_setting_store (kvStore_api NewKVStore kv) (\<lambda>s. settings_of (cells s)) other"
  by (rule store.ttl_setting_store_axioms)

end

subsection \<open>The in-memory store of the tests\<close>

text \<open>\<open>fakeKV\<close> of \<open>server/ttl/service_test.go\<close>: a map whose calls never fail.\<close>

record fakeKV =
  fk_data :: "string \<rightharpoonup> bytes"

definition fakeKV_KVGet :: "string \<Rightarrow> fakeKV \<Rightarrow> (app_error + byte_slice) \<times> fakeKV" where
  "fakeKV_KVGet k f = (Inr (fk_data f k), f)"

definition fakeKV_KVSetWithOptions ::
  "string \<Rightarrow> bytes \<Rightarrow> kv_options \<Rightarrow> fakeKV \<Rightarrow> (app_error + bool) \<times> fakeKV" where
  "fakeKV_KVSetWithOptions k v opts f =
     (if Atomic opts \<and> slice (fk_data f k) \<noteq> slice (OldValue opts) then (Inr False, f)
      else (Inr True, f\<lparr>fk_data := (fk_data f)(k \<mapsto> v)\<rparr>))"

definition fakeKV_KVDelete :: "string \<Rightarrow> fakeKV \<Rightarrow> app_error option \<times> fakeKV" where
  "fakeKV_KVDelete k f = (None, f\<lparr>fk_data := (fk_data f)(k := None)\<rparr>)"

definition fakeKV_api :: "fakeKV kv_api" where
  "fakeKV_api = \<lparr>KVGet = fakeKV_KVGet, KVSetWithOptions = fakeKV_KVSetWithOptions,
     KVDelete = fakeKV_KVDelete\<rparr>"

lemmas fakeKV_defs = fakeKV_api_def fakeKV_KVGet_def fakeKV_KVSetWithOptions_def fakeKV_KVDelete_def

interpretation fake: kv_service fakeKV_api fk_data "\<lambda>f. ()"
  by unfold_locales (auto simp: fakeKV_defs split: if_splits)

subsection \<open>The store as part of the plugin's world\<close>

text \<open>A key-value store that lives in the server's state.\<close>

definition kv_of :: "'w kv_api \<Rightarrow> ('w world) kv_api" where
  "kv_of kv = \<lparr>
     KVGet = (\<lambda>k s. let (r, w) = KVGet kv k (srv s) in (r, s\<lparr>srv := w\<rparr>)),
     KVSetWithOptions = (\<lambda>k v opts s.
       let (r, w) = KVSetWithOptions kv k v opts (srv s) in (r, s\<lparr>srv := w\<rparr>)),
     KVDelete = (\<lambda>k s. let (r, w) = KVDelete kv k (srv s) in (r, s\<lparr>srv := w\<rparr>))\<rparr>"

definition outside_srv ::
  "'w world \<Rightarrow> entry list option \<times> (string \<rightharpoonup> sql_table) \<times> db_outcome list \<times> log_line list \<times> ws_event list" where
  "outside_srv s = (expire_rows s, tables s, outcomes s, logs s, events s)"

lemma outside_srv_upd [simp]: "outside_srv (s\<lparr>srv := w\<rparr>) = outside_srv s"
  by (simp add: outside_srv_def)

locale world_kv = base: kv_service kv cells other
  for kv :: "'w kv_api"
    and cells :: "'w \<Rightarrow> string \<rightharpoonup> bytes"
    and other :: "'w \<Rightarrow> 'f"

sublocale world_kv \<subseteq> in_world: kv_service
  "kv_of kv" "\<lambda>s. cells (srv s)" "\<lambda>s. (other (srv s), outside_srv s)"
proof
  show "cells (srv s') = cells (srv s)
      \<and> (other (srv s'), outside_srv s') = (other (srv s), outside_srv s)
      \<and> (\<forall>v. r = Inr v \<longrightarrow> slice v = slice (cells (srv s) k))"
    if "KVGet (kv_of kv) k s = (r, s')" for k s r s'
    using that base.kv_get [of k "srv s"] by (auto simp: kv_of_def Let_def split: prod.splits)
next
  show "(other (srv s'), outside_srv s') = (other (srv s), outside_srv s)
      \<and> (b = Inr True \<longrightarrow> slice old = slice (cells (srv s) k) \<and> cells (srv s') = (cells (srv s))(k \<mapsto> v))
      \<and> (b = Inr False \<longrightarrow> slice old \<noteq> slice (cells (srv s) k) \<and> cells (srv s') = cells (srv s))
      \<and> (cells (srv s') = cells (srv s) \<or> cells (srv s') = (cells (srv s))(k \<mapsto> v))"
    if "KVSetWithOptions (kv_of kv) k v \<lparr>Atomic = True, OldValue = old\<rparr> s = (b, s')" for k v old s b s'
    using that base.kv_cas [of k v old "srv s"] by (auto simp: kv_of_def Let_def split: prod.splits)
next
  show "(other (srv s'), outside_srv s') = (other (srv s), outside_srv s)
      \<and> (cells (srv s') = (cells (srv s))(k := None) \<or> er \<noteq> None \<and> cells (srv s') = cells (srv s))"
    if "KVDelete (kv_of kv) k s = (er, s')" for k s er s'
    using that base.kv_delete [of k "srv s"] by (auto simp: kv_of_def Let_def split: prod.splits)
qed

interpretation fake_world: world_kv fakeKV_api fk_data "\<lambda>f. ()"
  by (intro world_kv.intro fake.kv_service_axioms)

end
