(* ===== verification/TTL_Service.thy ===== *)
theory TTL_Service
  imports TTL_Store
begin

section \<open>The TTL service (\<open>server/ttl/service.go\<close>)\<close>

text \<open>
  Validation, the permission check and persistence of a channel's TTL. \<open>PermissionChecker\<close> is
  the record \<open>perm_api\<close> of queries that read the state. The contract the HTTP API and the
  expiry service rely on is split in two locales, one for each interface they declare:
  \<open>ttl_manager\<close> (\<open>TTLManager\<close> of \<open>server/api/handler.go\<close>) and \<open>ttl_reader\<close> (\<open>TTLReader\<close> of
  \<open>server/expiry/service.go\<close>).
\<close>

definition nil_channel_text :: string where
  "nil_channel_text = ''nil channel, no app error''"

definition Service_checkCanManage ::
  "'s perm_api \<Rightarrow> string \<Rightarrow> string \<Rightarrow> 's \<Rightarrow> ttl_error option" where
  "Service_checkCanManage perm actorID channelID s =
     (if HasPermissionTo perm actorID PermissionManageSystem s then None
      else
        case GetChannel perm channelID s of
          (_, Some appErr) \<Rightarrow> Some (ErrChannelNotFound channelID appErr)
        | (None, None) \<Rightarrow> Some (ErrChannelNotFound channelID nil_channel_text)
        | (Some ch, None) \<Rightarrow>
            if IsGroupOrDirect ch then None
            else if IsOpen ch
              \<and> HasPermissionToChannel perm actorID channelID PermissionManagePublicChannelProperties s
            then None
            else if \<not> IsOpen ch
              \<and> HasPermissionToChannel perm actorID channelID PermissionManagePrivateChannelProperties s
            then None
            else Some ErrForbidden)"

text \<open>\<open>setAt\<close> is the \<open>UnixMilli\<close> of the time the caller passes.\<close>

definition Service_SetTTL ::
  "'s ttl_store \<Rightarrow> 's perm_api \<Rightarrow> string \<Rightarrow> string \<Rightarrow> duration \<Rightarrow> int64 \<Rightarrow> 's \<Rightarrow> ttl_error option \<times> 's" where
  "Service_SetTTL store perm actorID channelID d setAt s =
     (case ValidateTTL d of
        Some err \<Rightarrow> (Some err, s)
      | None \<Rightarrow>
          (case Service_checkCanManage perm actorID channelID s of
             Some err \<Rightarrow> (Some err, s)
           | None \<Rightarrow> st_Set store channelID
               \<lparr>DurationSeconds = int64_Seconds d, SetBy = actorID, SetAt = setAt\<rparr> s))"

type_synonym 's ttl_read = "string \<Rightarrow> 's \<Rightarrow> (ttl_error + duration \<times> bool) \<times> 's"

definition Service_GetTTL :: "'s ttl_store \<Rightarrow> 's ttl_read" where
  "Service_GetTTL store channelID s =
     (case st_Get store channelID s of
        (Inl err, s1) \<Rightarrow> (Inl err, s1)
      | (Inr None, s1) \<Rightarrow> (Inr (0, False), s1)
      | (Inr (Some setting), s1) \<Rightarrow> (Inr (DurationSeconds setting * Second, True), s1))"

definition Service_GetSetting ::
  "'s ttl_store \<Rightarrow> string \<Rightarrow> 's \<Rightarrow> (ttl_error + TTLSetting option) \<times> 's" where
  "Service_GetSetting store channelID s = st_Get store channelID s"

definition Service_ClearTTL ::
  "'s ttl_store \<Rightarrow> 's perm_api \<Rightarrow> string \<Rightarrow> string \<Rightarrow> 's \<Rightarrow> ttl_error option \<times> 's" where
  "Service_ClearTTL store perm actorID channelID s =
     (case Service_checkCanManage perm actorID channelID s of
        Some err \<Rightarrow> (Some err, s)
      | None \<Rightarrow> st_Clear store channelID s)"

subsection \<open>Who may manage a channel's TTL\<close>

text \<open>The design's rule D2, as one condition.\<close>

definition may_manage :: "'s perm_api \<Rightarrow> string \<Rightarrow> string \<Rightarrow> 's \<Rightarrow> bool" where
  "may_manage perm actor ch s \<longleftrightarrow>
     HasPermissionTo perm actor PermissionManageSystem s
     \<or> (\<exists>c. GetChannel perm ch s = (Some c, None)
          \<and> (IsGroupOrDirect c \<or> HasPermissionToChannel perm actor ch
               (if IsOpen c then PermissionManagePublicChannelProperties
                else PermissionManagePrivateChannelProperties) s))"

lemma checkCanManage_None_iff:
  "Service_checkCanManage perm actor ch s = None \<longleftrightarrow> may_manage perm actor ch s"
  by (auto simp: Service_checkCanManage_def may_manage_def split: prod.splits option.splits)

lemma Service_SetTTL_eq:
  "Service_SetTTL store perm actor ch d at s =
    (if ValidateTTL d \<noteq> None then (ValidateTTL d, s)
     else if \<not> may_manage perm actor ch s then (Service_checkCanManage perm actor ch s, s)
     else st_Set store ch \<lparr>DurationSeconds = int64_Seconds d, SetBy = actor, SetAt = at\<rparr> s)"
  using checkCanManage_None_iff [of perm actor ch s]
  by (auto simp: Service_SetTTL_def split: option.splits)

lemma checkCanManage_error:
  assumes "Service_checkCanManage perm actor ch s = Some e"
  shows "e = ErrForbidden \<longleftrightarrow> (\<exists>c. GetChannel perm ch s = (Some c, None))"
    and "e = ErrForbidden \<or> (\<exists>t. e = ErrChannelNotFound ch t)"
  using assms
  by (auto simp: Service_checkCanManage_def split: prod.splits option.splits if_splits)

subsection \<open>The contracts the service provides\<close>

locale ttl_reader =
  fixes getTTL :: "'s ttl_read"
    and ttl :: "'s \<Rightarrow> string \<Rightarrow> duration option"
    and other :: "'s \<Rightarrow> 'f"
  assumes read_ttl: "getTTL ch s = (r, s') \<Longrightarrow> ttl s' = ttl s \<and> other s' = other s
      \<and> (\<forall>v. r = Inr v \<longrightarrow> v = (case ttl s ch of None \<Rightarrow> (0, False) | Some d \<Rightarrow> (d, True)))"

record 's ttl_api =
  SetTTL :: "string \<Rightarrow> string \<Rightarrow> duration \<Rightarrow> int64 \<Rightarrow> 's \<Rightarrow> ttl_error option \<times> 's"
  GetSetting :: "string \<Rightarrow> 's \<Rightarrow> (ttl_error + TTLSetting option) \<times> 's"
  ClearTTL :: "string \<Rightarrow> string \<Rightarrow> 's \<Rightarrow> ttl_error option \<times> 's"

text \<open>
  A request that is refused changes nothing; one that is accepted was valid and permitted, and
  has stored or removed exactly the setting.
\<close>

text \<open>A store of settings that keep to the policy of one minute to one year.\<close>

definition settings_wf :: "(string \<Rightarrow> TTLSetting option) \<Rightarrow> bool" where
  "settings_wf m \<longleftrightarrow>
     (\<forall>ch t. m ch = Some t \<longrightarrow> 60 \<le> sint (DurationSeconds t) \<and> sint (DurationSeconds t) \<le> 31536000)"

lemma settings_wf_upd:
  "settings_wf m \<Longrightarrow> 60 \<le> sint n \<Longrightarrow> sint n \<le> 31536000 \<Longrightarrow>
    settings_wf (m(ch \<mapsto> \<lparr>DurationSeconds = n, SetBy = u, SetAt = at\<rparr>))"
  by (simp add: settings_wf_def)

lemma settings_wf_delete: "settings_wf m \<Longrightarrow> settings_wf (m(ch := None))"
  by (simp add: settings_wf_def)

locale ttl_manager =
  fixes api :: "'s ttl_api"
    and may :: "string \<Rightarrow> string \<Rightarrow> 's \<Rightarrow> bool"
    and settings :: "'s \<Rightarrow> string \<Rightarrow> TTLSetting option"
    and other :: "'s \<Rightarrow> 'f"
  assumes get_setting: "GetSetting api ch s = (r, s') \<Longrightarrow> settings s' = settings s \<and> other s' = other s
      \<and> (\<forall>v. r = Inr v \<longrightarrow> v = settings s ch)"
    and set_ttl: "SetTTL api actor ch d at s = (er, s') \<Longrightarrow>
      other s' = other s \<and> (\<forall>c. c \<noteq> ch \<longrightarrow> settings s' c = settings s c)
      \<and> (ValidateTTL d \<noteq> None \<longrightarrow> er = Some ErrInvalidTTL \<and> s' = s)
      \<and> (ValidateTTL d = None \<and> \<not> may actor ch s \<longrightarrow> er \<noteq> None \<and> s' = s)
      \<and> (er = None \<and> valid_utf8 actor \<longrightarrow> settings s' =
           (settings s)(ch \<mapsto> \<lparr>DurationSeconds = int64_Seconds d, SetBy = actor, SetAt = at\<rparr>))
      \<and> (valid_utf8 actor \<longrightarrow> settings s' = settings s \<or> settings s' =
           (settings s)(ch \<mapsto> \<lparr>DurationSeconds = int64_Seconds d, SetBy = actor, SetAt = at\<rparr>))"
    and clear_ttl: "ClearTTL api actor ch s = (er, s') \<Longrightarrow>
      other s' = other s \<and> (\<forall>c. c \<noteq> ch \<longrightarrow> settings s' c = settings s c)
      \<and> (\<not> may actor ch s \<longrightarrow> er \<noteq> None \<and> s' = s)
      \<and> (er = None \<longrightarrow> settings s' = (settings s)(ch := None))
      \<and> (settings s' = settings s \<or> settings s' = (settings s)(ch := None))"
begin

text \<open>What is accepted was valid and permitted.\<close>

lemma set_accepted:
  assumes "SetTTL api actor ch d at s = (None, s')"
  shows "ValidateTTL d = None \<and> may actor ch s"
  using set_ttl [OF assms] by auto

text \<open>A call changes no setting but that of its channel, and only if it is permitted.\<close>

lemma set_changes:
  assumes "SetTTL api actor ch d at s = (er, s')" "settings s' c \<noteq> settings s c"
  shows "c = ch \<and> may actor ch s \<and> ValidateTTL d = None"
  using set_ttl [OF assms(1)] assms(2) by auto

lemma clear_changes:
  assumes "ClearTTL api actor ch s = (er, s')" "settings s' c \<noteq> settings s c"
  shows "c = ch \<and> may actor ch s"
  using clear_ttl [OF assms(1)] assms(2) by auto

text \<open>What a call makes of the settings: nothing, or what the policy and the permission allow.\<close>

lemma set_result:
  assumes "SetTTL api actor ch d at s = (er, s')" "valid_utf8 actor"
  shows "settings s' = settings s \<or> may actor ch s \<and> (\<exists>n. 60 \<le> sint n \<and> sint n \<le> 31536000
    \<and> settings s' = (settings s)(ch \<mapsto> \<lparr>DurationSeconds = n, SetBy = actor, SetAt = at\<rparr>))"
proof (cases "ValidateTTL d = None \<and> may actor ch s")
  case True
  then show ?thesis
    using set_ttl [OF assms(1)] assms(2) valid_TTL_seconds [of d] by blast
next
  case False
  then show ?thesis using set_ttl [OF assms(1)] by auto
qed

lemma clear_result:
  assumes "ClearTTL api actor ch s = (er, s')"
  shows "settings s' = settings s \<or> may actor ch s \<and> settings s' = (settings s)(ch := None)"
  using clear_ttl [OF assms] by auto

lemma clear_accepted: "ClearTTL api actor ch s = (None, s') \<Longrightarrow> may actor ch s"
  using clear_ttl by fastforce

end

definition ttl_of :: "(string \<Rightarrow> TTLSetting option) \<Rightarrow> string \<Rightarrow> duration option" where
  "ttl_of m ch = map_option (\<lambda>t. DurationSeconds t * Second) (m ch)"

definition ttlService :: "'s ttl_store \<Rightarrow> 's perm_api \<Rightarrow> 's ttl_api" where
  "ttlService store perm = \<lparr>SetTTL = Service_SetTTL store perm, GetSetting = Service_GetSetting store,
     ClearTTL = Service_ClearTTL store perm\<rparr>"

lemma ttlService_sel [simp]:
  "SetTTL (ttlService store perm) = Service_SetTTL store perm"
  "GetSetting (ttlService store perm) = Service_GetSetting store"
  "ClearTTL (ttlService store perm) = Service_ClearTTL store perm"
  by (simp_all add: ttlService_def)

sublocale ttl_setting_store \<subseteq> reader: ttl_reader
  "Service_GetTTL st" "\<lambda>s. ttl_of (settings s)" other
proof
  fix ch s r s'
  assume a: "Service_GetTTL st ch s = (r, s')"
  obtain g s1 where g: "st_Get st ch s = (g, s1)" by (cases "st_Get st ch s")
  show "ttl_of (settings s') = ttl_of (settings s) \<and> other s' = other s
      \<and> (\<forall>v. r = Inr v \<longrightarrow> v = (case ttl_of (settings s) ch of None \<Rightarrow> (0, False) | Some d \<Rightarrow> (d, True)))"
    using a g st_get [OF g]
    by (auto simp: Service_GetTTL_def ttl_of_def split: sum.splits option.splits)
qed

sublocale ttl_setting_store \<subseteq> manager: ttl_manager
  "ttlService st perm" "may_manage perm" settings other for perm
proof
  fix ch s r s'
  assume "GetSetting (ttlService st perm) ch s = (r, s')"
  then show "settings s' = settings s \<and> other s' = other s \<and> (\<forall>v. r = Inr v \<longrightarrow> v = settings s ch)"
    using st_get by (simp add: Service_GetSetting_def)
next
  fix actor ch d at s er s'
  assume "SetTTL (ttlService st perm) actor ch d at s = (er, s')"
  then have a: "Service_SetTTL st perm actor ch d at s = (er, s')" by simp
  let ?t = "\<lparr>DurationSeconds = int64_Seconds d, SetBy = actor, SetAt = at\<rparr>"
  consider (invalid) "ValidateTTL d = Some ErrInvalidTTL" "er = Some ErrInvalidTTL" "s' = s"
    | (refused) "ValidateTTL d = None" "\<not> may_manage perm actor ch s" "er \<noteq> None" "s' = s"
    | (stored) "ValidateTTL d = None" "may_manage perm actor ch s" "st_Set st ch ?t s = (er, s')"
    using a ValidateTTL_cases [of d] checkCanManage_None_iff [of perm actor ch s]
    unfolding Service_SetTTL_eq by (metis prod.inject)
  then show "other s' = other s \<and> (\<forall>c. c \<noteq> ch \<longrightarrow> settings s' c = settings s c)
      \<and> (ValidateTTL d \<noteq> None \<longrightarrow> er = Some ErrInvalidTTL \<and> s' = s)
      \<and> (ValidateTTL d = None \<and> \<not> may_manage perm actor ch s \<longrightarrow> er \<noteq> None \<and> s' = s)
      \<and> (er = None \<and> valid_utf8 actor \<longrightarrow> settings s' = (settings s)(ch \<mapsto> ?t))
      \<and> (valid_utf8 actor \<longrightarrow> settings s' = settings s \<or> settings s' = (settings s)(ch \<mapsto> ?t))"
  proof cases
    case stored
    then show ?thesis using st_set [OF stored(3)] by auto
  qed auto
next
  fix actor ch s er s'
  assume "ClearTTL (ttlService st perm) actor ch s = (er, s')"
  then show "other s' = other s \<and> (\<forall>c. c \<noteq> ch \<longrightarrow> settings s' c = settings s c)
      \<and> (\<not> may_manage perm actor ch s \<longrightarrow> er \<noteq> None \<and> s' = s)
      \<and> (er = None \<longrightarrow> settings s' = (settings s)(ch := None))
      \<and> (settings s' = settings s \<or> settings s' = (settings s)(ch := None))"
    using checkCanManage_None_iff [of perm actor ch s] st_clear [of ch s er s']
    by (cases "Service_checkCanManage perm actor ch s") (auto simp: Service_ClearTTL_def)
qed

end
