(* ===== verification/Expiry_Service.thy ===== *)
theory Expiry_Service
  imports TTL_Service Expire_Store
begin

section \<open>Indexing new posts (\<open>server/expiry/service.go\<close>)\<close>

text \<open>
  The service computes a post's expiry from the channel's TTL and, for a reply, moves the
  whole thread to it. The lemmas are proved in the locale \<open>expiry_ports\<close> from the contracts of
  its two ports and interpreted on the SQL store and the key-value store. \<open>map_created\<close> and
  \<open>map_posted\<close> are the specification: what the service does to the index as a map.
\<close>

text \<open>What the code reads of a \<open>*model.Post\<close>.\<close>

record post =
  Post_Id :: string
  Post_ChannelId :: string
  Post_RootId :: string
  Post_CreateAt :: int64

definition threadRoot :: "post \<Rightarrow> string" where
  "threadRoot post = (if Post_RootId post \<noteq> '''' then Post_RootId post else Post_Id post)"

type_synonym expiry_error = "ttl_error + expire_error"

definition Service_Migrate :: "'s expire_store \<Rightarrow> 's \<Rightarrow> expire_error option \<times> 's" where
  "Service_Migrate store s = ix_Migrate store s"

text \<open>\<open>now\<close> is what the service's clock returns.\<close>

definition OnPostCreated ::
  "'s expire_store \<Rightarrow> 's ttl_read \<Rightarrow> int64 \<Rightarrow> post \<Rightarrow> 's \<Rightarrow> expiry_error option \<times> 's" where
  "OnPostCreated store getTTL now post s =
     (case getTTL (Post_ChannelId post) s of
        (Inl err, s1) \<Rightarrow> (Some (Inl err), s1)
      | (Inr (d, hasTTL), s1) \<Rightarrow>
          if \<not> hasTTL then (None, s1)
          else
            let expireAt = Post_CreateAt post + Milliseconds d; root = threadRoot post in
            case ix_Upsert store
                \<lparr>PostID = Post_Id post, ChannelID = Post_ChannelId post, RootID = root,
                 ExpireAt = expireAt, CreatedAt = now\<rparr> s1 of
              (Some err, s2) \<Rightarrow> (Some (Inr err), s2)
            | (None, s2) \<Rightarrow>
                if Post_RootId post \<noteq> '''' then
                  (case ix_UpdateExpireByRoot store root expireAt s2 of
                     (Some err, s3) \<Rightarrow> (Some (Inr err), s3)
                   | (None, s3) \<Rightarrow> (None, s3))
                else (None, s2))"

definition OnPostUpdated :: "post \<Rightarrow> 's \<Rightarrow> expiry_error option \<times> 's" where
  "OnPostUpdated post s = (None, s)"

subsection \<open>The specification on maps\<close>

definition expiry :: "duration \<Rightarrow> post \<Rightarrow> int64" where
  "expiry d post = Post_CreateAt post + Milliseconds d"

definition post_entry :: "duration \<Rightarrow> int64 \<Rightarrow> post \<Rightarrow> entry" where
  "post_entry d now post =
     \<lparr>PostID = Post_Id post, ChannelID = Post_ChannelId post, RootID = threadRoot post,
      ExpireAt = expiry d post, CreatedAt = now\<rparr>"

definition map_created :: "duration \<Rightarrow> int64 \<Rightarrow> post \<Rightarrow> index_map \<Rightarrow> index_map" where
  "map_created d now post m =
     (if Post_RootId post = '''' then map_upsert (post_entry d now post) m
      else map_bump (threadRoot post) (expiry d post) (map_upsert (post_entry d now post) m))"

definition map_posted ::
  "(string \<Rightarrow> duration option) \<Rightarrow> int64 \<Rightarrow> post \<Rightarrow> index_map \<Rightarrow> index_map" where
  "map_posted ttl now post m =
     (case ttl (Post_ChannelId post) of None \<Rightarrow> m | Some d \<Rightarrow> map_created d now post m)"

lemma post_entry_sel [simp]:
  "PostID (post_entry d now p) = Post_Id p" "RootID (post_entry d now p) = threadRoot p"
  "ChannelID (post_entry d now p) = Post_ChannelId p" "ExpireAt (post_entry d now p) = expiry d p"
  "CreatedAt (post_entry d now p) = now"
  by (simp_all add: post_entry_def)

lemma ExpireAt_same [simp]: "e\<lparr>ExpireAt := x\<rparr> = e \<longleftrightarrow> ExpireAt (e :: entry) = x"
  by (cases e) auto

lemma map_created_self:
  "\<exists>e. map_created d now p m (Post_Id p) = Some e \<and> RootID e = threadRoot p
     \<and> ChannelID e = Post_ChannelId p \<and> ExpireAt e = expiry d p"
  using map_upsert_same [of "post_entry d now p" m] by (auto simp: map_created_def map_bump_def)

lemma map_created_thread:
  assumes "Post_RootId p \<noteq> ''''" "map_created d now p m q = Some e" "RootID e = threadRoot p"
  shows "ExpireAt e = expiry d p"
  using assms by (auto simp: map_created_def map_bump_def split: if_splits)

text \<open>The entries that a post sets, and their expiry for a number of seconds that is stored.\<close>

lemma map_created_expiry:
  assumes "map_created d now p m q = Some e"
    and "q = Post_Id p \<or> Post_RootId p \<noteq> '''' \<and> RootID e = threadRoot p"
  shows "ExpireAt e = expiry d p"
  using assms map_created_self [of d now p m] map_created_thread [of p d now m q e] by auto

lemma expiry_exact:
  assumes "60 \<le> sint n" "sint n \<le> 31536000"
    and "0 \<le> sint (Post_CreateAt p)" "sint (Post_CreateAt p) \<le> 9200000000000000000"
  shows "sint (expiry (n * Second) p) = sint (Post_CreateAt p) + 1000 * sint n"
proof -
  have d: "sint (n * Second) = sint n * 1000000000" using assms(1,2) by (simp add: sint64_mult)
  then have m: "sint (Milliseconds (n * Second)) = 1000 * sint n" using assms(1) by (simp add: Milliseconds_nonneg)
  have "sint (Post_CreateAt p + Milliseconds (n * Second)) = sint (Post_CreateAt p) + sint (Milliseconds (n * Second))"
    by (rule sint64_add) (use assms m in linarith)+
  then show ?thesis by (simp add: expiry_def m)
qed

lemma map_created_other:
  assumes "m q = Some e" "RootID e \<noteq> threadRoot p" "q \<noteq> Post_Id p"
  shows "map_created d now p m q = Some e"
  using assms by (simp add: map_created_def map_upsert_other map_bump_other)

text \<open>What any entry other than the new one can become.\<close>

lemma map_created_cases:
  assumes "map_created d now p m q = Some e" "q \<noteq> Post_Id p"
  obtains "m q = Some e" "RootID e = threadRoot p \<Longrightarrow> Post_RootId p = ''''"
    | e0 where "m q = Some e0" "RootID e0 = RootID e" "RootID e = threadRoot p" "ExpireAt e = expiry d p"
  using assms by (auto simp: map_created_def map_upsert_other map_bump_def split: if_splits) blast

subsection \<open>Posts that arrive in order\<close>

text \<open>
  The comment in \<open>OnPostCreated\<close> argues that a reply refers to a root that is already there.
  \<open>in_order\<close> is that assumption for a sequence of posts, newest first: ids are fresh, and a
  reply's root is an earlier post of the same channel that is no reply itself.
\<close>

fun in_order :: "post list \<Rightarrow> bool" where
  "in_order [] = True"
| "in_order (p # ps) =
     (in_order ps \<and> Post_Id p \<notin> Post_Id ` set ps
      \<and> (Post_RootId p = '''' \<or> (\<exists>r\<in>set ps. Post_Id r = Post_RootId p \<and> Post_RootId r = ''''
            \<and> Post_ChannelId r = Post_ChannelId p)))"

text \<open>The index after the posts (newest first), each with the time it was indexed at.\<close>

fun indexed :: "(string \<Rightarrow> duration option) \<Rightarrow> (int64 \<times> post) list \<Rightarrow> index_map" where
  "indexed ttl [] = Map.empty"
| "indexed ttl ((now, p) # ps) = map_posted ttl now p (indexed ttl ps)"

lemma in_order_root: "in_order ps \<Longrightarrow> p \<in> set ps \<Longrightarrow> threadRoot p \<in> Post_Id ` set ps"
  by (induction ps) (force simp: threadRoot_def)+

lemma in_order_inj: "in_order ps \<Longrightarrow> inj_on Post_Id (set ps)"
  by (induction ps) auto

lemma in_order_root_channel:
  "in_order ps \<Longrightarrow> p \<in> set ps \<Longrightarrow> r \<in> set ps \<Longrightarrow> Post_Id r = threadRoot p
    \<Longrightarrow> Post_ChannelId r = Post_ChannelId p"
proof (induction ps)
  case (Cons x ps)
  note inj = in_order_inj [OF Cons.prems(1)]
  show ?case
  proof (cases "p = x")
    case True
    show ?thesis
    proof (cases "Post_RootId p = ''''")
      case True
      then have "r = p" using Cons.prems(2-4) by (intro inj_onD [OF inj]) (simp_all add: threadRoot_def)
      then show ?thesis by simp
    next
      case False
      then obtain r0 where "r0 \<in> set ps" "Post_Id r0 = threadRoot p" "Post_ChannelId r0 = Post_ChannelId p"
        using Cons.prems(1) True by (auto simp: threadRoot_def)
      then show ?thesis using inj Cons.prems(3,4) by (metis inj_onD list.set_intros(2))
    qed
  next
    case False
    then have "p \<in> set ps" using Cons.prems(2) by simp
    then have "r \<in> set ps"
      using Cons.prems in_order_root [of ps p] by auto
    with \<open>p \<in> set ps\<close> show ?thesis using Cons by simp
  qed
qed simp

lemma in_order_thread_channel:
  assumes "in_order ps" "p \<in> set ps" "p' \<in> set ps" "threadRoot p = threadRoot p'"
  shows "Post_ChannelId p = Post_ChannelId p'"
proof -
  obtain r where "r \<in> set ps" "Post_Id r = threadRoot p"
    using in_order_root [OF assms(1,2)] by auto
  then show ?thesis using in_order_root_channel [OF assms(1)] assms(2-4) by metis
qed

lemma indexed_entry:
  "indexed ttl ps q = Some e \<Longrightarrow> \<exists>p\<in>snd ` set ps. Post_Id p = q \<and> threadRoot p = RootID e
     \<and> Post_ChannelId p = ChannelID e \<and> ttl (ChannelID e) \<noteq> None"
proof (induction ttl ps arbitrary: q e rule: indexed.induct)
  case (2 ttl now p ps)
  show ?case
  proof (cases "ttl (Post_ChannelId p)")
    case None
    then have "indexed ttl ps q = Some e" using "2.prems" by (simp add: map_posted_def)
    then show ?thesis using "2.IH" by force
  next
    case (Some d)
    then have e: "map_created d now p (indexed ttl ps) q = Some e"
      using "2.prems" by (simp add: map_posted_def)
    show ?thesis
    proof (cases "q = Post_Id p")
      case True
      then show ?thesis using e Some map_created_self [of d now p "indexed ttl ps"] by force
    next
      case False
      then have "\<exists>e0. indexed ttl ps q = Some e0 \<and> RootID e0 = RootID e \<and> ChannelID e0 = ChannelID e"
        using e by (auto simp: map_created_def map_upsert_other map_bump_def split: if_splits)
      then show ?thesis using "2.IH" by fastforce
    qed
  qed
qed simp

text \<open>
  In order, the expiry of an entry is the one of the newest post of its thread.
\<close>

lemma indexed_thread:
  assumes "in_order (map snd ps)" "indexed ttl ps q = Some e"
  shows "\<exists>p d. find (\<lambda>p. threadRoot p = RootID e) (map snd ps) = Some p
    \<and> Post_ChannelId p = ChannelID e \<and> ttl (ChannelID e) = Some d \<and> ExpireAt e = expiry d p"
  using assms
proof (induction ttl ps arbitrary: q e rule: indexed.induct)
  case (2 ttl now p ps)
  have o: "in_order (map snd ps)" "Post_Id p \<notin> Post_Id ` set (map snd ps)"
    using "2.prems" by auto
  obtain p' where p': "p' \<in> snd ` set ((now, p) # ps)" "threadRoot p' = RootID e"
      "Post_ChannelId p' = ChannelID e" "ttl (ChannelID e) \<noteq> None"
    using indexed_entry [OF "2.prems"(2)] by blast
  have ch: "Post_ChannelId p = ChannelID e" if "threadRoot p = RootID e"
    using in_order_thread_channel [OF "2.prems"(1), of p p'] p' that by auto
  show ?case
  proof (cases "threadRoot p = RootID e")
    case False
    have "indexed ttl ps q = Some e"
    proof (cases "ttl (Post_ChannelId p)")
      case None
      then show ?thesis using "2.prems"(2) by (simp add: map_posted_def)
    next
      case (Some d)
      then have e: "map_created d now p (indexed ttl ps) q = Some e"
        using "2.prems"(2) by (simp add: map_posted_def)
      moreover have "q \<noteq> Post_Id p"
        using e False map_created_self [of d now p "indexed ttl ps"] by auto
      ultimately show ?thesis using False by (cases rule: map_created_cases) simp_all
    qed
    then show ?thesis using "2.IH" [OF o(1)] False by simp
  next
    case True
    obtain d where d: "ttl (ChannelID e) = Some d" using p'(4) by auto
    then have e: "map_created d now p (indexed ttl ps) q = Some e"
      using "2.prems"(2) ch [OF True] by (simp add: map_posted_def)
    have "ExpireAt e = expiry d p"
    proof (cases "q = Post_Id p")
      case True
      then show ?thesis using e map_created_self [of d now p "indexed ttl ps"] by auto
    next
      case False
      show ?thesis using e False
      proof (cases rule: map_created_cases)
        case 1
        have "threadRoot p = Post_Id p" using 1(2) [OF True [symmetric]] by (simp add: threadRoot_def)
        obtain p0 where "p0 \<in> snd ` set ps" "threadRoot p0 = RootID e"
          using indexed_entry [OF 1(1)] by blast
        then have "RootID e \<in> Post_Id ` set (map snd ps)"
          using in_order_root [OF o(1), of p0] by simp
        then have False using o(2) True \<open>threadRoot p = Post_Id p\<close> by metis
        then show ?thesis ..
      qed
    qed
    then show ?thesis using True ch d by simp
  qed
qed simp

text \<open>The posts (newest first) handed to the service one after the other, until one fails.\<close>

fun index_posts ::
  "'s expire_store \<Rightarrow> 's ttl_read \<Rightarrow> (int64 \<times> post) list \<Rightarrow> 's \<Rightarrow> expiry_error option \<times> 's" where
  "index_posts store getTTL [] s = (None, s)"
| "index_posts store getTTL ((now, p) # ps) s =
     (case index_posts store getTTL ps s of
        (Some err, s1) \<Rightarrow> (Some err, s1)
      | (None, s1) \<Rightarrow> OnPostCreated store getTTL now p s1)"

subsection \<open>From the contracts of the ports\<close>

locale expiry_ports =
  store: expire_index ix index ok rest +
  reader: ttl_reader getTTL ttl other
  for ix :: "'s expire_store"
    and index :: "'s \<Rightarrow> index_map"
    and ok :: "'s \<Rightarrow> bool"
    and rest :: "'s \<Rightarrow> 'r"
    and getTTL :: "'s ttl_read"
    and ttl :: "'s \<Rightarrow> string \<Rightarrow> duration option"
    and other :: "'s \<Rightarrow> 'f" +
  assumes other_index: "other s' = other s \<Longrightarrow> index s' = index s \<and> ok s' = ok s"
    and rest_ttl: "rest s' = rest s \<Longrightarrow> ttl s' = ttl s"
begin

text \<open>
  A success has done what the specification says; an error may leave the work undone, or done
  up to the failing statement.
\<close>

lemma created:
  assumes s: "ok s" and c: "OnPostCreated ix getTTL now p s = (er, s')"
  shows "ok s' \<and> ttl s' = ttl s \<and>
    (if er = None then index s' = map_posted (ttl s) now p (index s)
     else index s' = index s \<or> (\<exists>d. ttl s (Post_ChannelId p) = Some d
        \<and> (index s' = map_upsert (post_entry d now p) (index s) \<or> index s' = map_created d now p (index s))))"
proof -
  obtain r s1 where g: "getTTL (Post_ChannelId p) s = (r, s1)"
    by (cases "getTTL (Post_ChannelId p) s")
  note r = reader.read_ttl [OF g]
  have s1: "index s1 = index s" "ok s1" "ttl s1 = ttl s" using r other_index [of s1 s] s by simp_all
  have v: "v = (case ttl s (Post_ChannelId p) of None \<Rightarrow> (0, False) | Some d \<Rightarrow> (d, True))"
    if "r = Inr v" for v using r that by blast
  consider (fails) e where "r = Inl e" | (off) d where "r = Inr (d, False)" "ttl s (Post_ChannelId p) = None"
    | (on) d where "r = Inr (d, True)" "ttl s (Post_ChannelId p) = Some d"
  proof (cases r)
    case (Inl e)
    then show ?thesis by (rule that(1))
  next
    case (Inr x)
    then show ?thesis using v [OF Inr] that(2,3)
      by (cases "ttl s (Post_ChannelId p)") simp_all
  qed
  then show ?thesis
  proof cases
    case (on d)
    let ?e = "post_entry d now p"
    obtain er2 s2 where u: "ix_Upsert ix ?e s1 = (er2, s2)" by (cases "ix_Upsert ix ?e s1")
    note u' = store.upsert [OF s1(2) u]
    have t2: "ttl s2 = ttl s" using u' rest_ttl [of s2 s1] s1 by simp
    obtain er3 s3 where b: "ix_UpdateExpireByRoot ix (threadRoot p) (expiry d p) s2 = (er3, s3)"
      by (cases "ix_UpdateExpireByRoot ix (threadRoot p) (expiry d p) s2")
    have b': "ok s3 \<and> rest s3 = rest s2 \<and> written (map_bump (threadRoot p) (expiry d p)) er3 (index s2) (index s3)"
      using store.bump [OF _ b] u' by blast
    have t3: "ttl s3 = ttl s" using b' rest_ttl [of s3 s2] t2 by simp
    have "OnPostCreated ix getTTL now p s =
      (if er2 \<noteq> None then (map_option Inr er2, s2)
       else if Post_RootId p \<noteq> '''' then (map_option Inr er3, s3) else (None, s2))"
      using g on u b
      by (cases er2; cases er3) (simp_all add: OnPostCreated_def post_entry_def expiry_def Let_def)
    with c have "(er, s') = (if er2 \<noteq> None then (map_option Inr er2, s2)
       else if Post_RootId p \<noteq> '''' then (map_option Inr er3, s3) else (None, s2))"
      by simp
    then show ?thesis
      using u' b' t2 t3 s1(1) on(2)
      by (cases er2; cases er3; cases "Post_RootId p = ''''")
        (auto simp: map_posted_def map_created_def written_def)
  qed (use c g s1 in \<open>auto simp: OnPostCreated_def map_posted_def\<close>)
qed

lemma created_success:
  assumes "ok s" "OnPostCreated ix getTTL now p s = (None, s')"
  shows "ok s'" "ttl s' = ttl s" "index s' = map_posted (ttl s) now p (index s)"
  using created [OF assms] by simp_all

lemma index_posts_indexed:
  assumes "ok s" "index s = Map.empty" "index_posts ix getTTL ps s = (None, s')"
  shows "ok s' \<and> ttl s' = ttl s \<and> index s' = indexed (ttl s) ps"
  using assms(3)
proof (induction ps arbitrary: s')
  case Nil
  then show ?case using assms(1,2) by simp
next
  case (Cons x ps)
  obtain now p where x: "x = (now, p)" by (cases x)
  then obtain s1 where s1: "index_posts ix getTTL ps s = (None, s1)"
      "OnPostCreated ix getTTL now p s1 = (None, s')"
    using Cons.prems by (auto split: prod.splits option.splits)
  note IH = Cons.IH [OF s1(1)]
  have "ok s1" using IH by blast
  from created_success [OF this s1(2)] show ?case using IH x by simp
qed

text \<open>Whatever the outcome, the entries of other threads stay.\<close>

lemma created_keeps_others:
  assumes "ok s" "OnPostCreated ix getTTL now p s = (er, s')"
    and "index s q = Some e" "RootID e \<noteq> threadRoot p" "q \<noteq> Post_Id p"
  shows "index s' q = Some e"
  using created [OF assms(1,2)] map_created_other [of "index s" q e p, OF assms(3-5)] assms(3,5)
  by (auto simp: map_posted_def map_upsert_other split: if_splits option.splits)

text \<open>A channel without a TTL: nothing is indexed, and there is nothing to fail but the lookup.\<close>

lemma created_off:
  assumes "ok s" "ttl s (Post_ChannelId p) = None" "OnPostCreated ix getTTL now p s = (er, s')"
  shows "index s' = index s"
  using created [OF assms(1,3)] assms(2) by (auto simp: map_posted_def split: if_splits)

end

subsection \<open>The ports of the plugin\<close>

text \<open>
  The SQL store and the TTL service over any key-value store that keeps its contract: they
  share the plugin's world, and neither touches what the other one reads.
\<close>

definition world_ttl :: "('w \<Rightarrow> string \<rightharpoonup> bytes) \<Rightarrow> 'w world \<Rightarrow> string \<Rightarrow> duration option" where
  "world_ttl cells s = ttl_of (settings_of (cells (srv s)))"

lemma outside_srv_index:
  "outside_srv s' = outside_srv s \<Longrightarrow> index_of s' = index_of s \<and> index_ok s' = index_ok s"
  by (simp add: outside_srv_def index_of_def index_ok_def)

sublocale world_kv \<subseteq> expiry: expiry_ports sqlStore index_of index_ok other_state
  "Service_GetTTL (kvStore_api NewKVStore (kv_of kv))" "world_ttl cells"
  "\<lambda>s. (other (srv s), outside_srv s)"
proof (intro expiry_ports.intro expiry_ports_axioms.intro)
  show "expire_index sqlStore index_of index_ok (other_state :: 'w world \<Rightarrow> _)"
    by (rule sql.expire_index_axioms)
  show "ttl_reader (Service_GetTTL (kvStore_api NewKVStore (kv_of kv))) (world_ttl cells)
      (\<lambda>s. (other (srv s), outside_srv s))"
    using in_world.store.reader.ttl_reader_axioms by (simp add: world_ttl_def [abs_def])
next
  fix s s' :: "'w world"
  assume "(other (srv s'), outside_srv s') = (other (srv s), outside_srv s)"
  then show "index_of s' = index_of s \<and> index_ok s' = index_ok s"
    by (intro outside_srv_index) simp
next
  fix s s' :: "'w world"
  assume "other_state s' = other_state s"
  then have "srv s' = srv s" by (cases s; cases s') (simp add: other_state_def)
  then show "world_ttl cells s' = world_ttl cells s" by (simp add: world_ttl_def)
qed

context world_kv
begin

lemma expiry_contract: "expiry_ports sqlStore index_of index_ok other_state
    (Service_GetTTL (kvStore_api NewKVStore (kv_of kv))) (world_ttl cells) (\<lambda>s. (other (srv s), outside_srv s))"
  by (rule expiry.expiry_ports_axioms)

end

end
