(* ===== verification/Api_Handler.thy ===== *)
theory Api_Handler
  imports TTL_Service
begin

section \<open>The HTTP API (\<open>server/api/handler.go\<close>)\<close>

text \<open>
  Routing, the three handlers, the mapping of errors to statuses and the broadcast. The
  service behind the interface \<open>TTLManager\<close> is a record \<open>ttl_api\<close>; the WebSocket events are
  the trace in the world. A request is what the code reads of it: its method (any but CONNECT),
  its decoded path, the value of the header \<open>Mattermost-User-ID\<close> (empty when it is missing) and
  the bytes of its body. Of a response the status and the value that is encoded as its body
  are kept; the text of an error body is given by the error it is the text of.
\<close>

definition PluginID :: string where
  "PluginID = ''com.mattermost.plugin-message-disappear''"

definition EventTTLChanged :: string where
  "EventTTLChanged = ''ttl_changed''"

record http_request =
  rq_method :: string
  rq_path :: string
  rq_user :: string
  rq_body :: bytes

datatype message = Text string | ErrorText ttl_error

text \<open>\<open>MuxBody\<close> stands for the pages of \<open>http.ServeMux\<close> itself.\<close>

datatype resp_body =
    NoBody
  | MuxBody
  | MessageBody message
  | SettingBody ttlDTO
  | GetBody "ttlDTO option"

record http_response =
  status :: int
  resp_body :: resp_body

record setTTLRequest =
  req_ChannelID :: string
  req_TTLSeconds :: int64

definition setTTLRequest_fields :: "setTTLRequest field list" where
  "setTTLRequest_fields =
     [(''channel_id'', string_field (\<lambda>c r. r\<lparr>req_ChannelID := c\<rparr>)),
      (''ttl_seconds'', int64_field (\<lambda>i r. r\<lparr>req_TTLSeconds := i\<rparr>))]"

definition toDTO :: "TTLSetting option \<Rightarrow> ttlDTO option" where
  "toDTO s = (case s of
     None \<Rightarrow> None
   | Some s \<Rightarrow> Some \<lparr>dto_DurationSeconds = DurationSeconds s, dto_SetBy = SetBy s, dto_SetAt = SetAt s\<rparr>)"

definition writeError :: "int \<Rightarrow> message \<Rightarrow> http_response" where
  "writeError st msg = \<lparr>status = st, resp_body = MessageBody msg\<rparr>"

definition writeDomainError :: "ttl_error \<Rightarrow> http_response" where
  "writeDomainError err =
     (case err of
        ErrInvalidTTL \<Rightarrow> writeError 400 (ErrorText err)
      | ErrForbidden \<Rightarrow> writeError 403 (ErrorText err)
      | ErrChannelNotFound _ _ \<Rightarrow> writeError 404 (ErrorText err)
      | ErrTooManyRetries \<Rightarrow> writeError 409 (ErrorText err)
      | _ \<Rightarrow> writeError 500 (ErrorText err))"

definition broadcast :: "string \<Rightarrow> ttlDTO option \<Rightarrow> 'w world \<Rightarrow> 'w world" where
  "broadcast channelID t s = PublishWebSocketEvent EventTTLChanged channelID t channelID s"

definition missing_user :: message where
  "missing_user = Text ''missing Mattermost-User-ID''"

subsection \<open>The handlers\<close>

text \<open>\<open>now\<close> is \<open>time.Now().UnixMilli()\<close>.\<close>

definition handleSet ::
  "('w world) ttl_api \<Rightarrow> int64 \<Rightarrow> http_request \<Rightarrow> 'w world \<Rightarrow> http_response \<times> 'w world" where
  "handleSet ttl now r s =
     (let actorID = rq_user r in
      if actorID = '''' then (writeError 401 missing_user, s)
      else
        case Decode setTTLRequest_fields (rq_body r) \<lparr>req_ChannelID = '''', req_TTLSeconds = 0\<rparr> of
          None \<Rightarrow> (writeError 400 (Text ''invalid JSON body''), s)
        | Some req \<Rightarrow>
            if req_ChannelID req = '''' \<or> sint (req_TTLSeconds req) < 0 then
              (writeError 400 (Text ''channel_id required and ttl_seconds must be non-negative''), s)
            else
              let duration = req_TTLSeconds req * Second in
              case SetTTL ttl actorID (req_ChannelID req) duration now s of
                (Some err, s1) \<Rightarrow> (writeDomainError err, s1)
              | (None, s1) \<Rightarrow>
                  let dto = \<lparr>dto_DurationSeconds = req_TTLSeconds req, dto_SetBy = actorID, dto_SetAt = now\<rparr> in
                  (\<lparr>status = 201, resp_body = SettingBody dto\<rparr>, broadcast (req_ChannelID req) (Some dto) s1))"

definition handleGet ::
  "('w world) ttl_api \<Rightarrow> string \<Rightarrow> http_request \<Rightarrow> 'w world \<Rightarrow> http_response \<times> 'w world" where
  "handleGet ttl channelID r s =
     (let actorID = rq_user r in
      if actorID = '''' then (writeError 401 missing_user, s)
      else
        case GetSetting ttl channelID s of
          (Inl err, s1) \<Rightarrow> (writeDomainError err, s1)
        | (Inr setting, s1) \<Rightarrow> (\<lparr>status = 200, resp_body = GetBody (toDTO setting)\<rparr>, s1))"

definition handleDelete ::
  "('w world) ttl_api \<Rightarrow> string \<Rightarrow> http_request \<Rightarrow> 'w world \<Rightarrow> http_response \<times> 'w world" where
  "handleDelete ttl channelID r s =
     (let actorID = rq_user r in
      if actorID = '''' then (writeError 401 missing_user, s)
      else
        case ClearTTL ttl actorID channelID s of
          (Some err, s1) \<Rightarrow> (writeDomainError err, s1)
        | (None, s1) \<Rightarrow> (\<lparr>status = 204, resp_body = NoBody\<rparr>, broadcast channelID None s1))"

subsection \<open>Routing\<close>

text \<open>
  \<open>http.ServeMux\<close> with the three patterns of \<open>New\<close>: a path that is not clean is redirected, a
  wildcard matches one segment that is not empty, \<open>GET\<close> serves \<open>HEAD\<close> as well, and a path that
  a pattern of another method matches is a 405.
\<close>

datatype route = RouteSet | RouteGet string | RouteDelete string | RouteError int

fun clean_segments :: "string list \<Rightarrow> bool" where
  "clean_segments [] = True"
| "clean_segments [x] = (x \<noteq> ''.'' \<and> x \<noteq> ''..'')"
| "clean_segments (x # y # xs) =
     (x \<noteq> '''' \<and> x \<noteq> ''.'' \<and> x \<noteq> ''..'' \<and> clean_segments (y # xs))"

definition mux_route :: "string \<Rightarrow> string \<Rightarrow> route" where
  "mux_route method path =
     (case Split path (CHR ''/'') of
        [] \<Rightarrow> RouteError 301
      | s0 # segs \<Rightarrow>
          if s0 \<noteq> '''' \<or> segs = [] \<or> \<not> clean_segments segs then RouteError 301
          else
            (case segs of
               [a] \<Rightarrow>
                 if a = ''ttl'' then (if method = ''POST'' then RouteSet else RouteError 405)
                 else RouteError 404
             | [a, b] \<Rightarrow>
                 if a = ''ttl'' \<and> b \<noteq> '''' then
                   (if method = ''GET'' \<or> method = ''HEAD'' then RouteGet b
                    else if method = ''DELETE'' then RouteDelete b
                    else RouteError 405)
                 else RouteError 404
             | _ \<Rightarrow> RouteError 404))"

definition Handler_ServeHTTP ::
  "('w world) ttl_api \<Rightarrow> int64 \<Rightarrow> http_request \<Rightarrow> 'w world \<Rightarrow> http_response \<times> 'w world" where
  "Handler_ServeHTTP ttl now r s =
     (let path = (case CutPrefix (rq_path r) (''/plugins/'' @ PluginID) of
          Some rest \<Rightarrow> rest | None \<Rightarrow> rq_path r) in
      case mux_route (rq_method r) path of
        RouteSet \<Rightarrow> handleSet ttl now r s
      | RouteGet channelID \<Rightarrow> handleGet ttl channelID r s
      | RouteDelete channelID \<Rightarrow> handleDelete ttl channelID r s
      | RouteError st \<Rightarrow> (\<lparr>status = st, resp_body = MuxBody\<rparr>, s))"

subsection \<open>Routes\<close>

text \<open>Where the requests of the API go; \<open>clean\<close> channel ids hold no slash and are no dot segment.\<close>

definition plain_id :: "string \<Rightarrow> bool" where
  "plain_id ch \<longleftrightarrow> ch \<noteq> '''' \<and> ch \<noteq> ''.'' \<and> ch \<noteq> ''..'' \<and> CHR ''/'' \<notin> set ch"

lemma Split_from_none: "c \<notin> set s \<Longrightarrow> Split_from cur s c = [rev cur @ s]"
  by (induction s arbitrary: cur) auto

lemma Split_from_cons: "c \<notin> set x \<Longrightarrow> Split_from cur (x @ c # s) c = (rev cur @ x) # Split s c"
  by (induction x arbitrary: cur) (auto simp: Split_def)

lemma Split_Cons: "c \<notin> set x \<Longrightarrow> Split (x @ c # s) c = x # Split s c"
  using Split_from_cons [of c x "[]" s] by (simp add: Split_def)

lemma mux_route_set: "mux_route m ''/ttl'' = (if m = ''POST'' then RouteSet else RouteError 405)"
  by (simp add: mux_route_def Split_def)

lemma mux_route_channel:
  assumes "plain_id ch"
  shows "mux_route m (''/ttl/'' @ ch) =
    (if m = ''GET'' \<or> m = ''HEAD'' then RouteGet ch
     else if m = ''DELETE'' then RouteDelete ch else RouteError 405)"
proof -
  have "Split (''/ttl/'' @ ch) (CHR ''/'') = ['''', ''ttl'', ch]"
    using Split_Cons [of "CHR ''/''" "''''" "''ttl/'' @ ch"] Split_Cons [of "CHR ''/''" "''ttl''" ch]
      Split_from_none [of "CHR ''/''" ch "[]"] assms
    by (simp add: plain_id_def Split_def)
  then show ?thesis using assms by (simp add: mux_route_def plain_id_def)
qed

text \<open>The channel id a handler gets is never empty and is one segment of the path.\<close>

lemma mux_route_id:
  assumes "mux_route m path = RouteGet ch \<or> mux_route m path = RouteDelete ch"
  shows "plain_id ch"
proof -
  obtain s0 a where "Split path (CHR ''/'') = [s0, a, ch]" "ch \<noteq> ''''" "clean_segments [a, ch]"
    using assms by (auto simp: mux_route_def split: list.splits if_splits)
  then show ?thesis using Split_no_sep [of ch path "CHR ''/''"] by (simp add: plain_id_def)
qed

subsection \<open>The ways a handler can end\<close>

abbreviation decode_set :: "http_request \<Rightarrow> setTTLRequest option" where
  "decode_set r \<equiv>
     Decode setTTLRequest_fields (rq_body r) \<lparr>req_ChannelID = '''', req_TTLSeconds = 0\<rparr>"

definition set_dto :: "int64 \<Rightarrow> http_request \<Rightarrow> setTTLRequest \<Rightarrow> ttlDTO" where
  "set_dto now r req =
     \<lparr>dto_DurationSeconds = req_TTLSeconds req, dto_SetBy = rq_user r, dto_SetAt = now\<rparr>"

text \<open>
  The body that the webapp's client sends (\<open>webapp/src/client.ts\<close>) decodes to the request.
\<close>

definition set_request_body :: "string \<Rightarrow> int64 \<Rightarrow> bytes" where
  "set_request_body ch n = ''{'' @ json_name ''channel_id'' @ json_quote ch
     @ '','' @ json_name ''ttl_seconds'' @ FormatInt n @ ''}''"

lemma decode_set_request_body:
  assumes "valid_utf8 ch" "rq_body r = set_request_body ch n"
  shows "decode_set r = Some \<lparr>req_ChannelID = ch, req_TTLSeconds = n\<rparr>"
proof -
  have k: "valid_utf8 ''channel_id''" "valid_utf8 ''ttl_seconds''"
    by (simp_all add: valid_utf8_ascii)
  have "json_read [] (set_request_body ch n) = Some (JObj
      [(''channel_id'', JStr ch), (''ttl_seconds'', JNum (FormatInt n))], [])"
    using assms k
    by (simp add: set_request_body_def read_open read_int_member read_string_member fill_comma
        fill_close maxNestingDepth_def del: json_fill.simps(3))
  then show ?thesis
    by (simp add: assms(2) Decode_def skip_ws_def decode_struct_def field_for_def
        setTTLRequest_fields_def int64_field_def string_field_def ParseInt_FormatInt)
qed

lemma writeDomainError_status: "status (writeDomainError e) \<in> {400, 403, 404, 409, 500}"
  by (cases e) (simp_all add: writeDomainError_def writeError_def)

lemma writeDomainError_no_success [simp]:
  "status (writeDomainError e) \<noteq> 200" "status (writeDomainError e) \<noteq> 201"
  "status (writeDomainError e) \<noteq> 204"
  using writeDomainError_status [of e] by auto

lemma handleSet_cases:
  assumes "handleSet ttl now r s = (resp, s')"
  obtains (refused) "status resp = 400 \<or> status resp = 401" "s' = s"
  | (failed) req err where "rq_user r \<noteq> ''''" "decode_set r = Some req" "req_ChannelID req \<noteq> ''''"
      "0 \<le> sint (req_TTLSeconds req)"
      "SetTTL ttl (rq_user r) (req_ChannelID req) (req_TTLSeconds req * Second) now s = (Some err, s')"
      "resp = writeDomainError err"
  | (created) req s1 where "rq_user r \<noteq> ''''" "decode_set r = Some req" "req_ChannelID req \<noteq> ''''"
      "0 \<le> sint (req_TTLSeconds req)"
      "SetTTL ttl (rq_user r) (req_ChannelID req) (req_TTLSeconds req * Second) now s = (None, s1)"
      "resp = \<lparr>status = 201, resp_body = SettingBody (set_dto now r req)\<rparr>"
      "s' = broadcast (req_ChannelID req) (Some (set_dto now r req)) s1"
proof (cases "decode_set r")
  case None
  then show ?thesis using assms refused
    by (cases "rq_user r = ''''") (auto simp: handleSet_def writeError_def Let_def)
next
  case (Some req)
  show ?thesis
  proof (cases "rq_user r = '''' \<or> req_ChannelID req = '''' \<or> sint (req_TTLSeconds req) < 0")
    case True
    then show ?thesis using assms refused Some
      by (cases "rq_user r = ''''") (auto simp: handleSet_def writeError_def Let_def)
  next
    case False
    obtain er s1 where
      t: "SetTTL ttl (rq_user r) (req_ChannelID req) (req_TTLSeconds req * Second) now s = (er, s1)"
      by (cases "SetTTL ttl (rq_user r) (req_ChannelID req) (req_TTLSeconds req * Second) now s")
    show ?thesis
    proof (cases er)
      case None
      show ?thesis
        by (rule created [of req s1])
          (use assms Some False t None in \<open>auto simp: handleSet_def set_dto_def Let_def\<close>)
    next
      case err: (Some e)
      show ?thesis
        by (rule failed [of req e]) (use assms Some False t err in \<open>simp_all add: handleSet_def\<close>)
    qed
  qed
qed

lemma handleDelete_cases:
  assumes "handleDelete ttl ch r s = (resp, s')"
  obtains (refused) "rq_user r = ''''" "status resp = 401" "s' = s"
  | (failed) err where "rq_user r \<noteq> ''''" "ClearTTL ttl (rq_user r) ch s = (Some err, s')"
      "resp = writeDomainError err"
  | (deleted) s1 where "rq_user r \<noteq> ''''" "ClearTTL ttl (rq_user r) ch s = (None, s1)"
      "resp = \<lparr>status = 204, resp_body = NoBody\<rparr>" "s' = broadcast ch None s1"
proof (cases "rq_user r = ''''")
  case True
  then show ?thesis using assms refused by (auto simp: handleDelete_def writeError_def)
next
  case False
  obtain er s1 where t: "ClearTTL ttl (rq_user r) ch s = (er, s1)" by (cases "ClearTTL ttl (rq_user r) ch s")
  show ?thesis
  proof (cases er)
    case None
    show ?thesis by (rule deleted [of s1]) (use assms False t None in \<open>simp_all add: handleDelete_def\<close>)
  next
    case (Some err)
    show ?thesis by (rule failed [of err]) (use assms False t Some in \<open>simp_all add: handleDelete_def\<close>)
  qed
qed

lemma handleGet_cases:
  assumes "handleGet ttl ch r s = (resp, s')"
  obtains (refused) "rq_user r = ''''" "status resp = 401" "s' = s"
  | (failed) err where "rq_user r \<noteq> ''''" "GetSetting ttl ch s = (Inl err, s')" "resp = writeDomainError err"
  | (found) v where "rq_user r \<noteq> ''''" "GetSetting ttl ch s = (Inr v, s')"
      "resp = \<lparr>status = 200, resp_body = GetBody (toDTO v)\<rparr>"
proof (cases "rq_user r = ''''")
  case True
  then show ?thesis using assms refused by (auto simp: handleGet_def writeError_def)
next
  case False
  obtain v s1 where t: "GetSetting ttl ch s = (v, s1)" by (cases "GetSetting ttl ch s")
  show ?thesis
  proof (cases v)
    case (Inl err)
    show ?thesis by (rule failed [of err]) (use assms False t Inl in \<open>simp_all add: handleGet_def\<close>)
  next
    case (Inr x)
    show ?thesis by (rule found [of x]) (use assms False t Inr in \<open>simp_all add: handleGet_def\<close>)
  qed
qed

text \<open>A request makes at most one call of the service, and publishes at most one event after it.\<close>

lemma serve_calls:
  assumes "Handler_ServeHTTP ttl now r s = (resp, s')"
  obtains (none) "s' = s"
  | (set) ch d er s1 t where "rq_user r \<noteq> ''''" "SetTTL ttl (rq_user r) ch d now s = (er, s1)"
      "s' = s1 \<or> s' = broadcast ch t s1"
  | (get) ch v where "GetSetting ttl ch s = (v, s')"
  | (clear) ch er s1 t where "rq_user r \<noteq> ''''" "ClearTTL ttl (rq_user r) ch s = (er, s1)"
      "s' = s1 \<or> s' = broadcast ch t s1"
proof -
  consider "s' = s" | "handleSet ttl now r s = (resp, s')" | ch where "handleGet ttl ch r s = (resp, s')"
    | ch where "handleDelete ttl ch r s = (resp, s')"
    using assms by (auto simp: Handler_ServeHTTP_def Let_def split: route.splits)
  then show ?thesis
  proof cases
    case 2
    then show ?thesis by (cases rule: handleSet_cases) (use none set in \<open>blast+\<close>)
  next
    case (3 ch)
    then show ?thesis by (cases rule: handleGet_cases) (use none get in \<open>blast+\<close>)
  next
    case (4 ch)
    then show ?thesis by (cases rule: handleDelete_cases) (use none clear in \<open>blast+\<close>)
  qed (rule none)
qed

subsection \<open>From the contract of the service\<close>

locale api_ports = ttl_manager ttl may settings other
  for ttl :: "('w world) ttl_api"
    and may :: "string \<Rightarrow> string \<Rightarrow> 'w world \<Rightarrow> bool"
    and settings :: "'w world \<Rightarrow> string \<Rightarrow> TTLSetting option"
    and other :: "'w world \<Rightarrow> 'f" +
  assumes other_events: "other s' = other s \<Longrightarrow> events s' = events s"
    and broadcast_settings: "settings (broadcast ch t s) = settings s"
begin

text \<open>
  What a created setting means: the request was well-formed, valid and permitted; the store
  holds the setting; the response and the one event tell the members of the channel.
\<close>

lemma set_created:
  assumes "handleSet ttl now r s = (resp, s')" "status resp = 201" "valid_utf8 (rq_user r)"
  obtains req where "decode_set r = Some req" "rq_user r \<noteq> ''''" "0 \<le> sint (req_TTLSeconds req)"
    "ValidateTTL (req_TTLSeconds req * Second) = None" "may (rq_user r) (req_ChannelID req) s"
    "settings s' = (settings s)(req_ChannelID req \<mapsto>
         \<lparr>DurationSeconds = int64_Seconds (req_TTLSeconds req * Second), SetBy = rq_user r, SetAt = now\<rparr>)"
    "resp_body resp = SettingBody (set_dto now r req)"
    "events s' = events s @ [\<lparr>ws_name = EventTTLChanged, ws_channel = req_ChannelID req,
         ws_ttl = Some (set_dto now r req), ws_broadcast_channel = req_ChannelID req\<rparr>]"
  using assms(1)
proof (cases rule: handleSet_cases)
  case refused
  then show ?thesis using assms(2) by simp
next
  case (failed req err)
  then show ?thesis using assms(2) writeDomainError_status [of err] by auto
next
  case (created req s1)
  note t = set_ttl [OF created(5)]
  have "events s1 = events s" using t other_events [of s1 s] by blast
  moreover have "ValidateTTL (req_TTLSeconds req * Second) = None \<and> may (rq_user r) (req_ChannelID req) s"
    by (rule set_accepted [OF created(5)])
  moreover have "settings s' = settings s1" by (simp add: created(7) broadcast_settings)
  ultimately show ?thesis
    using created t assms(3) by (intro that [of req]) (simp_all add: broadcast_def PublishWebSocketEvent_def)
qed

lemma delete_done:
  assumes "handleDelete ttl ch r s = (resp, s')" "status resp = 204"
  shows "rq_user r \<noteq> '''' \<and> may (rq_user r) ch s \<and> settings s' = (settings s)(ch := None)
    \<and> events s' = events s @ [\<lparr>ws_name = EventTTLChanged, ws_channel = ch, ws_ttl = None,
         ws_broadcast_channel = ch\<rparr>]"
  using assms(1)
proof (cases rule: handleDelete_cases)
  case refused
  then show ?thesis using assms(2) by simp
next
  case (failed err)
  then show ?thesis using assms(2) writeDomainError_status [of err] by auto
next
  case (deleted s1)
  have "events s1 = events s" using clear_ttl [OF deleted(2)] other_events [of s1 s] by blast
  then show ?thesis
    using clear_ttl [OF deleted(2)] clear_accepted [OF deleted(2)] deleted
    by (simp add: broadcast_settings) (simp add: broadcast_def PublishWebSocketEvent_def)
qed

text \<open>Reading changes no setting and tells nobody.\<close>

lemma get_reads:
  assumes "handleGet ttl ch r s = (resp, s')"
  shows "settings s' = settings s \<and> events s' = events s
    \<and> (status resp = 200 \<longrightarrow> resp_body resp = GetBody (toDTO (settings s ch)))"
  using assms
proof (cases rule: handleGet_cases)
  case (failed err)
  then show ?thesis
    using get_setting [OF failed(2)] other_events [of s' s] writeDomainError_status [of err] by auto
next
  case (found v)
  then show ?thesis using get_setting [OF found(2)] other_events [of s' s] by simp
qed simp

text \<open>Events go with the two statuses of success, one each, and with nothing else.\<close>

lemma events_iff_success:
  assumes "Handler_ServeHTTP ttl now r s = (resp, s')"
  shows "if status resp = 201 \<or> status resp = 204 then \<exists>e. events s' = events s @ [e]
    else events s' = events s"
proof -
  have e: "SetTTL ttl (rq_user r) ch d now s = (er, s1) \<Longrightarrow> events s1 = events s"
    "ClearTTL ttl (rq_user r) ch s = (er, s1) \<Longrightarrow> events s1 = events s" for ch d er s1
    using set_ttl [of "rq_user r" ch d now s er s1] clear_ttl [of "rq_user r" ch s er s1]
      other_events [of s1 s] by blast+
  consider (mux) st where "resp = \<lparr>status = st, resp_body = MuxBody\<rparr>" "s' = s" "st \<in> {301, 404, 405}"
    | (set) "handleSet ttl now r s = (resp, s')" | (get) ch where "handleGet ttl ch r s = (resp, s')"
    | (delete) ch where "handleDelete ttl ch r s = (resp, s')"
    using assms
    by (auto simp: Handler_ServeHTTP_def Let_def mux_route_def split: route.splits list.splits if_splits)
  then show ?thesis
  proof cases
    case set
    then show ?thesis
    proof (cases rule: handleSet_cases)
      case (failed req err)
      then show ?thesis using e(1) [OF failed(5)] writeDomainError_status [of err] by auto
    next
      case (created req s1)
      then show ?thesis using e(1) [OF created(5)] by (simp add: broadcast_def PublishWebSocketEvent_def)
    qed auto
  next
    case (get ch)
    have "status resp \<noteq> 201 \<and> status resp \<noteq> 204"
      using get by (cases rule: handleGet_cases) auto
    then show ?thesis using get_reads [OF get] by simp
  next
    case (delete ch)
    then show ?thesis
    proof (cases rule: handleDelete_cases)
      case (failed err)
      then show ?thesis using e(2) [OF failed(2)] writeDomainError_status [of err] by auto
    next
      case (deleted s1)
      then show ?thesis using e(2) [OF deleted(2)] by (simp add: broadcast_def PublishWebSocketEvent_def)
    qed auto
  qed auto
qed

text \<open>A request changes a channel's setting only for a user who may manage the channel.\<close>

lemma serve_changes:
  assumes "Handler_ServeHTTP ttl now r s = (resp, s')" "settings s' ch \<noteq> settings s ch"
  shows "rq_user r \<noteq> '''' \<and> may (rq_user r) ch s"
  using assms(1)
proof (cases rule: serve_calls)
  case (set c d er s1 t)
  then have "settings s' = settings s1" by (auto simp: broadcast_settings)
  then show ?thesis using set_changes [OF set(2)] set(1) assms(2) by auto
next
  case (get c v)
  then show ?thesis using get_setting [OF get] assms(2) by simp
next
  case (clear c er s1 t)
  then have "settings s' = settings s1" by (auto simp: broadcast_settings)
  then show ?thesis using clear_changes [OF clear(2)] clear(1) assms(2) by auto
qed (use assms(2) in simp)

lemma serve_settings:
  assumes "Handler_ServeHTTP ttl now r s = (resp, s')" "valid_utf8 (rq_user r)"
  obtains (same) "settings s' = settings s"
  | (set) ch n where "may (rq_user r) ch s" "60 \<le> sint n" "sint n \<le> 31536000"
      "settings s' = (settings s)(ch \<mapsto> \<lparr>DurationSeconds = n, SetBy = rq_user r, SetAt = now\<rparr>)"
  | (clear) ch where "may (rq_user r) ch s" "settings s' = (settings s)(ch := None)"
  using assms(1)
proof (cases rule: serve_calls)
  case (set c d er s1 t)
  then have "settings s' = settings s1" by (auto simp: broadcast_settings)
  then show ?thesis using set_result [OF set(2) assms(2)] that(1,2) by auto
next
  case (get c v)
  then show ?thesis using get_setting [OF get] that(1) by simp
next
  case (clear c er s1 t)
  then have "settings s' = settings s1" by (auto simp: broadcast_settings)
  then show ?thesis using clear_result [OF clear(2)] that(1,3) by auto
qed (use that(1) in simp)

text \<open>Whatever the calls leave alone and an event does not change survives a request.\<close>

lemma serve_frame:
  assumes "Handler_ServeHTTP ttl now r s = (resp, s')"
    and f: "\<And>s s'. other s' = other s \<Longrightarrow> f s' = f s" "\<And>ch t s. f (broadcast ch t s) = f s"
  shows "f s' = f s"
  using assms(1)
proof (cases rule: serve_calls)
  case (set c d er s1 t)
  then show ?thesis using set_ttl [OF set(2)] f(1) [of s1 s] by (auto simp: f(2))
next
  case (get c v)
  then show ?thesis using get_setting [OF get] f(1) [of s' s] by simp
next
  case (clear c er s1 t)
  then show ?thesis using clear_ttl [OF clear(2)] f(1) [of s1 s] by (auto simp: f(2))
qed simp

end

subsection \<open>The service of the plugin behind the API\<close>

sublocale world_kv \<subseteq> api: api_ports "ttlService (kvStore_api NewKVStore (kv_of kv)) perm"
  "may_manage perm" "\<lambda>s. settings_of (cells (srv s))" "\<lambda>s. (other (srv s), outside_srv s)"
  for perm
proof (intro api_ports.intro api_ports_axioms.intro)
  show "ttl_manager (ttlService (kvStore_api NewKVStore (kv_of kv)) perm) (may_manage perm)
      (\<lambda>s. settings_of (cells (srv s))) (\<lambda>s. (other (srv s), outside_srv s))"
    by (rule in_world.store.manager.ttl_manager_axioms)
qed (simp_all add: outside_srv_def broadcast_def)

context world_kv
begin

lemma api_contract: "api_ports (ttlService (kvStore_api NewKVStore (kv_of kv)) perm) (may_manage perm)
    (\<lambda>s. settings_of (cells (srv s))) (\<lambda>s. (other (srv s), outside_srv s))"
  by (rule api.api_ports_axioms)

end

text \<open>
  A request that is refused, for whatever reason, leaves no trace: no call to the key-value
  store was made. Only a failing store (409, 500) may have been called.
\<close>

lemma set_loop_error:
  "set_loop n kv ch v s = (Some e, s') \<Longrightarrow> status (writeDomainError e) \<in> {409, 500}"
  by (induction n kv ch v s rule: set_loop.induct)
    (auto simp: writeDomainError_def writeError_def split: prod.splits sum.splits if_splits)

lemma kvStore_Clear_error:
  "kvStore_Clear kv ch s = (Some e, s') \<Longrightarrow> status (writeDomainError e) = 500"
  by (auto simp: kvStore_Clear_def writeDomainError_def writeError_def split: prod.splits option.splits)

lemma kvStore_Get_error:
  "kvStore_Get kv ch s = (Inl e, s') \<Longrightarrow> status (writeDomainError e) = 500"
  by (auto simp: kvStore_Get_def writeDomainError_def writeError_def
      split: prod.splits sum.splits option.splits if_splits)

lemma refused_leaves_no_trace:
  assumes "Handler_ServeHTTP (ttlService (kvStore_api st kv) perm) now r s = (resp, s')"
    and "status resp \<in> {301, 400, 401, 403, 404, 405}"
  shows "s' = s"
proof -
  let ?ttl = "ttlService (kvStore_api st kv) perm"
  consider (mux) "s' = s" | (set) "handleSet ?ttl now r s = (resp, s')"
    | (get) ch where "handleGet ?ttl ch r s = (resp, s')"
    | (delete) ch where "handleDelete ?ttl ch r s = (resp, s')"
    using assms(1) by (auto simp: Handler_ServeHTTP_def Let_def split: route.splits)
  then show ?thesis
  proof cases
    case set
    then show ?thesis
    proof (cases rule: handleSet_cases)
      case (failed req err)
      from failed(5) have "s' = s \<or> (\<exists>t. kvStore_Set st kv (req_ChannelID req) t s = (Some err, s'))"
        by (auto simp: Service_SetTTL_def split: option.splits)
      then show ?thesis using assms(2) failed(6)
        by (auto simp: kvStore_Set_def dest!: set_loop_error)
    qed (use assms(2) in auto)
  next
    case (get ch)
    then show ?thesis
    proof (cases rule: handleGet_cases)
      case (failed err)
      then show ?thesis using assms(2) by (auto simp: Service_GetSetting_def dest!: kvStore_Get_error)
    qed (use assms(2) in auto)
  next
    case (delete ch)
    then show ?thesis
    proof (cases rule: handleDelete_cases)
      case (failed err)
      from failed(2) have "s' = s \<or> kvStore_Clear kv ch s = (Some err, s')"
        by (auto simp: Service_ClearTTL_def split: option.splits)
      then show ?thesis using assms(2) failed(3) by (auto dest!: kvStore_Clear_error)
    qed (use assms(2) in auto)
  qed
qed

end
