(* ===== verification/Go_Duration.thy ===== *)
theory Go_Duration
  imports Go_Time Go_Strconv
begin

section \<open>Durations as text (Go's \<open>time.ParseDuration\<close> and \<open>Duration.String\<close>)\<close>

text \<open>
  The accumulators of the parser are \<open>uint64\<close>s that the code keeps at or below \<open>2 ^ 63\<close> by
  its overflow checks, all but one: the sum of two of them wraps, which is written out. The
  fraction of a number goes through \<open>float64\<close>, as in the library.
\<close>

definition two63 :: nat where
  "two63 = 9223372036854775808"

fun leadingInt :: "nat \<Rightarrow> string \<Rightarrow> (nat \<times> string) option" where
  "leadingInt x [] = Some (x, [])"
| "leadingInt x (c # s) =
     (if \<not> is_digit c then Some (x, c # s)
      else if two63 div 10 < x then None
      else let y = x * 10 + digit_val c in if two63 < y then None else leadingInt y s)"

text \<open>Digits beyond what fits are skipped.\<close>

fun leadingFraction :: "nat \<Rightarrow> f64 \<Rightarrow> bool \<Rightarrow> string \<Rightarrow> nat \<times> f64 \<times> string" where
  "leadingFraction x scale overflow [] = (x, scale, [])"
| "leadingFraction x scale overflow (c # s) =
     (if \<not> is_digit c then (x, scale, c # s)
      else if overflow then leadingFraction x scale overflow s
      else if (two63 - 1) div 10 < x then leadingFraction x scale True s
      else
        let y = x * 10 + digit_val c in
        if two63 < y then leadingFraction x scale True s
        else leadingFraction y (f64_mul scale (f64_of_int 10)) overflow s)"

definition unitMap :: "string \<Rightarrow> nat option" where
  "unitMap = map_of
     [(''ns'', 1), (''us'', 1000), ([CHR 0xC2, CHR 0xB5] @ ''s'', 1000),
      ([CHR 0xCE, CHR 0xBC] @ ''s'', 1000), (''ms'', 1000000), (''s'', 1000000000),
      (''m'', 60000000000), (''h'', 3600000000000)]"

definition unit_char :: "char \<Rightarrow> bool" where
  "unit_char c \<longleftrightarrow> c \<noteq> CHR ''.'' \<and> \<not> is_digit c"

text \<open>One number with its unit: the nanoseconds, and the rest of the text.\<close>

definition parse_group :: "string \<Rightarrow> (nat \<times> string) option" where
  "parse_group s =
     (if s = [] \<or> hd s \<noteq> CHR ''.'' \<and> \<not> is_digit (hd s) then None
      else
        case leadingInt 0 s of
          None \<Rightarrow> None
        | Some (v, s1) \<Rightarrow>
            let pre = length s \<noteq> length s1;
                dot = s1 \<noteq> [] \<and> hd s1 = CHR ''.'';
                (f, scale, s2) = (if dot then leadingFraction 0 (f64_of_int 1) False (tl s1)
                                  else (0, f64_of_int 1, s1));
                post = dot \<and> length (tl s1) \<noteq> length s2;
                u = takeWhile unit_char s2;
                s3 = dropWhile unit_char s2 in
            if \<not> pre \<and> \<not> post then None
            else if u = [] then None
            else
              (case unitMap u of
                 None \<Rightarrow> None
               | Some unit \<Rightarrow>
                   if two63 div unit < v then None
                   else
                     let w = v * unit
                       + (if 0 < f then
                            nat (f64_trunc (f64_mul (f64_of_int (int f))
                              (f64_div (f64_of_int (int unit)) scale)))
                          else 0) in
                     if 0 < f \<and> two63 < w then None else Some (w, s3)))"

lemma leadingInt_le: "leadingInt x s = Some (v, t) \<Longrightarrow> length t \<le> length s"
  by (induction x s rule: leadingInt.induct) (auto simp: Let_def split: if_splits)

lemma leadingFraction_le: "leadingFraction x sc ov s = (f, sc', t) \<Longrightarrow> length t \<le> length s"
  by (induction x sc ov s rule: leadingFraction.induct) (auto simp: Let_def split: if_splits)

lemma dropWhile_shorter: "takeWhile P s \<noteq> [] \<Longrightarrow> length (dropWhile P s) < length s"
  by (cases s) (auto simp: le_imp_less_Suc length_dropWhile_le split: if_splits)

lemma parse_group_shorter:
  assumes "parse_group s = Some (w, t)"
  shows "length t < length s"
proof -
  obtain v s1 where i: "leadingInt 0 s = Some (v, s1)"
    using assms by (auto simp: parse_group_def split: if_splits option.splits)
  define dot where "dot \<longleftrightarrow> s1 \<noteq> [] \<and> hd s1 = CHR ''.''"
  obtain f sc s2 where f: "(if dot then leadingFraction 0 (f64_of_int 1) False (tl s1)
      else (0, f64_of_int 1, s1)) = (f, sc, s2)"
    by (metis prod.exhaust)
  have t: "t = dropWhile unit_char s2 \<and> takeWhile unit_char s2 \<noteq> []"
    using assms i f by (auto simp: parse_group_def Let_def dot_def split: if_splits option.splits)
  have "length s2 \<le> length s1"
    using f leadingFraction_le [of 0 "f64_of_int 1" False "tl s1" f sc s2] by (auto split: if_splits)
  then show ?thesis using t dropWhile_shorter [of unit_char s2] leadingInt_le [OF i] by auto
qed

function parse_groups :: "nat \<Rightarrow> string \<Rightarrow> nat option" where
  "parse_groups d s =
     (if s = [] then Some d
      else
        case parse_group s of
          None \<Rightarrow> None
        | Some (v, t) \<Rightarrow>
            let d' = (d + v) mod 2 ^ 64 in
            if two63 < d' then None else parse_groups d' t)"
  by pat_completeness auto
termination
  by (relation "measure (\<lambda>(d, s). length s)") (auto dest: parse_group_shorter)

declare parse_groups.simps [simp del]

definition ParseDuration :: "string \<Rightarrow> duration option" where
  "ParseDuration s0 =
     (let signed = s0 \<noteq> [] \<and> (hd s0 = CHR ''-'' \<or> hd s0 = CHR ''+'');
          neg = signed \<and> hd s0 = CHR ''-'';
          s = (if signed then tl s0 else s0) in
      if s = ''0'' then Some 0
      else if s = [] then None
      else
        case parse_groups 0 s of
          None \<Rightarrow> None
        | Some d \<Rightarrow>
            if neg then Some (- word_of_nat d)
            else if two63 - 1 < d then None
            else Some (word_of_nat d))"

subsection \<open>\<open>Duration.String\<close>\<close>

text \<open>\<open>fmtFrac\<close>: \<open>prec\<close> digits of \<open>v\<close> without trailing zeros, behind a point; and the rest of \<open>v\<close>.\<close>

fun fmtFrac :: "nat \<Rightarrow> nat \<Rightarrow> bool \<Rightarrow> string \<Rightarrow> string \<times> nat" where
  "fmtFrac 0 v print acc = (if print then CHR ''.'' # acc else acc, v)"
| "fmtFrac (Suc n) v print acc =
     (let d = v mod 10; print' = (print \<or> d \<noteq> 0) in
      fmtFrac n (v div 10) print' (if print' then digit d # acc else acc))"

definition Duration_String :: "duration \<Rightarrow> string" where
  "Duration_String d =
     (let u = nat \<bar>sint d\<bar>;
          body =
            (if u < 1000000000 then
               (if u = 0 then ''0s''
                else
                  let (prec, unit) =
                    (if u < 1000 then (0, ''ns'')
                     else if u < 1000000 then (3, [CHR 0xC2, CHR 0xB5] @ ''s'')
                     else (6, ''ms''));
                    (frac, v) = fmtFrac prec u False [] in
                  show_nat v @ frac @ unit)
             else
               let (frac, secs) = fmtFrac 9 u False [];
                   m = secs div 60; h = m div 60;
                   sec = show_nat (secs mod 60) @ frac @ ''s'' in
               if m = 0 then sec
               else if h = 0 then show_nat (m mod 60) @ ''m'' @ sec
               else show_nat h @ ''h'' @ show_nat (m mod 60) @ ''m'' @ sec) in
      if sint d < 0 then CHR ''-'' # body else body)"

subsection \<open>The text of a whole number of seconds is read back\<close>

lemma fmtFrac_zeros: "fmtFrac n (k * 10 ^ n) False acc = (acc, k)"
proof (induction n)
  case (Suc n)
  have "k * 10 ^ Suc n mod 10 = 0" "k * 10 ^ Suc n div 10 = k * 10 ^ n" by simp_all
  then show ?case using Suc by (simp add: Let_def)
qed simp

abbreviation digits_from :: "string \<Rightarrow> nat \<Rightarrow> nat" where
  "digits_from ds x \<equiv> fold (\<lambda>c v. v * 10 + digit_val c) ds x"

lemma digits_from_ge: "x \<le> digits_from ds x"
proof (induction ds arbitrary: x)
  case (Cons d ds)
  have "x \<le> x * 10 + digit_val d" by simp
  then show ?case using Cons [of "x * 10 + digit_val d"] by simp
qed simp

lemma leadingInt_digits:
  assumes "list_all is_digit ds" "digits_from ds x \<le> two63" "\<not> is_digit c"
  shows "leadingInt x (ds @ c # r) = Some (digits_from ds x, c # r)"
  using assms
proof (induction ds arbitrary: x)
  case (Cons d ds)
  have "x * 10 + digit_val d \<le> digits_from (d # ds) x"
    using digits_from_ge [of "x * 10 + digit_val d" ds] by simp
  then have "x * 10 + digit_val d \<le> two63" using Cons.prems(2) by linarith
  moreover have "x \<le> two63 div 10" using calculation by (simp add: two63_def)
  ultimately show ?case using Cons by (simp add: Let_def)
qed simp

lemma parse_group_int:
  assumes "unitMap u = Some m" "list_all unit_char u" "u \<noteq> []" "r = [] \<or> is_digit (hd r)"
    and "0 < m" "k * m \<le> two63"
  shows "parse_group (show_nat k @ u @ r) = Some (k * m, r)"
proof -
  obtain c u' where u: "u = c # u'" using assms(3) by (cases u) auto
  have k: "k \<le> two63 div m" using assms(5,6) by (simp add: less_eq_div_iff_mult_less_eq)
  then have "k \<le> two63" using div_le_dividend order_trans by blast
  then have i: "leadingInt 0 (show_nat k @ u @ r) = Some (k, u @ r)"
    using leadingInt_digits [of "show_nat k" 0 c "u' @ r"] assms(2) show_nat_digits [of k]
      digits_val_show [of k]
    by (simp add: u unit_char_def digits_val_def)
  have d: "is_digit (hd (show_nat k @ u @ r))"
    using show_nat_digits [of k] by (cases "show_nat k") auto
  have r: "takeWhile unit_char r = []" "dropWhile unit_char r = r"
    using assms(4) by (cases r; auto simp: unit_char_def)+
  have t: "takeWhile unit_char (u @ r) = u" "dropWhile unit_char (u @ r) = r"
    using assms(2) r by (simp_all add: list_all_iff)
  have nd: "hd (u @ r) \<noteq> CHR ''.''" using assms(2) by (simp add: u unit_char_def)
  have "length (show_nat k @ u @ r) \<noteq> length (u @ r)" by simp
  then show ?thesis
    using i d t nd k assms(1,3) by (simp add: parse_group_def Let_def)
qed

lemma parse_groups_step:
  assumes "parse_group s = Some (v, t)" "s \<noteq> []" "d + v \<le> two63"
  shows "parse_groups d s = parse_groups (d + v) t"
  using assms by (subst parse_groups.simps) (simp add: two63_def Let_def)

lemma unit_facts:
  "unitMap ''s'' = Some 1000000000" "unitMap ''m'' = Some 60000000000" "unitMap ''h'' = Some 3600000000000"
  "list_all unit_char ''s''" "list_all unit_char ''m''" "list_all unit_char ''h''"
  by (simp_all add: unitMap_def unit_char_def is_digit_def)

lemma digit_show: "is_digit (hd (show_nat k @ r))" "is_digit (hd (show_nat k))"
  using show_nat_digits [of k] by (cases "show_nat k"; auto)+

lemma parse_secs:
  "d + k * 1000000000 \<le> two63 \<Longrightarrow> parse_groups d (show_nat k @ ''s'') = Some (d + k * 1000000000)"
  using parse_group_int [OF unit_facts(1,4), of "[]" k]
  by (subst parse_groups_step [of _ "k * 1000000000" "[]"]) (simp_all add: parse_groups.simps)

lemma parse_mins:
  "d + k * 60000000000 + j * 1000000000 \<le> two63 \<Longrightarrow>
    parse_groups d (show_nat k @ ''m'' @ show_nat j @ ''s'') = Some (d + k * 60000000000 + j * 1000000000)"
  using parse_group_int [OF unit_facts(2,5), of "show_nat j @ ''s''" k] digit_show [of j]
  by (subst parse_groups_step [of _ "k * 60000000000" "show_nat j @ ''s''"])
    (simp_all add: parse_secs)

lemma parse_hours:
  "i * 3600000000000 + k * 60000000000 + j * 1000000000 \<le> two63 \<Longrightarrow>
    parse_groups 0 (show_nat i @ ''h'' @ show_nat k @ ''m'' @ show_nat j @ ''s'')
      = Some (i * 3600000000000 + k * 60000000000 + j * 1000000000)"
  using parse_group_int [OF unit_facts(3,6), of "show_nat k @ ''m'' @ show_nat j @ ''s''" i]
    digit_show [of k]
  by (subst parse_groups_step [of _ "i * 3600000000000" "show_nat k @ ''m'' @ show_nat j @ ''s''"])
    (simp_all add: parse_mins [simplified])

text \<open>The text of \<open>n\<close> seconds.\<close>

definition hms :: "nat \<Rightarrow> string" where
  "hms n =
     (let m = n div 60; h = m div 60 in
      if m = 0 then show_nat (n mod 60) @ ''s''
      else if h = 0 then show_nat (m mod 60) @ ''m'' @ show_nat (n mod 60) @ ''s''
      else show_nat h @ ''h'' @ show_nat (m mod 60) @ ''m'' @ show_nat (n mod 60) @ ''s'')"

lemma Duration_String_seconds:
  assumes "0 \<le> sint n" "sint n \<le> 9223372036"
  shows "Duration_String (n * Second) = hms (nat (sint n))"
proof -
  let ?k = "nat (sint n)"
  have s: "sint (n * Second) = sint n * 1000000000" by (rule sint_seconds [OF assms])
  have u: "nat \<bar>sint (n * Second)\<bar> = ?k * 10 ^ 9" using assms by (simp add: s nat_mult_distrib)
  have neg: "\<not> sint (n * Second) < 0" using assms by (simp add: s)
  show ?thesis
  proof (cases "?k = 0")
    case True
    then show ?thesis
      using neg unfolding Duration_String_def u by (simp add: hms_def show_nat_zero)
  next
    case False
    then have "\<not> ?k * 10 ^ 9 < 1000000000" by simp
    moreover have "fmtFrac 9 (?k * 10 ^ 9) False [] = ([], ?k)" by (rule fmtFrac_zeros)
    ultimately show ?thesis
      using neg unfolding Duration_String_def u by (simp only: hms_def Let_def if_False) simp
  qed
qed

lemma parse_hms:
  assumes "n \<le> 9223372036"
  shows "parse_groups 0 (hms n) = Some (n * 1000000000)"
proof -
  let ?m = "n div 60" and ?j = "n mod 60"
  let ?h = "?m div 60" and ?k = "?m mod 60"
  have e: "?h * 3600000000000 + ?k * 60000000000 + ?j * 1000000000 = n * 1000000000"
    using div_mult_mod_eq [of ?m 60] div_mult_mod_eq [of n 60] by linarith
  have "n * 1000000000 \<le> two63" using assms by (simp add: two63_def)
  with e have le: "?h * 3600000000000 + ?k * 60000000000 + ?j * 1000000000 \<le> two63" by simp
  consider "?m = 0" | "?m \<noteq> 0" "?h = 0" | "?m \<noteq> 0" "?h \<noteq> 0" by blast
  then show ?thesis
  proof cases
    case 1
    then show ?thesis using parse_secs [of 0 ?j] le e by (simp add: hms_def)
  next
    case 2
    then show ?thesis using parse_mins [of 0 ?k ?j] le e by (simp add: hms_def Let_def)
  next
    case 3
    then show ?thesis using parse_hours [OF le] e by (simp add: hms_def Let_def)
  qed
qed

lemma hms_not_special: "hms n \<noteq> []" "hms n \<noteq> ''0''" "is_digit (hd (hms n))"
proof -
  show "is_digit (hd (hms n))" by (simp add: hms_def Let_def digit_show)
  show "hms n \<noteq> []" by (simp add: hms_def Let_def)
  have "last (hms n) = CHR ''s''" by (simp add: hms_def Let_def)
  then show "hms n \<noteq> ''0''" by auto
qed

lemma ParseDuration_String:
  assumes "0 \<le> sint n" "sint n \<le> 9223372036"
  shows "ParseDuration (Duration_String (n * Second)) = Some (n * Second)"
proof -
  let ?k = "nat (sint n)"
  have k: "?k \<le> 9223372036" using assms by simp
  have h: "hd (hms ?k) \<noteq> CHR ''-''" "hd (hms ?k) \<noteq> CHR ''+''"
    using is_digit_sign [OF hms_not_special(3)] by simp_all
  have "?k * 1000000000 \<le> two63 - 1" using k by (simp add: two63_def)
  moreover have "(word_of_nat (?k * 1000000000) :: int64) = n * Second"
    using assms by (simp add: of_nat_nat)
  ultimately show ?thesis
    using h hms_not_special(1,2) [of ?k] parse_hms [OF k]
    by (simp add: Duration_String_seconds [OF assms] ParseDuration_def Let_def)
qed

end
