(* ===== verification/Api_Command.thy ===== *)
theory Api_Command
  imports Api_Handler Go_Duration
begin

section \<open>The slash command (\<open>server/api/command.go\<close>)\<close>

text \<open>
  \<open>/disappear set | off | status\<close>: a command is split at white space, a duration is a preset's
  label or a Go duration, and every answer is an ephemeral response to the channel. The second
  result of \<open>ExecuteCommand\<close> is always nil and is left out.
\<close>

definition CommandTrigger :: string where
  "CommandTrigger = ''disappear''"

record command_args =
  arg_Command :: string
  arg_UserId :: string
  arg_ChannelId :: string

record command_response =
  cr_ChannelId :: string
  cr_Text :: string

text \<open>The response type is always \<open>CommandResponseTypeEphemeral\<close>.\<close>

definition ephemeral :: "string \<Rightarrow> string \<Rightarrow> command_response" where
  "ephemeral channelID text = \<lparr>cr_ChannelId = channelID, cr_Text = text\<rparr>"

definition en_dash :: string where
  "en_dash = [CHR 0xE2, CHR 0x80, CHR 0x93]"

definition middle_dot :: string where
  "middle_dot = [CHR 0xC2, CHR 0xB7]"

definition helpText :: string where
  "helpText = ''`/disappear set <duration>` (5m, 1h, 8h, 1d, 1w, or custom 1m'' @ en_dash @ ''1y) ''
     @ middle_dot @ '' `/disappear status` '' @ middle_dot @ '' `/disappear off`''"

definition userMessage :: "ttl_error \<Rightarrow> string" where
  "userMessage err =
     (case err of
        ErrInvalidTTL \<Rightarrow> ''TTL must be between 1 minute and 1 year.''
      | ErrForbidden \<Rightarrow>
          ''You don't have permission to change this channel's disappearing settings.''
      | ErrChannelNotFound _ _ \<Rightarrow> ''Channel not found.''
      | _ \<Rightarrow> ''Something went wrong. Please try again.'')"

text \<open>An error is its text.\<close>

definition parseTTLArg :: "string \<Rightarrow> string + duration" where
  "parseTTLArg s =
     (case PresetForLabel s of
        Some p \<Rightarrow> Inr (Duration p)
      | None \<Rightarrow>
          (case ParseDuration s of
             None \<Rightarrow> Inl (''`'' @ s @ ''` is not a valid duration (try 1h, 30s, 1d, 45m)'')
           | Some d \<Rightarrow> Inr d))"

definition msg_usage :: string where
  "msg_usage = ''Usage: `/disappear set <duration>` (e.g. 1h, 30s, 1d, 45m)''"

definition msg_enabled :: "string \<Rightarrow> string" where
  "msg_enabled arg = '':hourglass_flowing_sand: Disappearing messages enabled '' @ dash
     @ '' auto-delete after '' @ arg @ ''.''"

definition msg_disabled :: string where
  "msg_disabled = ''Disappearing messages disabled for this channel.''"

definition msg_off :: string where
  "msg_off = ''Disappearing messages are off for this channel.''"

definition msg_on :: "string \<Rightarrow> string" where
  "msg_on d = '':hourglass_flowing_sand: Disappearing messages on '' @ dash
     @ '' auto-delete after '' @ d @ ''.''"

definition cmdSet ::
  "('w world) ttl_api \<Rightarrow> int64 \<Rightarrow> command_args \<Rightarrow> string list \<Rightarrow> 'w world \<Rightarrow> command_response \<times> 'w world" where
  "cmdSet ttl now args parts s =
     (let ch = arg_ChannelId args in
      if length parts < 3 then (ephemeral ch msg_usage, s)
      else
        case parseTTLArg (parts ! 2) of
          Inl err \<Rightarrow> (ephemeral ch err, s)
        | Inr d \<Rightarrow>
            (case SetTTL ttl (arg_UserId args) ch d now s of
               (Some err, s1) \<Rightarrow> (ephemeral ch (userMessage err), s1)
             | (None, s1) \<Rightarrow>
                 let set = \<lparr>DurationSeconds = int64_Seconds d, SetBy = arg_UserId args, SetAt = now\<rparr> in
                 (ephemeral ch (msg_enabled (parts ! 2)), broadcast ch (toDTO (Some set)) s1)))"

definition cmdOff ::
  "('w world) ttl_api \<Rightarrow> command_args \<Rightarrow> 'w world \<Rightarrow> command_response \<times> 'w world" where
  "cmdOff ttl args s =
     (let ch = arg_ChannelId args in
      case ClearTTL ttl (arg_UserId args) ch s of
        (Some err, s1) \<Rightarrow> (ephemeral ch (userMessage err), s1)
      | (None, s1) \<Rightarrow> (ephemeral ch msg_disabled, broadcast ch None s1))"

definition cmdStatus ::
  "('w world) ttl_api \<Rightarrow> command_args \<Rightarrow> 'w world \<Rightarrow> command_response \<times> 'w world" where
  "cmdStatus ttl args s =
     (let ch = arg_ChannelId args in
      case GetSetting ttl ch s of
        (Inl err, s1) \<Rightarrow> (ephemeral ch (userMessage err), s1)
      | (Inr None, s1) \<Rightarrow> (ephemeral ch msg_off, s1)
      | (Inr (Some setting), s1) \<Rightarrow>
          (ephemeral ch (msg_on (Duration_String (DurationSeconds setting * Second))), s1))"

definition Handler_ExecuteCommand ::
  "('w world) ttl_api \<Rightarrow> int64 \<Rightarrow> command_args \<Rightarrow> 'w world \<Rightarrow> command_response \<times> 'w world" where
  "Handler_ExecuteCommand ttl now args s =
     (let parts = Fields (arg_Command args) in
      if length parts < 2 then (ephemeral (arg_ChannelId args) helpText, s)
      else if parts ! 1 = ''set'' then cmdSet ttl now args parts s
      else if parts ! 1 = ''off'' then cmdOff ttl args s
      else if parts ! 1 = ''status'' then cmdStatus ttl args s
      else (ephemeral (arg_ChannelId args) (''Unknown `/disappear` subcommand. '' @ helpText), s))"

subsection \<open>Arguments\<close>

text \<open>A preset's label stands for its duration; other texts are Go durations.\<close>

lemma parseTTLArg_preset:
  assumes "p \<in> set Presets"
  shows "parseTTLArg (Label p) = Inr (Duration p)"
proof -
  have "distinct (map Label Presets)" by (simp add: Presets_def)
  then have "PresetForLabel (Label p) = Some p"
    using assms preset_loop_distinct by (simp add: PresetForLabel_def)
  then show ?thesis by (simp add: parseTTLArg_def)
qed

text \<open>The labels are not Go durations of another length.\<close>

lemma parseTTLArg_seconds:
  assumes "0 \<le> sint n" "sint n \<le> 9223372036"
  shows "parseTTLArg (Duration_String (n * Second)) = Inr (n * Second)"
proof (cases "PresetForLabel (Duration_String (n * Second))")
  case None
  then show ?thesis using ParseDuration_String [OF assms] by (simp add: parseTTLArg_def)
next
  case (Some p)
  then have p: "p \<in> set Presets" "Label p = Duration_String (n * Second)"
    using preset_loop_Some by (auto simp: PresetForLabel_def)
  have "last (Duration_String (n * Second)) = CHR ''s''"
    by (simp add: Duration_String_seconds [OF assms] hms_def Let_def)
  moreover have "last (Label p) \<noteq> CHR ''s''" using p(1) by (auto simp: Presets_def)
  ultimately show ?thesis using p(2) by simp
qed

text \<open>A command makes at most one call of the service, and publishes at most one event after it.\<close>

lemma command_calls:
  assumes "Handler_ExecuteCommand ttl now args s = (resp, s')"
  obtains (none) "s' = s"
  | (set) d er s1 t where "SetTTL ttl (arg_UserId args) (arg_ChannelId args) d now s = (er, s1)"
      "s' = s1 \<or> s' = broadcast (arg_ChannelId args) t s1"
  | (get) v where "GetSetting ttl (arg_ChannelId args) s = (v, s')"
  | (clear) er s1 t where "ClearTTL ttl (arg_UserId args) (arg_ChannelId args) s = (er, s1)"
      "s' = s1 \<or> s' = broadcast (arg_ChannelId args) t s1"
proof -
  let ?ch = "arg_ChannelId args" and ?u = "arg_UserId args"
  consider "s' = s" | parts where "cmdSet ttl now args parts s = (resp, s')"
    | "cmdOff ttl args s = (resp, s')" | "cmdStatus ttl args s = (resp, s')"
    using assms by (auto simp: Handler_ExecuteCommand_def Let_def split: if_splits)
  then show ?thesis
  proof cases
    case (2 parts)
    show ?thesis
    proof (cases "length parts < 3 \<or> (\<exists>e. parseTTLArg (parts ! 2) = Inl e)")
      case True
      then show ?thesis using 2 none by (cases "length parts < 3") (auto simp: cmdSet_def Let_def)
    next
      case False
      then obtain d where d: "parseTTLArg (parts ! 2) = Inr d" by (cases "parseTTLArg (parts ! 2)") auto
      obtain er s1 where t: "SetTTL ttl ?u ?ch d now s = (er, s1)" by (cases "SetTTL ttl ?u ?ch d now s")
      show ?thesis using 2 False d t by (cases er; intro set [OF t]) (auto simp: cmdSet_def Let_def)
    qed
  next
    case 3
    obtain er s1 where t: "ClearTTL ttl ?u ?ch s = (er, s1)" by (cases "ClearTTL ttl ?u ?ch s")
    show ?thesis using 3 t by (cases er; intro clear [OF t]) (auto simp: cmdOff_def Let_def)
  next
    case 4
    obtain v s1 where t: "GetSetting ttl ?ch s = (v, s1)" by (cases "GetSetting ttl ?ch s")
    have "s' = s1" using 4 t by (auto simp: cmdStatus_def Let_def split: sum.splits option.splits)
    then show ?thesis using get [of v] t by simp
  qed (rule none)
qed

subsection \<open>From the contract of the service\<close>

context api_ports
begin

text \<open>
  What an enabled TTL means. Unlike the HTTP API, the command announces exactly the setting
  that is stored.
\<close>

lemma cmd_enabled:
  assumes "cmdSet ttl now args parts s = (resp, s')" "valid_utf8 (arg_UserId args)" "3 \<le> length parts"
    and "parseTTLArg (parts ! 2) = Inr d"
  obtains (refused) err where "resp = ephemeral (arg_ChannelId args) (userMessage err)" "events s' = events s"
      "SetTTL ttl (arg_UserId args) (arg_ChannelId args) d now s = (Some err, s')"
  | (enabled) t where "t = \<lparr>DurationSeconds = int64_Seconds d, SetBy = arg_UserId args, SetAt = now\<rparr>"
      "resp = ephemeral (arg_ChannelId args) (msg_enabled (parts ! 2))"
      "ValidateTTL d = None" "may (arg_UserId args) (arg_ChannelId args) s"
      "settings s' = (settings s)(arg_ChannelId args \<mapsto> t)"
      "events s' = events s @ [\<lparr>ws_name = EventTTLChanged, ws_channel = arg_ChannelId args,
         ws_ttl = toDTO (Some t), ws_broadcast_channel = arg_ChannelId args\<rparr>]"
proof -
  let ?ch = "arg_ChannelId args" and ?u = "arg_UserId args"
  obtain er s1 where t: "SetTTL ttl ?u ?ch d now s = (er, s1)" by (cases "SetTTL ttl ?u ?ch d now s")
  note t' = set_ttl [OF t]
  have e: "events s1 = events s" using t' other_events [of s1 s] by blast
  show ?thesis
  proof (cases er)
    case (Some err)
    then show ?thesis using assms(1,3,4) t e by (intro refused [of err]) (auto simp: cmdSet_def Let_def)
  next
    case None
    let ?t = "\<lparr>DurationSeconds = int64_Seconds d, SetBy = ?u, SetAt = now\<rparr>"
    have s': "s' = broadcast ?ch (toDTO (Some ?t)) s1" "resp = ephemeral ?ch (msg_enabled (parts ! 2))"
      using assms(1,3,4) t None by (auto simp: cmdSet_def Let_def)
    have "ValidateTTL d = None \<and> may ?u ?ch s" using set_accepted [OF t [unfolded None]] by blast
    moreover have "settings s' = settings s1" by (simp add: s' broadcast_settings)
    ultimately show ?thesis
      using t' None s'(2) e assms(2) by (intro enabled [of ?t])
        (simp_all add: s'(1) broadcast_def PublishWebSocketEvent_def)
  qed
qed

lemma cmd_off:
  assumes "cmdOff ttl args s = (resp, s')" "cr_Text resp = msg_disabled"
  shows "may (arg_UserId args) (arg_ChannelId args) s \<and> settings s' = (settings s)(arg_ChannelId args := None)
    \<and> events s' = events s @ [\<lparr>ws_name = EventTTLChanged, ws_channel = arg_ChannelId args,
        ws_ttl = None, ws_broadcast_channel = arg_ChannelId args\<rparr>]"
proof -
  let ?ch = "arg_ChannelId args"
  obtain er s1 where t: "ClearTTL ttl (arg_UserId args) ?ch s = (er, s1)"
    by (cases "ClearTTL ttl (arg_UserId args) ?ch s")
  have "userMessage err \<noteq> msg_disabled" for err
    by (cases err) (simp_all add: userMessage_def msg_disabled_def)
  moreover have "resp = ephemeral ?ch (case er of Some err \<Rightarrow> userMessage err | None \<Rightarrow> msg_disabled)"
    using assms(1) t by (cases er) (simp_all add: cmdOff_def Let_def)
  ultimately have er: "er = None" using assms(2) by (cases er) (simp_all add: ephemeral_def)
  then have s': "s' = broadcast ?ch None s1" using assms(1) t by (simp add: cmdOff_def Let_def)
  have "events s1 = events s" using clear_ttl [OF t] other_events [of s1 s] by blast
  moreover have "settings s' = settings s1" by (simp add: s' broadcast_settings)
  ultimately show ?thesis
    using clear_ttl [OF t] clear_accepted [OF t [unfolded er]] er
    by (simp add: s' broadcast_def PublishWebSocketEvent_def)
qed

lemma cmd_status:
  assumes "cmdStatus ttl args s = (resp, s')"
  shows "settings s' = settings s \<and> events s' = events s
    \<and> (cr_Text resp \<in> {msg_off} \<union> range msg_on \<union> range userMessage)"
proof -
  obtain r s1 where g: "GetSetting ttl (arg_ChannelId args) s = (r, s1)"
    by (cases "GetSetting ttl (arg_ChannelId args) s")
  have "events s1 = events s" using get_setting [OF g] other_events [of s1 s] by blast
  then show ?thesis
    using assms g get_setting [OF g]
    by (auto simp: cmdStatus_def Let_def ephemeral_def split: sum.splits option.splits)
qed

lemma command_changes:
  assumes "Handler_ExecuteCommand ttl now args s = (resp, s')" "settings s' ch \<noteq> settings s ch"
  shows "ch = arg_ChannelId args \<and> may (arg_UserId args) ch s"
  using assms(1)
proof (cases rule: command_calls)
  case (set d er s1 t)
  then have "settings s' = settings s1" by (auto simp: broadcast_settings)
  then show ?thesis using set_changes [OF set(1), of ch] assms(2) by auto
next
  case (get v)
  then show ?thesis using get_setting [OF get] assms(2) by simp
next
  case (clear er s1 t)
  then have "settings s' = settings s1" by (auto simp: broadcast_settings)
  then show ?thesis using clear_changes [OF clear(1), of ch] assms(2) by auto
qed (use assms(2) in simp)

lemma command_settings:
  assumes "Handler_ExecuteCommand ttl now args s = (resp, s')" "valid_utf8 (arg_UserId args)"
  obtains (same) "settings s' = settings s"
  | (set) ch n where "may (arg_UserId args) ch s" "60 \<le> sint n" "sint n \<le> 31536000"
      "settings s' = (settings s)(ch \<mapsto> \<lparr>DurationSeconds = n, SetBy = arg_UserId args, SetAt = now\<rparr>)"
  | (clear) ch where "may (arg_UserId args) ch s" "settings s' = (settings s)(ch := None)"
  using assms(1)
proof (cases rule: command_calls)
  case (set d er s1 t)
  then have "settings s' = settings s1" by (auto simp: broadcast_settings)
  then show ?thesis using set_result [OF set(1) assms(2)] that(1,2) by auto
next
  case (get v)
  then show ?thesis using get_setting [OF get] that(1) by simp
next
  case (clear er s1 t)
  then have "settings s' = settings s1" by (auto simp: broadcast_settings)
  then show ?thesis using clear_result [OF clear(1)] that(1,3) by auto
qed (use that(1) in simp)

lemma command_frame:
  assumes "Handler_ExecuteCommand ttl now args s = (resp, s')"
    and f: "\<And>s s'. other s' = other s \<Longrightarrow> f s' = f s" "\<And>ch t s. f (broadcast ch t s) = f s"
  shows "f s' = f s"
  using assms(1)
proof (cases rule: command_calls)
  case (set d er s1 t)
  then show ?thesis using set_ttl [OF set(1)] f(1) [of s1 s] by (auto simp: f(2))
next
  case (get v)
  then show ?thesis using get_setting [OF get] f(1) [of s' s] by simp
next
  case (clear er s1 t)
  then show ?thesis using clear_ttl [OF clear(1)] f(1) [of s1 s] by (auto simp: f(2))
qed simp

end

end
