(* ===== verification/Plugin.thy ===== *)
theory Plugin
  imports Sweeper Expiry_Service Api_Command
begin

section \<open>The plugin's hooks and their lifecycle (\<open>server/plugin.go\<close>)\<close>

text \<open>
  The struct \<open>Plugin\<close> as a record: the services it builds have no state of their own, so a
  field says whether the pointer is set. A hook takes the plugin and the world and returns
  both. What Mattermost provides is the record \<open>plugin_api\<close> of arbitrary functions on the
  server's state \<open>srv\<close>. A call on a nil handler would panic: \<open>None\<close>.
\<close>

datatype sweeper_job = NoJob | JobRunning | JobClosed

record plugin =
  cfg :: configHolder
  ttlService_set :: bool
  apiHandler_set :: bool
  expireStore_set :: bool
  expiryService_set :: bool
  purger_set :: bool
  plugin_sweeper :: "sweeper_cfg option"
  sweeperJob :: sweeper_job

definition new_plugin :: plugin where
  "new_plugin = \<lparr>cfg = \<lparr>conf = zero_configuration\<rparr>, ttlService_set = False, apiHandler_set = False,
     expireStore_set = False, expiryService_set = False, purger_set = False,
     plugin_sweeper = None, sweeperJob = NoJob\<rparr>"

text \<open>The command the plugin registers, as far as its fields are set.\<close>

record slash_command =
  Trigger :: string
  DisplayName :: string
  Description :: string
  AutoComplete :: bool
  AutoCompleteDesc :: string
  AutoCompleteHint :: string

definition disappearCommand :: slash_command where
  "disappearCommand = \<lparr>
     Trigger = CommandTrigger,
     DisplayName = ''Disappearing Messages'',
     Description = ''Manage disappearing messages per channel'',
     AutoComplete = True,
     AutoCompleteDesc = ''Set, view or clear the channel's disappearing-message TTL'',
     AutoCompleteHint = ''[set <duration> | status | off]''\<rparr>"

text \<open>
  The job runs once in every interval of \<open>sweeperInterval\<close>, on one node of the cluster: what
  \<open>cluster.Schedule\<close> is told. A tick may come at any time in what follows.
\<close>

definition sweeperInterval :: duration where
  "sweeperInterval = 60 * Second"

record 'w plugin_api =
  LoadPluginConfiguration :: "'w \<Rightarrow> (app_error + configuration) \<times> 'w"
  RegisterCommand :: "slash_command \<Rightarrow> 'w \<Rightarrow> app_error option \<times> 'w"
  HasDriver :: bool
  GetMasterDB :: "'w \<Rightarrow> app_error option \<times> 'w"
  cluster_Schedule :: "string \<Rightarrow> duration \<Rightarrow> 'w \<Rightarrow> app_error option \<times> 'w"
  job_Close :: "'w \<Rightarrow> app_error option \<times> 'w"
  api_kv :: "'w kv_api"
  api_perm :: "'w perm_api"
  api_license :: "'w \<Rightarrow> bool"
  api_version :: "'w \<Rightarrow> string"
  api_DeletePost :: "string \<Rightarrow> 'w \<Rightarrow> app_error option \<times> 'w"

definition on_srv :: "('w \<Rightarrow> 'r \<times> 'w) \<Rightarrow> 'w world \<Rightarrow> 'r \<times> 'w world" where
  "on_srv f s = (let (r, w) = f (srv s) in (r, s\<lparr>srv := w\<rparr>))"

definition perm_of :: "'w perm_api \<Rightarrow> ('w world) perm_api" where
  "perm_of perm = \<lparr>
     HasPermissionTo = (\<lambda>u p s. HasPermissionTo perm u p (srv s)),
     HasPermissionToChannel = (\<lambda>u c p s. HasPermissionToChannel perm u c p (srv s)),
     GetChannel = (\<lambda>c s. GetChannel perm c (srv s))\<rparr>"

text \<open>The ports the plugin gives its components.\<close>

definition the_store :: "'w plugin_api \<Rightarrow> ('w world) ttl_store" where
  "the_store api = kvStore_api NewKVStore (kv_of (api_kv api))"

definition the_ttl :: "'w plugin_api \<Rightarrow> ('w world) ttl_api" where
  "the_ttl api = ttlService (the_store api) (perm_of (api_perm api))"

definition the_server :: "'w plugin_api \<Rightarrow> ('w world) server_api" where
  "the_server api = server_of (api_DeletePost api) (api_license api) (api_version api)"

definition msg_activated :: string where
  "msg_activated = ''Disappearing Messages plugin activated''"

definition msg_deactivated :: string where
  "msg_deactivated = ''Disappearing Messages plugin deactivated''"

definition msg_config :: string where
  "msg_config = ''disappear: failed to load config, using defaults''"

definition msg_command :: string where
  "msg_command = ''failed to register /disappear command''"

definition msg_no_index :: string where
  "msg_no_index = ''disappear: expire index disabled''"

definition msg_no_sweeper :: string where
  "msg_no_sweeper = ''disappear: sweeper disabled''"

definition msg_close :: string where
  "msg_close = ''disappear: sweeper close failed''"

definition msg_index_failed :: string where
  "msg_index_failed = ''disappear: failed to index post expiry''"

subsection \<open>The hooks\<close>

text \<open>An error of the expiry service is one of the TTL service or one of the index.\<close>

fun service_error :: "expiry_error \<Rightarrow> go_error" where
  "service_error (Inl err) = TTLErr err"
| "service_error (Inr err) = ExpireErr err"

definition loadConfig :: "'w plugin_api \<Rightarrow> plugin \<Rightarrow> 'w world \<Rightarrow> plugin \<times> 'w world" where
  "loadConfig api p s =
     (case on_srv (LoadPluginConfiguration api) s of
        (Inl err, s1) \<Rightarrow> (p, LogError msg_config [(''err'', LogErr (AppErr err))] s1)
      | (Inr c, s1) \<Rightarrow> (p\<lparr>cfg := holder_set c (cfg p)\<rparr>, s1))"

definition initExpiry :: "'w plugin_api \<Rightarrow> plugin \<Rightarrow> 'w world \<Rightarrow> go_error option \<times> plugin \<times> 'w world" where
  "initExpiry api p s =
     (case on_srv (GetMasterDB api) s of
        (Some err, s1) \<Rightarrow> (Some (AppErr err), p, s1)
      | (None, s1) \<Rightarrow>
          let p1 = p\<lparr>expireStore_set := True\<rparr> in
          case Service_Migrate sqlStore s1 of
            (Some err, s2) \<Rightarrow> (Some (ExpireErr err), p1, s2)
          | (None, s2) \<Rightarrow> (None, p1\<lparr>expiryService_set := True, purger_set := True\<rparr>, s2))"

definition initSweeper :: "'w plugin_api \<Rightarrow> plugin \<Rightarrow> 'w world \<Rightarrow> go_error option \<times> plugin \<times> 'w world" where
  "initSweeper api p s =
     (let p1 = p\<lparr>plugin_sweeper := Some (Sweeper_New 500)\<rparr> in
      case on_srv (cluster_Schedule api ''disappear_sweeper'' sweeperInterval) s of
        (Some err, s1) \<Rightarrow> (Some (AppErr err), p1, s1)
      | (None, s1) \<Rightarrow> (None, p1\<lparr>sweeperJob := JobRunning\<rparr>, s1))"

definition OnActivate :: "'w plugin_api \<Rightarrow> plugin \<Rightarrow> 'w world \<Rightarrow> plugin \<times> 'w world" where
  "OnActivate api p s =
     (let (p1, s1) = loadConfig api p (LogInfo msg_activated [] s);
          p2 = p1\<lparr>ttlService_set := True, apiHandler_set := True\<rparr>;
          s2 = (case on_srv (RegisterCommand api disappearCommand) s1 of
              (Some err, s') \<Rightarrow> LogError msg_command [(''err'', LogErr (AppErr err))] s' | (None, s') \<Rightarrow> s') in
      if HasDriver api then
        (case initExpiry api p2 s2 of
           (Some err, p3, s3) \<Rightarrow> (p3, LogError msg_no_index [(''err'', LogErr err)] s3)
         | (None, p3, s3) \<Rightarrow>
             (case initSweeper api p3 s3 of
                (Some err, p4, s4) \<Rightarrow> (p4, LogError msg_no_sweeper [(''err'', LogErr err)] s4)
              | (None, p4, s4) \<Rightarrow> (p4, s4)))
      else (p2, s2))"

definition OnDeactivate :: "'w plugin_api \<Rightarrow> plugin \<Rightarrow> 'w world \<Rightarrow> plugin \<times> 'w world" where
  "OnDeactivate api p s =
     (let (p1, s1) =
        (if sweeperJob p = NoJob then (p, s)
         else
           case on_srv (job_Close api) s of
             (Some err, s') \<Rightarrow> (p, LogError msg_close [(''err'', LogErr (AppErr err))] s')
           | (None, s') \<Rightarrow> (p\<lparr>sweeperJob := JobClosed\<rparr>, s')) in
      (p1, LogInfo msg_deactivated [] s1))"

definition OnConfigurationChange :: "'w plugin_api \<Rightarrow> plugin \<Rightarrow> 'w world \<Rightarrow> plugin \<times> 'w world" where
  "OnConfigurationChange api p s = loadConfig api p s"

definition Plugin_ServeHTTP ::
  "'w plugin_api \<Rightarrow> int64 \<Rightarrow> http_request \<Rightarrow> plugin \<Rightarrow> 'w world \<Rightarrow> (http_response \<times> 'w world) option" where
  "Plugin_ServeHTTP api now r p s =
     (if apiHandler_set p then Some (Handler_ServeHTTP (the_ttl api) now r s) else None)"

definition Plugin_ExecuteCommand ::
  "'w plugin_api \<Rightarrow> int64 \<Rightarrow> command_args \<Rightarrow> plugin \<Rightarrow> 'w world
    \<Rightarrow> (command_response \<times> 'w world) option" where
  "Plugin_ExecuteCommand api now args p s =
     (if apiHandler_set p then Some (Handler_ExecuteCommand (the_ttl api) now args s) else None)"

text \<open>A nil post is \<open>None\<close>; \<open>now\<close> is the clock of the expiry service.\<close>

definition MessageHasBeenPosted ::
  "'w plugin_api \<Rightarrow> int64 \<Rightarrow> post option \<Rightarrow> plugin \<Rightarrow> 'w world \<Rightarrow> 'w world" where
  "MessageHasBeenPosted api now post p s =
     (if \<not> expiryService_set p \<or> post = None \<or> Post_Id (the post) = '''' then s
      else
        case OnPostCreated sqlStore (Service_GetTTL (the_store api)) now (the post) s of
          (Some err, s1) \<Rightarrow> LogError msg_index_failed
            [(''post_id'', LogString (Post_Id (the post))), (''err'', LogErr (service_error err))] s1
        | (None, s1) \<Rightarrow> s1)"

text \<open>
  A tick of the scheduled job. The purger the sweeper was given points to the configuration
  of the plugin, so a tick reads the configuration of its own time.
\<close>

definition sweeper_tick :: "'w plugin_api \<Rightarrow> int64 \<Rightarrow> plugin \<Rightarrow> 'w world \<Rightarrow> 'w world" where
  "sweeper_tick api now p s =
     (case (sweeperJob p, plugin_sweeper p) of
        (JobRunning, Some sw) \<Rightarrow>
          Sweeper_Run sw sqlStore (configPurger_Purge (cfg p) sqlPurger_Purge (the_server api)) LogError now s
      | _ \<Rightarrow> s)"

subsection \<open>When a tick deletes rows directly\<close>

lemma softDelete_loop_tables:
  "tables (softDelete_loop (server_of del lic ver) ids s) = tables s"
proof (induction ids arbitrary: s)
  case (Cons i ids)
  then show ?case
    by (cases "del i (srv s)") (auto simp: server_of_def split: option.splits)
qed simp

lemma configPurger_tables:
  assumes "configPurger_Purge holder sqlPurger_Purge (server_of del lic ver) ids s = ((n, er), s')"
    and "tables s' \<noteq> tables s"
  shows "hard_mode holder (lic (srv s)) (ver (srv s)) \<and> schema_ok footprint (tables s)"
proof -
  let ?d = "purgeDecision (EnablePurge (holder_get holder)) (lic (srv s)) (ver (srv s))
    (PurgeSchemaAllowlist (Some (holder_get holder)))"
  have ids: "ids \<noteq> []" using assms by (auto simp: configPurger_Purge_def)
  have hard: "?d = PurgeHard"
    using assms softDelete_loop_tables [of del lic ver ids s]
    by (cases ?d) (auto simp: configPurger_Purge_def Let_def server_of_def softDelete_def split: if_splits)
  then have "sqlPurger_Purge ids s = ((n, er), s')"
    using assms(1) ids by (simp add: configPurger_Purge_def server_of_def)
  then have "schema_ok footprint (tables s)"
    using sqlPurger_bad_schema [of s ids n er s'] ids assms(2) by (auto simp: same_data_def)
  then show ?thesis using hard by (simp add: hard_mode_def)
qed

lemma Sweeper_Run_tables:
  fixes s :: "'w world"
  assumes "index_ok s"
    and "tables (Sweeper_Run sw sqlStore
      (configPurger_Purge holder sqlPurger_Purge (server_of del lic ver)) LogError now s) \<noteq> tables s"
  shows "hard_mode holder (lic (srv s)) (ver (srv s)) \<and> schema_ok footprint (tables s)"
proof -
  let ?purge = "configPurger_Purge holder sqlPurger_Purge (server_of del lic ver)"
  obtain r s1 where g: "sqlStore_GetExpired now (batchSize sw) s = (r, s1)"
    by (cases "sqlStore_GetExpired now (batchSize sw) s")
  have s1: "index_ok s1" "tables s1 = tables s" "srv s1 = srv s"
    using sql.get_expired [OF assms(1), of now "batchSize sw" r s1] g
    by (cases s; cases s1; simp add: other_state_def)+
  obtain es where es: "r = Inr es" "es \<noteq> []"
  proof (cases "r = Inr [] \<or> (\<exists>e. r = Inl e)")
    case True
    then show ?thesis using assms(2) g s1(2) by (auto simp: Sweeper_Run_def)
  qed (cases r; auto)
  obtain n er s2 where p: "?purge (map PostID es) s1 = ((n, er), s2)" by (metis prod.exhaust)
  have ok2: "index_ok s2" using prod_switch.switch.purge_index [OF s1(1) p] by simp
  obtain er' s3 where d: "sqlStore_DeleteByPostIDs (map PostID es) s2 = (er', s3)"
    by (cases "sqlStore_DeleteByPostIDs (map PostID es) s2")
  have "tables s3 = tables s2"
    using sql.delete_ids [OF ok2, of "map PostID es" er' s3] d by (simp add: other_state_def)
  then have "tables s2 \<noteq> tables s1"
    using assms(2) g es p d s1(2) by (cases er; cases er') (auto simp: Sweeper_Run_def)
  then show ?thesis using configPurger_tables [OF p] s1 by simp
qed

end
