(* ===== verification/Cluster.thy ===== *)
theory Cluster
  imports Plugin
begin

section \<open>Runs of the plugin on the nodes of a cluster\<close>

text \<open>
  Every node runs the plugin with a state of its own over one shared world. A step of a run is
  a hook that Mattermost calls on some node, a tick of the scheduled job, the restart of a
  node, or a change made by the server and its users: whatever they do to the server's state
  and the tables, but not to the plugin's own table. A run keeps its history: the events with
  the world they happened in, newest first.
\<close>

datatype event =
    Activate
  | Deactivate
  | ConfigChange
  | Http int64 http_request
  | Command int64 command_args
  | Posted int64 "post option"
  | Tick int64

text \<open>A request to a plugin that was never activated panics before it does anything.\<close>

fun hook :: "'w plugin_api \<Rightarrow> event \<Rightarrow> plugin \<Rightarrow> 'w world \<Rightarrow> plugin \<times> 'w world" where
  "hook api Activate p s = OnActivate api p s"
| "hook api Deactivate p s = OnDeactivate api p s"
| "hook api ConfigChange p s = OnConfigurationChange api p s"
| "hook api (Http now r) p s =
     (p, case Plugin_ServeHTTP api now r p s of None \<Rightarrow> s | Some (resp, s') \<Rightarrow> s')"
| "hook api (Command now args) p s =
     (p, case Plugin_ExecuteCommand api now args p s of None \<Rightarrow> s | Some (resp, s') \<Rightarrow> s')"
| "hook api (Posted now post) p s = (p, MessageHasBeenPosted api now post p s)"
| "hook api (Tick now) p s = (p, sweeper_tick api now p s)"

type_synonym 'w history = "(event \<times> 'w world) list"

inductive run ::
  "'w plugin_api \<Rightarrow> 'w world \<Rightarrow> 'w history \<Rightarrow> (nat \<Rightarrow> plugin) \<Rightarrow> 'w world \<Rightarrow> bool"
  for api :: "'w plugin_api" and s0 :: "'w world" where
  start: "run api s0 [] (\<lambda>_. new_plugin) s0"
| step: "run api s0 h P s \<Longrightarrow> hook api ev (P i) s = (p', s') \<Longrightarrow>
    run api s0 ((ev, s) # h) (P(i := p')) s'"
| restart: "run api s0 h P s \<Longrightarrow> run api s0 h (P(i := new_plugin)) s"
| outside: "run api s0 h P s \<Longrightarrow> run api s0 h P (s\<lparr>srv := w, tables := tx, outcomes := os\<rparr>)"

inductive_cases run_stepE: "run api s0 ((ev, s1) # h) P s"

subsection \<open>The state of a node\<close>

text \<open>The job runs only on a plugin that was wired completely.\<close>

definition wired :: "plugin \<Rightarrow> bool" where
  "wired p \<longleftrightarrow>
     (expiryService_set p \<longrightarrow> expireStore_set p \<and> ttlService_set p \<and> purger_set p)
     \<and> (sweeperJob p \<noteq> NoJob \<longrightarrow> expiryService_set p \<and> plugin_sweeper p = Some (Sweeper_New 500))
     \<and> (apiHandler_set p \<longleftrightarrow> ttlService_set p)"

lemma loadConfig_wired: "loadConfig api p s = (p', s') \<Longrightarrow> wired p' = wired p"
  by (auto simp: loadConfig_def wired_def split: prod.splits sum.splits)

lemma initExpiry_wired:
  "initExpiry api p s = (b, p', s') \<Longrightarrow> wired p \<Longrightarrow> ttlService_set p \<Longrightarrow>
    wired p' \<and> (b = None \<longrightarrow> expiryService_set p')"
  by (auto simp: initExpiry_def wired_def Let_def split: prod.splits option.splits)

lemma initSweeper_wired:
  "initSweeper api p s = (b, p', s') \<Longrightarrow> wired p \<Longrightarrow> expiryService_set p \<Longrightarrow> wired p'"
  by (auto simp: initSweeper_def wired_def Let_def split: prod.splits option.splits)

lemma OnActivate_wired:
  assumes "wired p" "OnActivate api p s = (p', s')"
  shows "wired p'"
proof -
  obtain p1 s1 where l: "loadConfig api p (LogInfo msg_activated [] s) = (p1, s1)"
    by (cases "loadConfig api p (LogInfo msg_activated [] s)")
  let ?p2 = "p1\<lparr>ttlService_set := True, apiHandler_set := True\<rparr>"
  have "wired p1" using loadConfig_wired [OF l] assms(1) by simp
  then have w2: "wired ?p2" by (simp add: wired_def)
  let ?s2 = "case on_srv (RegisterCommand api disappearCommand) s1 of
      (Some err, s') \<Rightarrow> LogError msg_command [(''err'', LogErr (AppErr err))] s' | (None, s') \<Rightarrow> s'"
  obtain b p3 s3 where e: "initExpiry api ?p2 ?s2 = (b, p3, s3)" by (rule prod_cases3)
  obtain b4 p4 s4 where s: "initSweeper api p3 s3 = (b4, p4, s4)" by (rule prod_cases3)
  have w3: "wired p3 \<and> (b = None \<longrightarrow> expiryService_set p3)" using initExpiry_wired [OF e w2] by simp
  have w4: "b = None \<Longrightarrow> wired p4" using initSweeper_wired [OF s] w3 by simp
  have "p' = (if HasDriver api then if b \<noteq> None then p3 else p4 else ?p2)"
    using assms(2) l e s
    by (cases "HasDriver api"; cases b; cases b4) (simp_all add: OnActivate_def)
  then show ?thesis using w2 w3 w4 by simp
qed

lemma hook_wired:
  assumes "wired p" "hook api ev p s = (p', s')"
  shows "wired p'"
proof (cases ev)
  case Activate
  then show ?thesis using OnActivate_wired assms by simp
next
  case Deactivate
  then show ?thesis using assms
    by (auto simp: OnDeactivate_def wired_def Let_def split: prod.splits option.splits if_splits)
next
  case ConfigChange
  then show ?thesis
    using loadConfig_wired [of api p s p' s'] assms by (simp add: OnConfigurationChange_def)
qed (use assms in auto)

lemma run_wired: "run api s0 h P s \<Longrightarrow> wired (P i)"
proof (induction rule: run.induct)
  case (step h P s ev j p' s')
  then show ?case using hook_wired by fastforce
qed (simp_all add: wired_def new_plugin_def)

text \<open>The configuration of a node is the zero value or one that was loaded.\<close>

lemma loadConfig_conf:
  assumes "loadConfig api p s = (p', s')"
  shows "cfg p' = cfg p \<or> (\<exists>c w. LoadPluginConfiguration api (srv s) = (Inr c, w) \<and> conf (cfg p') = c)"
  using assms
  by (auto simp: loadConfig_def on_srv_def holder_set_def Let_def split: prod.splits sum.splits)

lemma OnActivate_conf:
  assumes "OnActivate api p s = (p', s')"
  shows "cfg p' = cfg p \<or> (\<exists>c w. LoadPluginConfiguration api (srv s) = (Inr c, w) \<and> conf (cfg p') = c)"
proof -
  obtain p1 s1 where l: "loadConfig api p (LogInfo msg_activated [] s) = (p1, s1)"
    by (cases "loadConfig api p (LogInfo msg_activated [] s)")
  have "cfg p' = cfg p1"
    using assms l
    by (auto simp: OnActivate_def initExpiry_def initSweeper_def Let_def
        split: prod.splits option.splits if_splits)
  then show ?thesis using loadConfig_conf [OF l] by simp
qed

lemma hook_conf:
  assumes "hook api ev p s = (p', s')"
  shows "cfg p' = cfg p \<or> (ev = Activate \<or> ev = ConfigChange)
    \<and> (\<exists>c w. LoadPluginConfiguration api (srv s) = (Inr c, w) \<and> conf (cfg p') = c)"
proof (cases ev)
  case Activate
  then show ?thesis using OnActivate_conf [of api p s] assms by auto
next
  case ConfigChange
  then show ?thesis using loadConfig_conf [of api p s] assms by (auto simp: OnConfigurationChange_def)
next
  case Deactivate
  then show ?thesis using assms
    by (auto simp: OnDeactivate_def Let_def split: prod.splits option.splits if_splits)
qed (use assms in auto)

lemma run_config:
  "run api s0 h P s \<Longrightarrow> conf (cfg (P i)) = zero_configuration
    \<or> (\<exists>ev s1 w. (ev, s1) \<in> set h \<and> (ev = Activate \<or> ev = ConfigChange)
        \<and> LoadPluginConfiguration api (srv s1) = (Inr (conf (cfg (P i))), w))"
proof (induction rule: run.induct)
  case (step h P s ev j p' s')
  show ?case
  proof (cases "i = j \<and> cfg p' \<noteq> cfg (P j)")
    case True
    then show ?thesis using hook_conf [OF step.hyps(2)] by auto
  next
    case False
    then have "conf (cfg ((P(j := p')) i)) = conf (cfg (P i))" by auto
    then show ?thesis using step.IH by (metis list.set_intros(2))
  qed
qed (auto simp: new_plugin_def)

subsection \<open>The index along a run\<close>

lemma map_created_entry:
  assumes "map_created d now p m q = Some e"
  shows "m q = Some e \<or> (q = Post_Id p \<or> m q \<noteq> None) \<and> threadRoot p = RootID e \<and> ExpireAt e = expiry d p"
proof (cases "q = Post_Id p")
  case True
  then show ?thesis using assms map_created_self [of d now p m] by auto
next
  case False
  show ?thesis using assms False by (cases rule: map_created_cases) auto
qed

lemma map_upsert_entry:
  assumes "map_upsert (post_entry d now p) m q = Some e"
  shows "m q = Some e \<or> q = Post_Id p \<and> threadRoot p = RootID e \<and> ExpireAt e = expiry d p"
  using assms map_upsert_same [of "post_entry d now p" m] map_upsert_other [of q "post_entry d now p" m]
  by (cases "q = Post_Id p") auto

locale plugin_world = world_kv "api_kv api" cells other
  for api :: "'w plugin_api"
    and cells :: "'w \<Rightarrow> string \<rightharpoonup> bytes"
    and other :: "'w \<Rightarrow> 'f"
begin

lemma on_srv_index: "on_srv f s = (r, s') \<Longrightarrow> index_of s' = index_of s \<and> index_ok s' = index_ok s"
  by (auto simp: on_srv_def Let_def split: prod.splits)

lemma loadConfig_index:
  "loadConfig api p s = (p', s') \<Longrightarrow> index_of s' = index_of s \<and> index_ok s' = index_ok s"
  by (auto simp: loadConfig_def split: prod.splits sum.splits dest: on_srv_index)

lemma initExpiry_index:
  assumes "initExpiry api p s = (b, p', s')" "index_ok s"
  shows "index_of s' = index_of s \<and> index_ok s'"
proof -
  obtain r s1 where g: "on_srv (GetMasterDB api) s = (r, s1)" by (cases "on_srv (GetMasterDB api) s")
  obtain r2 s2 where m: "sqlStore_Migrate s1 = (r2, s2)" by (cases "sqlStore_Migrate s1")
  have "index_ok s1" "index_of s1 = index_of s" using on_srv_index [OF g] assms(2) by simp_all
  moreover from this have "index_of s2 = index_of s1 \<and> index_ok s2"
    using sql.migrate [of s1 r2 s2] m by simp
  ultimately show ?thesis
    using assms(1) g m by (cases r; cases r2) (auto simp: initExpiry_def Service_Migrate_def Let_def)
qed

lemma initSweeper_index:
  "initSweeper api p s = (b, p', s') \<Longrightarrow> index_of s' = index_of s \<and> index_ok s' = index_ok s"
  by (auto simp: initSweeper_def Let_def split: prod.splits option.splits dest: on_srv_index)

lemma log_info_index [simp]: "index_of (LogInfo m kvs s) = index_of s" "index_ok (LogInfo m kvs s) = index_ok s"
  by (simp_all add: index_of_def index_ok_def)

lemma OnActivate_index:
  assumes "OnActivate api p s = (p', s')" "index_ok s"
  shows "index_of s' = index_of s \<and> index_ok s'"
proof -
  obtain p1 s1 where l: "loadConfig api p (LogInfo msg_activated [] s) = (p1, s1)"
    by (cases "loadConfig api p (LogInfo msg_activated [] s)")
  obtain r s2 where c: "on_srv (RegisterCommand api disappearCommand) s1 = (r, s2)" by (cases "on_srv (RegisterCommand api disappearCommand) s1")
  let ?s2 = "case r of Some err \<Rightarrow> LogError msg_command [(''err'', LogErr (AppErr err))] s2 | None \<Rightarrow> s2"
  let ?p2 = "p1\<lparr>ttlService_set := True, apiHandler_set := True\<rparr>"
  have i2: "index_of ?s2 = index_of s" "index_ok ?s2"
    using loadConfig_index [OF l] on_srv_index [OF c] assms(2) by (auto split: option.splits)
  obtain b p3 s3 where e: "initExpiry api ?p2 ?s2 = (b, p3, s3)" by (metis prod.exhaust)
  obtain b4 p4 s4 where w: "initSweeper api p3 s3 = (b4, p4, s4)" by (metis prod.exhaust)
  have i3: "index_of s3 = index_of s" "index_ok s3" using initExpiry_index [OF e i2(2)] i2 by simp_all
  then have i4: "index_of s4 = index_of s" "index_ok s4" using initSweeper_index [OF w] by simp_all
  show ?thesis
    using assms(1) l c e w i2 i3 i4
    by (cases "HasDriver api"; cases b; cases b4) (auto simp: OnActivate_def Let_def)
qed

lemma request_index:
  "Plugin_ServeHTTP api now r p s = Some (resp, s') \<Longrightarrow> index_of s' = index_of s \<and> index_ok s' = index_ok s"
  "Plugin_ExecuteCommand api now args p s = Some (cr, s') \<Longrightarrow> index_of s' = index_of s \<and> index_ok s' = index_ok s"
proof -
  let ?f = "\<lambda>s. (index_of s, index_ok s)"
  have f: "?f s' = ?f s" if "(other (srv s'), outside_srv s') = (other (srv s), outside_srv s)" for s s' :: "'w world"
    using that outside_srv_index [of s' s] by simp
  have b: "?f (broadcast ch t s) = ?f s" for ch t and s :: "'w world"
    by (simp add: broadcast_def index_of_def index_ok_def)
  show "index_of s' = index_of s \<and> index_ok s' = index_ok s"
    if "Plugin_ServeHTTP api now r p s = Some (resp, s')"
  proof -
    have "Handler_ServeHTTP (the_ttl api) now r s = (resp, s')"
      using that by (auto simp: Plugin_ServeHTTP_def split: if_splits)
    from this [unfolded the_ttl_def the_store_def] have "?f s' = ?f s"
      by (rule api.serve_frame) (rule f, assumption, rule b)
    then show ?thesis by simp
  qed
  show "index_of s' = index_of s \<and> index_ok s' = index_ok s"
    if "Plugin_ExecuteCommand api now args p s = Some (cr, s')"
  proof -
    have "Handler_ExecuteCommand (the_ttl api) now args s = (cr, s')"
      using that by (auto simp: Plugin_ExecuteCommand_def split: if_splits)
    from this [unfolded the_ttl_def the_store_def] have "?f s' = ?f s"
      by (rule api.command_frame) (rule f, assumption, rule b)
    then show ?thesis by simp
  qed
qed

lemma posted_map:
  assumes "index_ok s" and s': "s' = MessageHasBeenPosted api now (Some po) p s"
  shows "index_ok s'"
    and "index_of s' = index_of s \<or> (\<exists>d. world_ttl cells s (Post_ChannelId po) = Some d
      \<and> index_of s' \<in> {map_upsert (post_entry d now po) (index_of s), map_created d now po (index_of s)})"
proof -
  obtain er s1 where c: "OnPostCreated sqlStore (Service_GetTTL (the_store api)) now po s = (er, s1)"
    by (cases "OnPostCreated sqlStore (Service_GetTTL (the_store api)) now po s")
  note c' = expiry.created [OF assms(1) c [unfolded the_store_def]]
  have k: "s' = s \<or> index_of s' = index_of s1 \<and> index_ok s' = index_ok s1"
    using c by (cases er) (auto simp: s' MessageHasBeenPosted_def)
  then show "index_ok s'" using c' assms(1) by auto
  show "index_of s' = index_of s \<or> (\<exists>d. world_ttl cells s (Post_ChannelId po) = Some d
      \<and> index_of s' \<in> {map_upsert (post_entry d now po) (index_of s), map_created d now po (index_of s)})"
    using k c' by (cases "s' = s"; cases er; cases "world_ttl cells s (Post_ChannelId po)")
      (auto simp: map_posted_def)
qed

lemma posted_index:
  assumes "index_ok s" "index_of (MessageHasBeenPosted api now (Some po) p s) q = Some e"
  shows "index_of s q = Some e
      \<or> (\<exists>d. world_ttl cells s (Post_ChannelId po) = Some d \<and> (q = Post_Id po \<or> index_of s q \<noteq> None)
           \<and> threadRoot po = RootID e \<and> ExpireAt e = expiry d po)"
  using posted_map(2) [OF assms(1) refl, of now po p] assms(2)
    map_created_entry [of _ now po "index_of s" q e] map_upsert_entry [of _ now po "index_of s" q e]
  by auto

text \<open>What a hook does to the index.\<close>

lemma hook_index:
  assumes "hook api ev p s = (p', s')" "index_ok s"
  shows "index_ok s'"
    and "index_of s' q = Some e \<Longrightarrow> index_of s q = Some e
      \<or> (\<exists>now po d. ev = Posted now (Some po) \<and> world_ttl cells s (Post_ChannelId po) = Some d
           \<and> (q = Post_Id po \<or> index_of s q \<noteq> None)
           \<and> threadRoot po = RootID e \<and> ExpireAt e = expiry d po)"
proof -
  have keep: "index_ok s' \<and> (\<forall>q e. index_of s' q = Some e \<longrightarrow> index_of s q = Some e)"
    if "\<forall>now po. ev \<noteq> Posted now (Some po)"
  proof (cases ev)
    case Activate
    then show ?thesis using OnActivate_index [of p s p' s'] assms by simp
  next
    case Deactivate
    then show ?thesis using assms
      by (auto simp: OnDeactivate_def Let_def split: prod.splits option.splits if_splits
          dest!: on_srv_index)
  next
    case ConfigChange
    then show ?thesis using loadConfig_index [of p s p' s'] assms by (simp add: OnConfigurationChange_def)
  next
    case (Http now r)
    then show ?thesis using request_index(1) [of now r p s] assms
      by (cases "Plugin_ServeHTTP api now r p s") auto
  next
    case (Command now args)
    then show ?thesis using request_index(2) [of now args p s] assms
      by (cases "Plugin_ExecuteCommand api now args p s") auto
  next
    case (Posted now post)
    then have "post = None" using that by (cases post) auto
    then show ?thesis using assms Posted by (simp add: MessageHasBeenPosted_def)
  next
    case (Tick now)
    have s': "s' = sweeper_tick api now p s" using assms(1) Tick by auto
    show ?thesis
      using assms(2) unfolding s' sweeper_tick_def the_server_def
      by (auto split: sweeper_job.splits option.splits
          intro: prod_sweep.run_ok dest: prod_sweep.run_shrinks)
  qed
  have post: "s' = MessageHasBeenPosted api now (Some po) p s" if "ev = Posted now (Some po)" for now po
    using assms(1) that by auto
  show "index_ok s'"
    using keep post posted_map(1) [OF assms(2)] by metis
  show "index_of s' q = Some e \<Longrightarrow> index_of s q = Some e
      \<or> (\<exists>now po d. ev = Posted now (Some po) \<and> world_ttl cells s (Post_ChannelId po) = Some d
           \<and> (q = Post_Id po \<or> index_of s q \<noteq> None)
           \<and> threadRoot po = RootID e \<and> ExpireAt e = expiry d po)"
    using keep post posted_index [OF assms(2)] by metis
qed

text \<open>
  Along a run that starts with an empty index: an entry comes from a post that was announced
  while its channel had a TTL, and its expiry is that of a post of its thread.
\<close>

definition accounted :: "'w history \<Rightarrow> string \<Rightarrow> entry \<Rightarrow> bool" where
  "accounted h q e \<longleftrightarrow>
     (\<exists>now po s1 d. (Posted now (Some po), s1) \<in> set h \<and> Post_Id po = q
        \<and> world_ttl cells s1 (Post_ChannelId po) = Some d)
     \<and> (\<exists>now po s1 d. (Posted now (Some po), s1) \<in> set h \<and> threadRoot po = RootID e
        \<and> world_ttl cells s1 (Post_ChannelId po) = Some d \<and> ExpireAt e = expiry d po)"

lemma run_index:
  assumes "run api s0 h P s" "index_ok s0" "index_of s0 = Map.empty"
  shows "index_ok s \<and> (\<forall>q e. index_of s q = Some e \<longrightarrow> accounted h q e)"
  using assms
proof (induction rule: run.induct)
  case (step h P s ev i p' s')
  then have ok: "index_ok s" and IH: "\<And>q e. index_of s q = Some e \<Longrightarrow> accounted h q e" by blast+
  have "accounted ((ev, s) # h) q e" if e: "index_of s' q = Some e" for q e
    using hook_index(2) [OF step.hyps(2) ok e]
  proof (elim disjE exE conjE)
    assume "index_of s q = Some e"
    then show ?thesis using IH unfolding accounted_def by (meson list.set_intros(2))
  next
    fix now po d
    assume a: "ev = Posted now (Some po)" "world_ttl cells s (Post_ChannelId po) = Some d"
      "threadRoot po = RootID e" "ExpireAt e = expiry d po" and "q = Post_Id po"
    then show ?thesis unfolding accounted_def by (metis list.set_intros(1))
  next
    fix now po d
    assume a: "ev = Posted now (Some po)" "world_ttl cells s (Post_ChannelId po) = Some d"
      "threadRoot po = RootID e" "ExpireAt e = expiry d po" and "index_of s q \<noteq> None"
    then obtain e0 where "accounted h q e0" using IH by blast
    with a show ?thesis unfolding accounted_def by (metis list.set_intros)
  qed
  then show ?case using hook_index(1) [OF step.hyps(2) ok] by blast
next
  case (outside h P s w tx os)
  then show ?case by (simp add: index_ok_def index_of_def)
qed simp_all

end

subsection \<open>The stored settings along hooks\<close>

lemma db_exec_frame:
  fixes s :: "'w world"
  assumes "db_exec (on_expire f) s = (r, s')"
  shows "srv s' = srv s \<and> tables s' = tables s"
proof -
  have n: "srv s1 = srv s \<and> tables s1 = tables s" if "next_outcome s = (d, s1)" for d s1
    using that by (auto simp: next_outcome_def split: list.splits)
  from assms show ?thesis
    by (cases rule: db_exec_cases) (auto simp: on_expire_def dest: n split: option.splits)
qed

context plugin_world
begin

lemma posted_frame:
  "settings_of (cells (srv (MessageHasBeenPosted api now po p s))) = settings_of (cells (srv s))
    \<and> tables (MessageHasBeenPosted api now po p s) = tables s"
proof -
  have g: "settings_of (cells (srv s1)) = settings_of (cells (srv s)) \<and> tables s1 = tables s"
    if "Service_GetTTL (the_store api) ch s = (r, s1)" for ch r s1
    using that in_world.store.st_get [of ch s _ s1]
    by (auto simp: Service_GetTTL_def the_store_def outside_srv_def split: prod.splits sum.splits option.splits)
  have u: "srv s2 = srv s1 \<and> tables s2 = tables s1" if "sqlStore_Upsert e s1 = (er, s2)" for e er and s1 s2 :: "'w world"
    using that db_exec_frame [of "upsertSQL e" s1]
    by (cases "db_exec (on_expire (upsertSQL e)) s1") (auto simp: sqlStore_Upsert_def)
  have b: "srv s2 = srv s1 \<and> tables s2 = tables s1" if "sqlStore_UpdateExpireByRoot q t s1 = (er, s2)" for q t er and s1 s2 :: "'w world"
    using that db_exec_frame [of "updateByRootSQL t q" s1]
    by (cases "db_exec (on_expire (updateByRootSQL t q)) s1") (auto simp: sqlStore_UpdateExpireByRoot_def)
  have "settings_of (cells (srv s')) = settings_of (cells (srv s)) \<and> tables s' = tables s"
    if "OnPostCreated sqlStore (Service_GetTTL (the_store api)) now q s = (er, s')" for q er s'
    using that by (auto simp: OnPostCreated_def Let_def split: prod.splits sum.splits option.splits if_splits
        dest!: g u b)
  then show ?thesis
    by (auto simp: MessageHasBeenPosted_def split: option.splits prod.splits)
qed

text \<open>A TTL read back from well-formed settings is a valid one: the product with a second is exact.\<close>

lemma settings_wf_ttl:
  assumes "settings_wf (settings_of (cells (srv s)))" "world_ttl cells s ch = Some d"
  shows "ValidateTTL d = None"
proof -
  obtain t where t: "settings_of (cells (srv s)) ch = Some t" "d = DurationSeconds t * Second"
    using assms(2) by (auto simp: world_ttl_def ttl_of_def)
  then have b: "60 \<le> sint (DurationSeconds t)" "sint (DurationSeconds t) \<le> 31536000"
    using assms(1) by (auto simp: settings_wf_def)
  have "sint (DurationSeconds t * Second) = sint (DurationSeconds t) * 1000000000"
    using b by (simp add: sint64_mult)
  then show ?thesis using b t(2) by (simp add: ValidateTTL_None_iff)
qed

end

end
