(* ===== verification/Interleaving.thy ===== *)
theory Interleaving
  imports Cluster
begin

section \<open>Hooks and ticks that interleave call by call\<close>

text \<open>
  Theory \<open>Cluster\<close> takes a hook or a tick as one step. Here a step is one call to the database
  or to the server: the posts that are being indexed and the sweeps of all nodes are tasks, a
  task is where it stands between two calls of \<open>Service.OnPostCreated\<close>
  (\<open>server/expiry/service.go\<close>) or of \<open>Sweeper.Run\<close> (\<open>server/sweeper/sweeper.go\<close>) with what it has
  read so far, and any task may make the next call. A purge is one step: its hard form is one
  transaction, and its soft form touches neither the index nor the tables.
\<close>

datatype task =
    Idle
  | Lookup int64 post
  | Upserting int64 post duration
  | Bumping post duration
  | Querying int64 sweeper_cfg
  | Purging int64 "string list"
  | Pruning "string list"

text \<open>
  The calls of \<open>OnPostCreated\<close>, with the log line of \<open>Plugin.MessageHasBeenPosted\<close> for its error.
\<close>

fun post_call :: "'w plugin_api \<Rightarrow> task \<Rightarrow> 'w world \<Rightarrow> task \<times> 'w world" where
  "post_call api (Lookup now po) s =
     (case Service_GetTTL (the_store api) (Post_ChannelId po) s of
        (Inl err, s1) \<Rightarrow> (Idle, LogError msg_index_failed
          [(''post_id'', LogString (Post_Id po)), (''err'', LogErr (TTLErr err))] s1)
      | (Inr (d, hasTTL), s1) \<Rightarrow> if \<not> hasTTL then (Idle, s1) else (Upserting now po d, s1))"
| "post_call api (Upserting now po d) s =
     (case sqlStore_Upsert (post_entry d now po) s of
        (Some err, s1) \<Rightarrow> (Idle, LogError msg_index_failed
          [(''post_id'', LogString (Post_Id po)), (''err'', LogErr (ExpireErr err))] s1)
      | (None, s1) \<Rightarrow> if Post_RootId po \<noteq> '''' then (Bumping po d, s1) else (Idle, s1))"
| "post_call api (Bumping po d) s =
     (case sqlStore_UpdateExpireByRoot (threadRoot po) (expiry d po) s of
        (Some err, s1) \<Rightarrow> (Idle, LogError msg_index_failed
          [(''post_id'', LogString (Post_Id po)), (''err'', LogErr (ExpireErr err))] s1)
      | (None, s1) \<Rightarrow> (Idle, s1))"
| "post_call api t s = (t, s)"

text \<open>The calls of \<open>Run\<close>; \<open>holder\<close> is the configuration of the node at the time of the call.\<close>

fun sweep_call :: "'w plugin_api \<Rightarrow> configHolder \<Rightarrow> task \<Rightarrow> 'w world \<Rightarrow> task \<times> 'w world" where
  "sweep_call api holder (Querying now sw) s =
     (case sqlStore_GetExpired now (batchSize sw) s of
        (Inl err, s1) \<Rightarrow> (Idle, LogError msg_query_failed [(''err'', LogErr (ExpireErr err))] s1)
      | (Inr es, s1) \<Rightarrow> if length es = 0 then (Idle, s1) else (Purging now (map PostID es), s1))"
| "sweep_call api holder (Purging now ids) s =
     (case configPurger_Purge holder sqlPurger_Purge (the_server api) ids s of
        ((_, Some err), s1) \<Rightarrow> (Idle, LogError msg_purge_failed
          [(''n'', LogInt (int (length ids))), (''err'', LogErr (PurgeErr err))] s1)
      | ((_, None), s1) \<Rightarrow> (Pruning ids, s1))"
| "sweep_call api holder (Pruning ids) s =
     (case sqlStore_DeleteByPostIDs ids s of
        (Some err, s1) \<Rightarrow> (Idle, LogError msg_prune_failed [(''err'', LogErr (ExpireErr err))] s1)
      | (None, s1) \<Rightarrow> (Idle, s1))"
| "sweep_call api holder t s = (t, s)"

fun task_step :: "'w plugin_api \<Rightarrow> configHolder \<Rightarrow> task \<Rightarrow> 'w world \<Rightarrow> task \<times> 'w world" where
  "task_step api holder Idle s = (Idle, s)"
| "task_step api holder (Lookup now po) s = post_call api (Lookup now po) s"
| "task_step api holder (Upserting now po d) s = post_call api (Upserting now po d) s"
| "task_step api holder (Bumping po d) s = post_call api (Bumping po d) s"
| "task_step api holder (Querying now sw) s = sweep_call api holder (Querying now sw) s"
| "task_step api holder (Purging now ids) s = sweep_call api holder (Purging now ids) s"
| "task_step api holder (Pruning ids) s = sweep_call api holder (Pruning ids) s"

definition solo :: "'w plugin_api \<Rightarrow> configHolder \<Rightarrow> task \<times> 'w world \<Rightarrow> task \<times> 'w world" where
  "solo api holder = (\<lambda>(t, s). task_step api holder t s)"

lemma solo_pair [simp]: "solo api holder (t, s) = task_step api holder t s"
  by (simp add: solo_def)

subsection \<open>A task that is left alone computes the hook\<close>

lemma solo_idle [simp]: "(solo api holder ^^ n) (Idle, s) = (Idle, s)"
  by (induction n) simp_all

lemma funpow_3: "(f ^^ 3) x = f (f (f x))"
  by (simp add: numeral_eq_Suc)

lemma solo_posted:
  assumes "expiryService_set p" "Post_Id po \<noteq> ''''"
  shows "(solo api holder ^^ 3) (Lookup now po, s) = (Idle, MessageHasBeenPosted api now (Some po) p s)"
proof -
  obtain r s1 where g: "Service_GetTTL (the_store api) (Post_ChannelId po) s = (r, s1)"
    by (cases "Service_GetTTL (the_store api) (Post_ChannelId po) s")
  show ?thesis
  proof (cases "\<exists>d. r = Inr (d, True)")
    case False
    then show ?thesis using g assms
      by (cases r) (auto simp: funpow_3 MessageHasBeenPosted_def OnPostCreated_def)
  next
    case True
    then obtain d where d: "r = Inr (d, True)" by blast
    let ?e = "\<lparr>PostID = Post_Id po, ChannelID = Post_ChannelId po, RootID = threadRoot po,
      ExpireAt = Post_CreateAt po + Milliseconds d, CreatedAt = now\<rparr>"
    obtain er s2 where u: "sqlStore_Upsert ?e s1 = (er, s2)" by (cases "sqlStore_Upsert ?e s1")
    obtain er' s3 where b: "sqlStore_UpdateExpireByRoot (threadRoot po) (Post_CreateAt po + Milliseconds d) s2 = (er', s3)"
      by (cases "sqlStore_UpdateExpireByRoot (threadRoot po) (Post_CreateAt po + Milliseconds d) s2")
    show ?thesis using g d u b assms
      by (cases er; cases er')
        (simp_all add: funpow_3 MessageHasBeenPosted_def OnPostCreated_def post_entry_def expiry_def Let_def)
  qed
qed

lemma solo_sweep:
  "(solo api holder ^^ 3) (Querying now sw, s)
    = (Idle, Sweeper_Run sw sqlStore (configPurger_Purge holder sqlPurger_Purge (the_server api)) LogError now s)"
proof -
  obtain r s1 where g: "sqlStore_GetExpired now (batchSize sw) s = (r, s1)"
    by (cases "sqlStore_GetExpired now (batchSize sw) s")
  show ?thesis
  proof (cases "\<exists>es. r = Inr es \<and> es \<noteq> []")
    case False
    then show ?thesis using g by (cases r) (auto simp: funpow_3 Sweeper_Run_def)
  next
    case True
    then obtain es where es: "r = Inr es" "es \<noteq> []" by blast
    let ?ids = "map PostID es"
    obtain n er s2 where p: "configPurger_Purge holder sqlPurger_Purge (the_server api) ?ids s1 = ((n, er), s2)"
      by (metis prod.exhaust)
    obtain er' s3 where d: "sqlStore_DeleteByPostIDs ?ids s2 = (er', s3)"
      by (cases "sqlStore_DeleteByPostIDs ?ids s2")
    show ?thesis using g es p d
      by (cases er; cases er') (simp_all add: funpow_3 Sweeper_Run_def Let_def)
  qed
qed

subsection \<open>Interleavings\<close>

text \<open>
  The tasks of all nodes over one world. A task may be dropped at any point (its node stops), and
  the server, its users and the requests of the API change everything but the plugin's table at
  any time. The history holds the steps with the state each was made in, newest first.
\<close>

inductive interleaved ::
  "'w plugin_api \<Rightarrow> 'w world \<Rightarrow> (task \<times> 'w world) list \<Rightarrow> (nat \<Rightarrow> task) \<Rightarrow> 'w world \<Rightarrow> bool"
  for api :: "'w plugin_api" and s0 :: "'w world" where
  start: "interleaved api s0 [] (\<lambda>_. Idle) s0"
| posted: "interleaved api s0 h T s \<Longrightarrow> T i = Idle \<Longrightarrow> Post_Id po \<noteq> '''' \<Longrightarrow>
    interleaved api s0 h (T(i := Lookup now po)) s"
| tick: "interleaved api s0 h T s \<Longrightarrow> T i = Idle \<Longrightarrow> interleaved api s0 h (T(i := Querying now sw)) s"
| step: "interleaved api s0 h T s \<Longrightarrow> task_step api holder (T i) s = (t', s') \<Longrightarrow>
    interleaved api s0 ((T i, s) # h) (T(i := t')) s'"
| stop: "interleaved api s0 h T s \<Longrightarrow> interleaved api s0 h (T(i := Idle)) s"
| outside: "interleaved api s0 h T s \<Longrightarrow>
    interleaved api s0 h T (s\<lparr>srv := w, tables := tx, outcomes := os, logs := lg, events := ev\<rparr>)"

text \<open>A task makes the next call of some interleaving.\<close>

lemma interleaved_next:
  assumes "\<exists>h. interleaved api s0 h T s" "task_step api holder (T i) s = (t', s')" "T' = T(i := t')"
  shows "\<exists>h. interleaved api s0 h T' s'"
  using interleaved.step assms by metis

inductive_cases interleaved_stepE: "interleaved api s0 ((t, s1) # h) T s"

subsection \<open>What is known of an entry and of a task\<close>

text \<open>The TTL a post's task has looked up, and the entries and batches that come of it.\<close>

definition looked_up ::
  "('w \<Rightarrow> string \<rightharpoonup> bytes) \<Rightarrow> (task \<times> 'w world) list \<Rightarrow> post \<Rightarrow> duration \<Rightarrow> bool" where
  "looked_up cells h po d \<longleftrightarrow>
     (\<exists>now s1. (Lookup now po, s1) \<in> set h \<and> world_ttl cells s1 (Post_ChannelId po) = Some d)"

definition announced ::
  "('w \<Rightarrow> string \<rightharpoonup> bytes) \<Rightarrow> (task \<times> 'w world) list \<Rightarrow> string \<Rightarrow> entry \<Rightarrow> bool" where
  "announced cells h q e \<longleftrightarrow>
     (\<exists>po d. looked_up cells h po d \<and> Post_Id po = q)
     \<and> (\<exists>po d. looked_up cells h po d \<and> threadRoot po = RootID e \<and> ExpireAt e = expiry d po)"

definition was_due ::
  "('w \<Rightarrow> string \<rightharpoonup> bytes) \<Rightarrow> (task \<times> 'w world) list \<Rightarrow> int64 \<Rightarrow> string \<Rightarrow> bool" where
  "was_due cells h now q \<longleftrightarrow>
     (\<exists>sw s1 e. (Querying now sw, s1) \<in> set h \<and> index_of s1 q = Some e
        \<and> sint (ExpireAt e) \<le> sint now \<and> announced cells h q e)"

fun task_ok :: "('w \<Rightarrow> string \<rightharpoonup> bytes) \<Rightarrow> (task \<times> 'w world) list \<Rightarrow> task \<Rightarrow> bool" where
  "task_ok cells h (Upserting now po d) = looked_up cells h po d"
| "task_ok cells h (Bumping po d) = looked_up cells h po d"
| "task_ok cells h (Purging now ids) = (\<forall>q\<in>set ids. was_due cells h now q)"
| "task_ok cells h _ = True"

lemma looked_up_mono: "looked_up cells h po d \<Longrightarrow> looked_up cells (x # h) po d"
  unfolding looked_up_def by (meson list.set_intros(2))

lemma announced_mono: "announced cells h q e \<Longrightarrow> announced cells (x # h) q e"
  unfolding announced_def by (blast intro: looked_up_mono)

lemma was_due_mono: "was_due cells h now q \<Longrightarrow> was_due cells (x # h) now q"
  unfolding was_due_def by (meson list.set_intros(2) announced_mono)

lemma task_ok_mono: "task_ok cells h t \<Longrightarrow> task_ok cells (x # h) t"
  by (cases t) (auto intro: looked_up_mono was_due_mono)

subsection \<open>Every step keeps it\<close>

lemma map_created_announced:
  assumes "looked_up cells h po d" "\<And>q e. m q = Some e \<Longrightarrow> announced cells h q e"
  shows "map_upsert (post_entry d now po) m q = Some e \<Longrightarrow> announced cells h q e"
    and "map_bump (threadRoot po) (expiry d po) m q = Some e \<Longrightarrow> announced cells h q e"
proof -
  show "announced cells h q e" if "map_upsert (post_entry d now po) m q = Some e"
    using map_upsert_entry [OF that] assms unfolding announced_def by blast
  show "announced cells h q e" if b: "map_bump (threadRoot po) (expiry d po) m q = Some e"
  proof -
    obtain e0 where e0: "m q = Some e0" "e = (if RootID e0 = threadRoot po then e0\<lparr>ExpireAt := expiry d po\<rparr> else e0)"
      using b by (auto simp: map_bump_def)
    then show ?thesis using assms unfolding announced_def by (cases "RootID e0 = threadRoot po") auto
  qed
qed

lemma other_state_rows: "other_state s' = other_state s \<Longrightarrow> post_rows s' = post_rows s"
  by (rule post_rows_tables) (simp add: other_state_def)

context plugin_world
begin

lemma lookup_step:
  assumes "task_step api holder (Lookup now po) s = (t', s')"
  shows "index_of s' = index_of s \<and> index_ok s' = index_ok s \<and> post_rows s' = post_rows s
    \<and> (t' = Idle \<or> (\<exists>d. t' = Upserting now po d \<and> world_ttl cells s (Post_ChannelId po) = Some d))"
proof -
  obtain r s1 where g: "Service_GetTTL (the_store api) (Post_ChannelId po) s = (r, s1)"
    by (cases "Service_GetTTL (the_store api) (Post_ChannelId po) s")
  note r = expiry.reader.read_ttl [OF g [unfolded the_store_def]]
  then have o: "outside_srv s1 = outside_srv s" by simp
  then have s1: "index_of s1 = index_of s" "index_ok s1 = index_ok s" "post_rows s1 = post_rows s"
    using outside_srv_index [OF o] post_rows_tables [of s1 s] by (simp_all add: outside_srv_def)
  have "world_ttl cells s (Post_ChannelId po) = Some d" if "r = Inr (d, True)" for d
    using r that by (auto split: option.splits)
  then show ?thesis using assms g s1 by (auto split: sum.splits if_splits)
qed

lemma index_step:
  assumes "index_ok s"
  shows "task_step api holder (Upserting now po d) s = (t', s') \<Longrightarrow>
      index_ok s' \<and> post_rows s' = post_rows s \<and> (t' = Idle \<or> t' = Bumping po d)
      \<and> (index_of s' = index_of s \<or> index_of s' = map_upsert (post_entry d now po) (index_of s))"
    and "task_step api holder (Bumping po d) s = (t', s') \<Longrightarrow>
      index_ok s' \<and> post_rows s' = post_rows s \<and> t' = Idle
      \<and> (index_of s' = index_of s \<or> index_of s' = map_bump (threadRoot po) (expiry d po) (index_of s))"
    and "task_step api holder (Pruning ids) s = (t', s') \<Longrightarrow>
      index_ok s' \<and> post_rows s' = post_rows s \<and> t' = Idle
      \<and> (index_of s' = index_of s \<or> index_of s' = map_remove ids (index_of s))"
proof -
  obtain er s1 where u: "sqlStore_Upsert (post_entry d now po) s = (er, s1)"
    by (cases "sqlStore_Upsert (post_entry d now po) s")
  have "index_ok s1 \<and> other_state s1 = other_state s
      \<and> written (map_upsert (post_entry d now po)) er (index_of s) (index_of s1)"
    using sql.upsert [OF assms, of "post_entry d now po" er s1] u by simp
  then show "index_ok s' \<and> post_rows s' = post_rows s \<and> (t' = Idle \<or> t' = Bumping po d)
      \<and> (index_of s' = index_of s \<or> index_of s' = map_upsert (post_entry d now po) (index_of s))"
    if "task_step api holder (Upserting now po d) s = (t', s')"
    using that u other_state_rows [of s1 s]
    by (cases er) (auto simp: written_def split: if_splits)
  obtain er s1 where b: "sqlStore_UpdateExpireByRoot (threadRoot po) (expiry d po) s = (er, s1)"
    by (cases "sqlStore_UpdateExpireByRoot (threadRoot po) (expiry d po) s")
  have "index_ok s1 \<and> other_state s1 = other_state s
      \<and> written (map_bump (threadRoot po) (expiry d po)) er (index_of s) (index_of s1)"
    using sql.bump [OF assms, of "threadRoot po" "expiry d po" er s1] b by simp
  then show "index_ok s' \<and> post_rows s' = post_rows s \<and> t' = Idle
      \<and> (index_of s' = index_of s \<or> index_of s' = map_bump (threadRoot po) (expiry d po) (index_of s))"
    if "task_step api holder (Bumping po d) s = (t', s')"
    using that b other_state_rows [of s1 s] by (cases er) (auto simp: written_def)
  obtain er s1 where d: "sqlStore_DeleteByPostIDs ids s = (er, s1)"
    by (cases "sqlStore_DeleteByPostIDs ids s")
  have "index_ok s1 \<and> other_state s1 = other_state s \<and> written (map_remove ids) er (index_of s) (index_of s1)"
    using sql.delete_ids [OF assms, of ids er s1] d by simp
  then show "index_ok s' \<and> post_rows s' = post_rows s \<and> t' = Idle
      \<and> (index_of s' = index_of s \<or> index_of s' = map_remove ids (index_of s))"
    if "task_step api holder (Pruning ids) s = (t', s')"
    using that d other_state_rows [of s1 s] by (cases er) (auto simp: written_def)
qed

lemma query_step:
  assumes "index_ok s" "task_step api holder (Querying now sw) s = (t', s')"
  shows "index_ok s' \<and> index_of s' = index_of s \<and> post_rows s' = post_rows s
    \<and> (t' = Idle \<or> (\<exists>ids. t' = Purging now ids
         \<and> (\<forall>q\<in>set ids. \<exists>e. index_of s q = Some e \<and> sint (ExpireAt e) \<le> sint now)))"
proof -
  obtain r s1 where g: "sqlStore_GetExpired now (batchSize sw) s = (r, s1)"
    by (cases "sqlStore_GetExpired now (batchSize sw) s")
  have g': "index_ok s1" "other_state s1 = other_state s" "index_of s1 = index_of s"
    "\<And>es. r = Inr es \<Longrightarrow> oldest_batch now (nat (sint (batchSize sw))) (index_of s) es"
    using sql.get_expired [OF assms(1), of now "batchSize sw" r s1] g by simp_all
  have "\<forall>q\<in>set (map PostID es). \<exists>e. index_of s q = Some e \<and> sint (ExpireAt e) \<le> sint now" if "r = Inr es" for es
    using g'(4) [OF that] by (auto simp: oldest_batch_def expired_in_def)
  then show ?thesis
    using assms(2) g g'(1-3) other_state_rows [of s1 s] by (cases r) (auto split: if_splits)
qed

lemma purge_step:
  assumes "index_ok s" "task_step api holder (Purging now ids) s = (t', s')"
  shows "index_ok s' \<and> index_of s' = index_of s \<and> (t' = Idle \<or> t' = Pruning ids)
    \<and> (\<forall>q. post_rows s' q \<noteq> post_rows s q \<longrightarrow> q \<in> set ids)"
proof -
  obtain n er s1 where p: "configPurger_Purge holder sqlPurger_Purge (the_server api) ids s = ((n, er), s1)"
    by (metis prod.exhaust)
  have p1: "index_ok s1 \<and> index_of s1 = index_of s"
    using prod_switch.switch.purge_index [OF assms(1) p [unfolded the_server_def]] by blast
  have p2: "q \<in> set ids" if "post_rows s1 q \<noteq> post_rows s q" for q
    using prod_switch.switch.purge_others [OF p [unfolded the_server_def]] that by blast
  have "t' = (if er = None then Pruning ids else Idle) \<and> s' = (if er = None then s1 else LogError msg_purge_failed
        [(''n'', LogInt (int (length ids))), (''err'', LogErr (PurgeErr (the er)))] s1)"
    using assms(2) p by (cases er) auto
  then show ?thesis using p1 p2 by (cases er) auto
qed

text \<open>The invariant of all interleavings.\<close>

definition index_announced :: "(task \<times> 'w world) list \<Rightarrow> 'w world \<Rightarrow> bool" where
  "index_announced h s \<longleftrightarrow> index_ok s \<and> (\<forall>q e. index_of s q = Some e \<longrightarrow> announced cells h q e)"

lemma index_announced_step:
  assumes "index_announced h s" "task_ok cells h t" "task_step api holder t s = (t', s')"
  shows "index_announced ((t, s) # h) s' \<and> task_ok cells ((t, s) # h) t'"
proof -
  let ?h = "(t, s) # h"
  have ok: "index_ok s" using assms(1) by (simp add: index_announced_def)
  have an: "announced cells ?h q e" if "index_of s q = Some e" for q e
    using assms(1) that by (intro announced_mono) (simp add: index_announced_def)
  have tk: "task_ok cells ?h t" by (rule task_ok_mono [OF assms(2)])
  show ?thesis
  proof (cases t)
    case Idle
    then show ?thesis using assms(3) ok an by (auto simp: index_announced_def)
  next
    case (Lookup now po)
    have "looked_up cells ?h po d" if "world_ttl cells s (Post_ChannelId po) = Some d" for d
      using that Lookup by (auto simp: looked_up_def)
    then show ?thesis using lookup_step [OF assms(3) [unfolded Lookup]] ok an
      by (auto simp: index_announced_def)
  next
    case (Upserting now po d)
    then have "looked_up cells ?h po d" using tk by simp
    then show ?thesis
      using index_step(1) [OF ok assms(3) [unfolded Upserting]]
        map_created_announced(1) [where m = "index_of s", OF _ an] an by (auto simp: index_announced_def)
  next
    case (Bumping po d)
    then have "looked_up cells ?h po d" using tk by simp
    then show ?thesis
      using index_step(2) [OF ok assms(3) [unfolded Bumping]]
        map_created_announced(2) [where m = "index_of s", OF _ an] an by (auto simp: index_announced_def)
  next
    case (Querying now sw)
    have "was_due cells ?h now q" if "index_of s q = Some e" "sint (ExpireAt e) \<le> sint now" for q e
      using that an Querying unfolding was_due_def by (meson list.set_intros(1))
    then have "task_ok cells ?h t'" if "\<exists>ids. t' = Purging now ids
        \<and> (\<forall>q\<in>set ids. \<exists>e. index_of s q = Some e \<and> sint (ExpireAt e) \<le> sint now)"
      using that by (elim exE conjE) (simp, blast)
    then show ?thesis using query_step [OF ok assms(3) [unfolded Querying]] an
      by (auto simp: index_announced_def)
  next
    case (Purging now ids)
    then show ?thesis using purge_step [OF ok assms(3) [unfolded Purging]] an
      by (auto simp: index_announced_def)
  next
    case (Pruning ids)
    then show ?thesis using index_step(3) [OF ok assms(3) [unfolded Pruning]] an
      by (auto simp: index_announced_def map_remove_apply split: if_splits)
  qed
qed

lemma interleaved_invariant:
  assumes "interleaved api s0 h T s" "index_ok s0" "index_of s0 = Map.empty"
  shows "index_announced h s \<and> (\<forall>i. task_ok cells h (T i))"
  using assms
proof (induction rule: interleaved.induct)
  case (step h T s holder i t' s')
  then have inv: "index_announced h s" "task_ok cells h (T i)" and T: "\<And>j. task_ok cells h (T j)" by blast+
  have "task_ok cells ((T i, s) # h) (T j)" for j by (rule task_ok_mono [OF T])
  then show ?case using index_announced_step [OF inv step.hyps(2)] by simp
next
  case (outside h T s w tx os lg ev)
  then show ?case by (simp add: index_announced_def index_ok_def index_of_def)
qed (auto simp: index_announced_def)

text \<open>Only a purge changes the rows of a post, and only of one that was due when its sweep asked.\<close>

lemma interleaved_deletes:
  assumes "interleaved api s0 h T s" "index_ok s0" "index_of s0 = Map.empty"
    and "task_step api holder (T i) s = (t', s')" "post_rows s' q \<noteq> post_rows s q"
  shows "\<exists>now ids. T i = Purging now ids \<and> q \<in> set ids \<and> was_due cells h now q"
proof -
  note inv = interleaved_invariant [OF assms(1-3)]
  then have ok: "index_ok s" by (simp add: index_announced_def)
  show ?thesis
  proof (cases "T i")
    case Idle
    then show ?thesis using assms(4,5) by simp
  next
    case (Lookup now po)
    then show ?thesis using lookup_step [OF assms(4) [unfolded Lookup]] assms(5) by simp
  next
    case (Upserting now po d)
    then show ?thesis using index_step(1) [OF ok assms(4) [unfolded Upserting]] assms(5) by simp
  next
    case (Bumping po d)
    then show ?thesis using index_step(2) [OF ok assms(4) [unfolded Bumping]] assms(5) by simp
  next
    case (Querying now sw)
    then show ?thesis using query_step [OF ok assms(4) [unfolded Querying]] assms(5) by simp
  next
    case (Purging now ids)
    have "task_ok cells h (T i)" using inv by blast
    then show ?thesis using purge_step [OF ok assms(4) [unfolded Purging]] assms(5) Purging by auto
  next
    case (Pruning ids)
    then show ?thesis using index_step(3) [OF ok assms(4) [unfolded Pruning]] assms(5) by simp
  qed
qed

end

subsection \<open>A pending purge does not look again\<close>

text \<open>
  A batch that was queried is deleted with its entries whatever the index says by then: the
  task holds only the ids.
\<close>

lemma pending_purge:
  assumes "healthy s" "hard_mode holder (api_license api (srv s)) (api_version api (srv s))" "q \<in> set ids"
  shows "\<exists>s'. (solo api holder ^^ 2) (Purging now ids, s) = (Idle, s')
    \<and> post_rows s' q = [[], [], [], []] \<and> index_of s' q = None"
proof -
  obtain rs where rs: "expire_rows s = Some rs" and o: "outcomes s = []"
    and sch: "schema_ok footprint (tables s)"
    using assms(1) by (auto simp: healthy_def)
  have ne: "ids \<noteq> []" using assms(3) by auto
  let ?s2 = "s\<lparr>tables := wipe footprint ids (tables s)\<rparr>"
  let ?s3 = "?s2\<lparr>expire_rows := Some (filter (\<lambda>r. PostID r \<notin> set ids) rs)\<rparr>"
  have p: "configPurger_Purge holder sqlPurger_Purge (the_server api) ids s = ((int (length ids), None), ?s2)"
    using configPurger_hard [where s = s and lic = "api_license api" and ver = "api_version api", OF assms(2) ne]
      sqlPurger_Done [OF o sch ne] by (simp add: the_server_def)
  have d: "sqlStore_DeleteByPostIDs ids ?s2 = (None, ?s3)"
    using DeleteByPostIDs_Done [of ?s2 rs ids] o rs by simp
  have "(solo api holder ^^ 2) (Purging now ids, s) = (Idle, ?s3)"
    using p d by (simp add: numeral_2_eq_2)
  moreover have "index_of ?s3 q = None"
    using rows_map_delete [of ids rs] assms(3) by (simp add: index_of_def map_remove_apply)
  moreover have "post_rows ?s3 q = [[], [], [], []]"
    using post_rows_wipe [of ?s3 ids s q] assms(3) by simp
  ultimately show ?thesis by blast
qed

end
