(* ===== verification/Refinement.thy ===== *)
theory Refinement
  imports Interleaving
begin

section \<open>What the plugin is to do, and that it does it\<close>

text \<open>
  The specification of the whole plugin on maps: the settings of channels, the index of posts
  and the rows of posts in the server's tables. One step is what one hook or tick may do; it
  knows nothing of JSON, compare-and-set, SQL, statuses, transactions or failures. Every hook
  of the code is such a step (\<open>hook_refines\<close>), and so every run (\<open>run_refines\<close>).
\<close>

subsection \<open>The specification\<close>

record spec =
  sp_settings :: "string \<Rightarrow> TTLSetting option"
  sp_index :: index_map
  sp_rows :: "string \<Rightarrow> (string \<rightharpoonup> string) list list"

definition erase ::
  "string list \<Rightarrow> (string \<Rightarrow> (string \<rightharpoonup> string) list list) \<Rightarrow> string \<Rightarrow> (string \<rightharpoonup> string) list list" where
  "erase ids rows = (\<lambda>q. if q \<in> set ids then [[], [], [], []] else rows q)"

text \<open>Who asks, and when.\<close>

fun user_at :: "event \<Rightarrow> (string \<times> int64) option" where
  "user_at (Http now r) = Some (rq_user r, now)"
| "user_at (Command now args) = Some (arg_UserId args, now)"
| "user_at _ = None"

text \<open>
  A user who may manage a channel sets a TTL of a minute to a year or clears it; a new post of
  a channel with a TTL is entered, and a reply moves its thread (or not, when that fails); a
  tick takes the oldest expired entries, at most 500, and erases their posts, their entries,
  both or none. Any event may also change nothing.
\<close>

inductive spec_step :: "(string \<Rightarrow> string \<Rightarrow> bool) \<Rightarrow> event \<Rightarrow> spec \<Rightarrow> spec \<Rightarrow> bool"
  for may :: "string \<Rightarrow> string \<Rightarrow> bool" where
  stay: "spec_step may ev a a"
| set: "user_at ev = Some (u, now) \<Longrightarrow> may u ch \<Longrightarrow> 60 \<le> sint n \<Longrightarrow> sint n \<le> 31536000 \<Longrightarrow>
    spec_step may ev a
      (a\<lparr>sp_settings := (sp_settings a)(ch \<mapsto> \<lparr>DurationSeconds = n, SetBy = u, SetAt = now\<rparr>)\<rparr>)"
| clear: "user_at ev = Some (u, now) \<Longrightarrow> may u ch \<Longrightarrow>
    spec_step may ev a (a\<lparr>sp_settings := (sp_settings a)(ch := None)\<rparr>)"
| post: "ttl_of (sp_settings a) (Post_ChannelId po) = Some d \<Longrightarrow>
    ix \<in> {map_upsert (post_entry d now po) (sp_index a), map_created d now po (sp_index a)} \<Longrightarrow>
    spec_step may (Posted now (Some po)) a (a\<lparr>sp_index := ix\<rparr>)"
| sweep: "oldest_batch now 500 (sp_index a) es \<Longrightarrow>
    rows \<in> {sp_rows a, erase (map PostID es) (sp_rows a)} \<Longrightarrow>
    ix \<in> {sp_index a, map_remove (map PostID es) (sp_index a)} \<Longrightarrow>
    spec_step may (Tick now) a (a\<lparr>sp_index := ix, sp_rows := rows\<rparr>)"

inductive_cases spec_stepE: "spec_step may ev a a'"

text \<open>Runs of the specification; the rows of the server's tables may change in between.\<close>

inductive spec_run :: "spec \<Rightarrow> spec \<Rightarrow> bool" for a0 :: spec where
  start: "spec_run a0 a0"
| step: "spec_run a0 a \<Longrightarrow> spec_step may ev a a' \<Longrightarrow> spec_run a0 a'"
| rows: "spec_run a0 a \<Longrightarrow> spec_run a0 (a\<lparr>sp_rows := r\<rparr>)"

lemma spec_step_wf:
  "spec_step may ev a a' \<Longrightarrow> settings_wf (sp_settings a) \<Longrightarrow> settings_wf (sp_settings a')"
  by (erule spec_stepE) (simp_all add: settings_wf_upd settings_wf_delete)

lemma spec_run_wf: "spec_run a0 a \<Longrightarrow> settings_wf (sp_settings a0) \<Longrightarrow> settings_wf (sp_settings a)"
  by (induction rule: spec_run.induct) (auto intro: spec_step_wf)

text \<open>A post that is not due keeps its rows and its entry.\<close>

lemma spec_step_live:
  assumes "spec_step may (Tick now) a a'" "sp_index a q = Some e" "sint now < sint (ExpireAt e)"
    and key: "\<And>p e. sp_index a p = Some e \<Longrightarrow> PostID e = p"
  shows "sp_index a' q = Some e \<and> sp_rows a' q = sp_rows a q"
  using assms(1)
proof (cases rule: spec_step.cases)
  case (sweep es rows ix)
  have "q \<notin> set (map PostID es)"
  proof
    assume "q \<in> set (map PostID es)"
    then obtain b where b: "b \<in> set es" "PostID b = q" by auto
    then have "expired_in now (sp_index a) b" using sweep(2) by (simp add: oldest_batch_def)
    then have "sp_index a q = Some b" "sint (ExpireAt b) \<le> sint now" using b(2) by (auto simp: expired_in_def)
    then show False using assms(2,3) by simp
  qed
  then show ?thesis using sweep assms(2) by (auto simp: erase_def map_remove_apply)
qed (use assms(2) in auto)

subsection \<open>The abstraction\<close>

definition spec_of :: "('w \<Rightarrow> string \<rightharpoonup> bytes) \<Rightarrow> 'w world \<Rightarrow> spec" where
  "spec_of cells s =
     \<lparr>sp_settings = settings_of (cells (srv s)), sp_index = index_of s, sp_rows = post_rows s\<rparr>"

text \<open>
  Of the other calls of the server is assumed that they leave the settings in the plugin's
  key-value store alone, and of its user ids that they are valid UTF-8.
\<close>

definition keeps :: "('w \<Rightarrow> string \<rightharpoonup> bytes) \<Rightarrow> ('w \<Rightarrow> 'r \<times> 'w) \<Rightarrow> bool" where
  "keeps cells f \<longleftrightarrow> (\<forall>w r w'. f w = (r, w') \<longrightarrow> settings_of (cells w') = settings_of (cells w))"

definition quiet :: "'w plugin_api \<Rightarrow> ('w \<Rightarrow> string \<rightharpoonup> bytes) \<Rightarrow> bool" where
  "quiet api cells \<longleftrightarrow> keeps cells (LoadPluginConfiguration api)
     \<and> keeps cells (RegisterCommand api disappearCommand) \<and> keeps cells (GetMasterDB api)
     \<and> keeps cells (cluster_Schedule api ''disappear_sweeper'' sweeperInterval)
     \<and> keeps cells (job_Close api) \<and> (\<forall>i. keeps cells (api_DeletePost api i))"

definition user_ok :: "event \<Rightarrow> bool" where
  "user_ok ev = (case user_at ev of None \<Rightarrow> True | Some (u, now) \<Rightarrow> valid_utf8 u)"

subsection \<open>A tick is a sweep\<close>

lemma purge_rows:
  assumes "configPurger_Purge holder sqlPurger_Purge (server_of del lic ver) ids s = ((n, er), s')"
  shows "post_rows s' = post_rows s \<or> post_rows s' = erase ids (post_rows s)"
proof (cases rule: prod_switch.switch_cases [where holder = holder and ids = ids and s = s and del = del and lic = lic and ver = ver])
  case soft
  then show ?thesis
    using assms softDelete_loop_tables [of del lic ver ids s] post_rows_tables [of s' s] by simp
next
  case skip
  then show ?thesis using assms by auto
next
  case hard
  then have "sqlPurger_Purge ids s = ((n, er), s')" using assms by simp
  from sqlPurger_wipes_or_keeps [OF this] show ?thesis
    using post_rows_wipe [of s' ids s] post_rows_tables [of s' s] by (auto simp: erase_def fun_eq_iff)
qed

lemma tick_sweeps:
  assumes "index_ok s"
    and "Sweeper_Run sw sqlStore (configPurger_Purge holder sqlPurger_Purge (server_of del lic ver))
      LogError now s = s'"
  obtains (idle) "post_rows s' = post_rows s" "index_of s' = index_of s"
  | (swept) es where "oldest_batch now (nat (sint (batchSize sw))) (index_of s) es"
      "post_rows s' \<in> {post_rows s, erase (map PostID es) (post_rows s)}"
      "index_of s' \<in> {index_of s, map_remove (map PostID es) (index_of s)}"
  using assms(1)
proof (cases rule: prod_sweep.run_cases [where sw = sw and now = now and holder = holder and del = del
      and lic = lic and ver = ver])
  case idle
  then show ?thesis using that(1) by (simp add: assms(2))
next
  case (failed es s1 n e s2)
  then show ?thesis using purge_rows [OF failed(3)] that(2) [of es] by (simp add: assms(2))
next
  case (swept es s1 n s2)
  then show ?thesis using purge_rows [OF swept(3)] that(2) [of es] by (simp add: assms(2))
qed

subsection \<open>The simulation\<close>

lemma on_srv_keeps:
  assumes "on_srv f s = (r, s')" "keeps cells f"
  shows "spec_of cells s' = spec_of cells s"
  using assms by (auto simp: on_srv_def spec_of_def keeps_def split: prod.splits)

lemma spec_of_logs [simp]:
  "spec_of cells (LogError m kvs s) = spec_of cells s" "spec_of cells (LogInfo m kvs s) = spec_of cells s"
  by (simp_all add: spec_of_def LogInfo_def index_of_def post_rows_def fun_eq_iff)

lemma softDelete_loop_keeps:
  assumes "\<And>i. keeps cells (del i)"
  shows "settings_of (cells (srv (softDelete_loop (server_of del lic ver) ids s))) = settings_of (cells (srv s))"
proof (induction ids arbitrary: s)
  case (Cons i ids)
  obtain er w where d: "del i (srv s) = (er, w)" by (cases "del i (srv s)")
  then have "settings_of (cells w) = settings_of (cells (srv s))" using assms [of i] unfolding keeps_def by blast
  then show ?case using Cons.IH d by (cases er) (simp_all add: server_of_def)
qed simp

text \<open>Runs in which nothing but the plugin writes the settings.\<close>

inductive plugin_run ::
  "'w plugin_api \<Rightarrow> ('w \<Rightarrow> string \<rightharpoonup> bytes) \<Rightarrow> 'w world \<Rightarrow> (nat \<Rightarrow> plugin) \<Rightarrow> 'w world \<Rightarrow> bool"
  for api :: "'w plugin_api" and cells :: "'w \<Rightarrow> string \<rightharpoonup> bytes" and s0 :: "'w world" where
  start: "plugin_run api cells s0 (\<lambda>_. new_plugin) s0"
| step: "plugin_run api cells s0 P s \<Longrightarrow> hook api ev (P i) s = (p', s') \<Longrightarrow> user_ok ev \<Longrightarrow>
    plugin_run api cells s0 (P(i := p')) s'"
| restart: "plugin_run api cells s0 P s \<Longrightarrow> plugin_run api cells s0 (P(i := new_plugin)) s"
| outside: "plugin_run api cells s0 P s \<Longrightarrow> settings_of (cells w) = settings_of (cells (srv s)) \<Longrightarrow>
    plugin_run api cells s0 P (s\<lparr>srv := w, tables := tx, outcomes := os\<rparr>)"

lemma plugin_run_run: "plugin_run api cells s0 P s \<Longrightarrow> \<exists>h. run api s0 h P s"
proof (induction rule: plugin_run.induct)
  case (step P s ev i p' s')
  then show ?case using run.step by blast
qed (blast intro: run.start run.restart run.outside)+

context plugin_world
begin

lemma tick_settings:
  assumes "quiet api cells"
  shows "settings_of (cells (srv (sweeper_tick api now p s))) = settings_of (cells (srv s))"
proof -
  let ?f = "\<lambda>s. settings_of (cells (srv s))"
  let ?switch = "\<lambda>ids. configPurger_Purge (cfg p) sqlPurger_Purge (the_server api) ids"
  have p: "?f s2 = ?f s1" if "?switch ids s1 = (r, s2)" for ids r and s1 s2 :: "'w world"
  proof (cases rule: prod_switch.switch_cases [where holder = "cfg p" and ids = ids and s = s1
        and del = "api_DeletePost api" and lic = "api_license api" and ver = "api_version api"])
    case soft
    then show ?thesis using that assms softDelete_loop_keeps [where cells = cells and del = "api_DeletePost api"]
      by (auto simp: the_server_def quiet_def)
  next
    case skip
    then show ?thesis using that by (auto simp: the_server_def)
  next
    case hard
    then have "sqlPurger_Purge ids s1 = (r, s2)" using that by (simp add: the_server_def)
    then have "sqldb.more s2 = sqldb.more s1" using sqlPurger_keeps_index by blast
    then show ?thesis by (cases s1; cases s2) simp
  qed
  have q: "?f s2 = ?f s1" if "sqlStore_GetExpired now n s1 = (r, s2)" for n r and s1 s2 :: "'w world"
    using that by (auto simp: sqlStore_GetExpired_def db_query_def next_outcome_def
        split: prod.splits db_outcome.splits list.splits)
  have d: "?f s2 = ?f s1" if "sqlStore_DeleteByPostIDs ids s1 = (er, s2)" for ids er and s1 s2 :: "'w world"
    using that by (cases "ids = []"; cases "db_exec (on_expire (filter (\<lambda>r. PostID r \<notin> set ids))) s1")
      (auto simp: sqlStore_DeleteByPostIDs_def case_prod_beta deleteInSQL_inClause [simplified]
        dest: db_exec_frame)
  show ?thesis
    by (auto simp: sweeper_tick_def Sweeper_Run_def Let_def split: sweeper_job.splits option.splits prod.splits sum.splits
        dest!: p q d)
qed

lemma tick_refines:
  assumes "quiet api cells" "wired p" "index_ok s"
  shows "spec_step may (Tick now) (spec_of cells s) (spec_of cells (sweeper_tick api now p s))"
proof (cases "sweeperJob p = JobRunning")
  case False
  then have "sweeper_tick api now p s = s"
    by (simp add: sweeper_tick_def split: sweeper_job.splits option.splits)
  then show ?thesis by (simp add: spec_step.stay)
next
  case True
  let ?s' = "sweeper_tick api now p s"
  have "plugin_sweeper p = Some (Sweeper_New 500)" using assms(2) True by (simp add: wired_def)
  then have r: "Sweeper_Run (Sweeper_New 500) sqlStore (configPurger_Purge (cfg p) sqlPurger_Purge
      (server_of (api_DeletePost api) (api_license api) (api_version api))) LogError now s = ?s'"
    using True by (simp add: sweeper_tick_def the_server_def)
  have st: "settings_of (cells (srv ?s')) = settings_of (cells (srv s))" by (rule tick_settings [OF assms(1)])
  have n: "nat (sint (batchSize (Sweeper_New 500))) = 500" by (simp add: Sweeper_New_def)
  show ?thesis
  proof (cases rule: tick_sweeps [OF assms(3) r])
    case 1
    then have "spec_of cells ?s' = spec_of cells s" using st by (simp add: spec_of_def)
    then show ?thesis by (simp add: spec_step.stay)
  next
    case (2 es)
    have "spec_of cells ?s' = (spec_of cells s)\<lparr>sp_index := index_of ?s', sp_rows := post_rows ?s'\<rparr>"
      using st by (simp add: spec_of_def)
    then show ?thesis
      using spec_step.sweep [of now "spec_of cells s" es "post_rows ?s'" "index_of ?s'" may] 2 n
      by (simp add: spec_of_def)
  qed
qed

lemma request_frame:
  "Handler_ServeHTTP (the_ttl api) now r s = (resp, s') \<Longrightarrow> index_of s' = index_of s \<and> post_rows s' = post_rows s"
  "Handler_ExecuteCommand (the_ttl api) now args s = (cr, s') \<Longrightarrow> index_of s' = index_of s \<and> post_rows s' = post_rows s"
proof -
  let ?f = "\<lambda>s. (index_of s, post_rows s)"
  have f: "?f s' = ?f s" if "(other (srv s'), outside_srv s') = (other (srv s), outside_srv s)" for s s' :: "'w world"
    using that outside_srv_index [of s' s] post_rows_tables [of s' s] by (simp add: outside_srv_def)
  have b: "?f (broadcast ch t s) = ?f s" for ch t and s :: "'w world"
    using post_rows_tables [of "broadcast ch t s" s] by (simp add: broadcast_def index_of_def)
  show "index_of s' = index_of s \<and> post_rows s' = post_rows s"
    if "Handler_ServeHTTP (the_ttl api) now r s = (resp, s')"
    using api.serve_frame [OF that [unfolded the_ttl_def the_store_def], of ?f] f b by blast
  show "index_of s' = index_of s \<and> post_rows s' = post_rows s"
    if "Handler_ExecuteCommand (the_ttl api) now args s = (cr, s')"
    using api.command_frame [OF that [unfolded the_ttl_def the_store_def], of ?f] f b by blast
qed

lemma http_refines:
  assumes "Plugin_ServeHTTP api now r p s = Some (resp, s')" "valid_utf8 (rq_user r)"
  shows "spec_step (\<lambda>u ch. may_manage (perm_of (api_perm api)) u ch s) (Http now r) (spec_of cells s) (spec_of cells s')"
proof -
  have h: "Handler_ServeHTTP (the_ttl api) now r s = (resp, s')"
    using assms(1) by (auto simp: Plugin_ServeHTTP_def split: if_splits)
  note f = request_frame(1) [OF h]
  show ?thesis
  proof (cases rule: api.serve_settings [OF h [unfolded the_ttl_def the_store_def] assms(2)])
    case 1
    then have "spec_of cells s' = spec_of cells s" using f by (simp add: spec_of_def)
    then show ?thesis by (simp add: spec_step.stay)
  next
    case (2 ch n)
    have "spec_of cells s' = (spec_of cells s)\<lparr>sp_settings := settings_of (cells (srv s'))\<rparr>"
      using f by (simp add: spec_of_def)
    then show ?thesis using 2 spec_step.set [of "Http now r" "rq_user r" now _ ch n "spec_of cells s"]
      by (simp add: spec_of_def)
  next
    case (3 ch)
    have "spec_of cells s' = (spec_of cells s)\<lparr>sp_settings := settings_of (cells (srv s'))\<rparr>"
      using f by (simp add: spec_of_def)
    then show ?thesis using 3 spec_step.clear [of "Http now r" "rq_user r" now _ ch "spec_of cells s"]
      by (simp add: spec_of_def)
  qed
qed

lemma command_refines:
  assumes "Plugin_ExecuteCommand api now args p s = Some (cr, s')" "valid_utf8 (arg_UserId args)"
  shows "spec_step (\<lambda>u ch. may_manage (perm_of (api_perm api)) u ch s) (Command now args) (spec_of cells s) (spec_of cells s')"
proof -
  have h: "Handler_ExecuteCommand (the_ttl api) now args s = (cr, s')"
    using assms(1) by (auto simp: Plugin_ExecuteCommand_def split: if_splits)
  note f = request_frame(2) [OF h]
  show ?thesis
  proof (cases rule: api.command_settings [OF h [unfolded the_ttl_def the_store_def] assms(2)])
    case 1
    then have "spec_of cells s' = spec_of cells s" using f by (simp add: spec_of_def)
    then show ?thesis by (simp add: spec_step.stay)
  next
    case (2 ch n)
    have "spec_of cells s' = (spec_of cells s)\<lparr>sp_settings := settings_of (cells (srv s'))\<rparr>"
      using f by (simp add: spec_of_def)
    then show ?thesis using 2 spec_step.set [of "Command now args" "arg_UserId args" now _ ch n "spec_of cells s"]
      by (simp add: spec_of_def)
  next
    case (3 ch)
    have "spec_of cells s' = (spec_of cells s)\<lparr>sp_settings := settings_of (cells (srv s'))\<rparr>"
      using f by (simp add: spec_of_def)
    then show ?thesis using 3 spec_step.clear [of "Command now args" "arg_UserId args" now _ ch "spec_of cells s"]
      by (simp add: spec_of_def)
  qed
qed

lemma posted_refines:
  assumes "index_ok s"
  shows "spec_step may (Posted now po) (spec_of cells s) (spec_of cells (MessageHasBeenPosted api now po p s))"
proof (cases po)
  case None
  then show ?thesis by (simp add: MessageHasBeenPosted_def spec_step.stay)
next
  case (Some q)
  let ?s' = "MessageHasBeenPosted api now (Some q) p s"
  have eq: "spec_of cells ?s' = (spec_of cells s)\<lparr>sp_index := index_of ?s'\<rparr>"
    using posted_frame [of now "Some q" p s] post_rows_tables [of ?s' s] by (simp add: spec_of_def)
  show ?thesis
    using posted_map(2) [OF assms refl, of now q p]
  proof
    assume "index_of ?s' = index_of s"
    then have "spec_of cells ?s' = spec_of cells s" using eq by (simp add: spec_of_def)
    then show ?thesis using Some by (simp add: spec_step.stay)
  next
    assume "\<exists>d. world_ttl cells s (Post_ChannelId q) = Some d
      \<and> index_of ?s' \<in> {map_upsert (post_entry d now q) (index_of s), map_created d now q (index_of s)}"
    then obtain d where d: "ttl_of (sp_settings (spec_of cells s)) (Post_ChannelId q) = Some d"
      "index_of ?s' \<in> {map_upsert (post_entry d now q) (sp_index (spec_of cells s)),
         map_created d now q (sp_index (spec_of cells s))}"
      by (auto simp: world_ttl_def spec_of_def)
    from spec_step.post [OF this, of may] show ?thesis using Some eq by simp
  qed
qed

lemma other_state_spec:
  assumes "other_state s' = other_state s" "index_of s' = index_of s"
  shows "spec_of cells s' = spec_of cells s"
proof -
  have "srv s' = srv s" using assms(1) by (cases s; cases s') (simp add: other_state_def)
  then show ?thesis using assms other_state_rows [of s' s] by (simp add: spec_of_def)
qed

lemma OnActivate_keeps:
  assumes "OnActivate api p s = (p', s')" "quiet api cells" "index_ok s"
  shows "spec_of cells s' = spec_of cells s"
proof -
  have q: "keeps cells (LoadPluginConfiguration api)" "keeps cells (RegisterCommand api disappearCommand)"
    "keeps cells (GetMasterDB api)" "keeps cells (cluster_Schedule api ''disappear_sweeper'' sweeperInterval)"
    using assms(2) by (simp_all add: quiet_def)
  obtain p1 s1 where l: "loadConfig api p (LogInfo msg_activated [] s) = (p1, s1)"
    by (cases "loadConfig api p (LogInfo msg_activated [] s)")
  obtain r s2 where c: "on_srv (RegisterCommand api disappearCommand) s1 = (r, s2)"
    by (cases "on_srv (RegisterCommand api disappearCommand) s1")
  let ?s2 = "case r of Some err \<Rightarrow> LogError msg_command [(''err'', LogErr (AppErr err))] s2 | None \<Rightarrow> s2"
  let ?p2 = "p1\<lparr>ttlService_set := True, apiHandler_set := True\<rparr>"
  obtain r3 s3 where g: "on_srv (GetMasterDB api) ?s2 = (r3, s3)" by (cases "on_srv (GetMasterDB api) ?s2")
  obtain r4 s4 where m: "sqlStore_Migrate s3 = (r4, s4)" by (cases "sqlStore_Migrate s3")
  obtain b p5 s5 where e: "initExpiry api ?p2 ?s2 = (b, p5, s5)" by (metis prod.exhaust)
  obtain b6 p6 s6 where w: "initSweeper api p5 s5 = (b6, p6, s6)" by (metis prod.exhaust)
  have s1: "spec_of cells s1 = spec_of cells s \<and> index_ok s1"
    using l q(1) assms(3) on_srv_keeps [of "LoadPluginConfiguration api" "LogInfo msg_activated [] s"]
      on_srv_index [of "LoadPluginConfiguration api" "LogInfo msg_activated [] s"]
    by (auto simp: loadConfig_def split: prod.splits sum.splits)
  then have s2: "spec_of cells ?s2 = spec_of cells s \<and> index_ok ?s2"
    using on_srv_keeps [OF c q(2)] on_srv_index [OF c] by (cases r) auto
  have s3: "spec_of cells s3 = spec_of cells s" "index_ok s3"
    using on_srv_keeps [OF g q(3)] on_srv_index [OF g] s2 by simp_all
  have s4: "spec_of cells s4 = spec_of cells s3"
    using sql.migrate [OF s3(2), of r4 s4] m by (intro other_state_spec) simp_all
  have s5: "spec_of cells s5 = spec_of cells s"
    using e g m s3(1) s4 by (cases r3; cases r4) (auto simp: initExpiry_def Service_Migrate_def Let_def)
  have s6: "spec_of cells s6 = spec_of cells s5"
    using w q(4) by (auto simp: initSweeper_def Let_def split: prod.splits option.splits dest: on_srv_keeps)
  show ?thesis
    using assms(1) l c e w s1 s2 s5 s6
    by (cases "HasDriver api"; cases b; cases b6) (auto simp: OnActivate_def Let_def)
qed

text \<open>Every hook of the code is a step of the specification.\<close>

lemma hook_refines:
  assumes "hook api ev p s = (p', s')" "quiet api cells" "wired p" "index_ok s" "user_ok ev"
  shows "spec_step (\<lambda>u ch. may_manage (perm_of (api_perm api)) u ch s) ev (spec_of cells s) (spec_of cells s')"
proof (cases ev)
  case Activate
  then show ?thesis using OnActivate_keeps [of p s p' s'] assms by (simp add: spec_step.stay)
next
  case Deactivate
  have "spec_of cells s' = spec_of cells s"
    using assms Deactivate
    by (auto simp: OnDeactivate_def Let_def quiet_def split: prod.splits option.splits if_splits dest: on_srv_keeps)
  then show ?thesis by (simp add: spec_step.stay)
next
  case ConfigChange
  have "spec_of cells s' = spec_of cells s"
    using assms ConfigChange
    by (auto simp: OnConfigurationChange_def loadConfig_def quiet_def split: prod.splits sum.splits dest: on_srv_keeps)
  then show ?thesis by (simp add: spec_step.stay)
next
  case (Http now r)
  then show ?thesis
    using http_refines [of now r p s] assms(1,5)
    by (cases "Plugin_ServeHTTP api now r p s") (auto simp: user_ok_def spec_step.stay)
next
  case (Command now args)
  then show ?thesis
    using command_refines [of now args p s] assms(1,5)
    by (cases "Plugin_ExecuteCommand api now args p s") (auto simp: user_ok_def spec_step.stay)
next
  case (Posted now po)
  then show ?thesis using posted_refines [OF assms(4)] assms(1) by auto
next
  case (Tick now)
  then show ?thesis using tick_refines [OF assms(2-4)] assms(1) by auto
qed

lemma run_refines:
  assumes "plugin_run api cells s0 P s" "quiet api cells" "index_ok s0"
  shows "spec_run (spec_of cells s0) (spec_of cells s) \<and> index_ok s"
  using assms
proof (induction rule: plugin_run.induct)
  case (step P s ev i p' s')
  have "wired (P i)" using plugin_run_run [OF step.hyps(1)] run_wired by blast
  then show ?case
    using step.IH hook_refines [OF step.hyps(2) step.prems(1) _ _ step.hyps(3)] hook_index(1) [OF step.hyps(2)]
      step.prems spec_run.step by blast
next
  case (outside P s w os tx)
  let ?s' = "s\<lparr>srv := w, tables := tx, outcomes := os\<rparr>"
  have "spec_of cells ?s' = (spec_of cells s)\<lparr>sp_rows := post_rows ?s'\<rparr>"
    using outside.hyps(2) by (simp add: spec_of_def index_of_def)
  then show ?case using outside spec_run.rows by (simp add: index_ok_def)
qed (simp_all add: spec_run.start)

end

subsection \<open>A post of a channel with a TTL disappears\<close>

lemma sweeper_ticks:
  assumes "sweeperJob p = JobRunning" "plugin_sweeper p = Some sw"
  shows "fold (\<lambda>t. sweeper_tick api t p) ts s = Sweeper_ticks sw sqlStore
    (configPurger_Purge (cfg p) sqlPurger_Purge (the_server api)) LogError ts s"
  using assms by (induction ts arbitrary: s) (simp_all add: sweeper_tick_def)

context plugin_world
begin

lemma posted_healthy:
  assumes "healthy s" "expiryService_set p" "Post_Id po \<noteq> ''''"
    and "Service_GetTTL (the_store api) (Post_ChannelId po) s = (Inr (d, True), s1)"
    and s': "s' = MessageHasBeenPosted api now (Some po) p s"
  shows "healthy s' \<and> srv s' = srv s1 \<and> tables s' = tables s \<and> logs s' = logs s
    \<and> index_of s' = map_created d now po (index_of s)"
proof -
  obtain rs where rs: "expire_rows s = Some rs" and o: "outcomes s = []" and ok: "index_ok s"
    and sch: "schema_ok footprint (tables s)"
    using assms(1) by (auto simp: healthy_def)
  have "outside_srv s1 = outside_srv s"
    using expiry.reader.read_ttl [OF assms(4) [unfolded the_store_def]] by simp
  then have s1: "expire_rows s1 = Some rs" "outcomes s1 = []" "tables s1 = tables s" "logs s1 = logs s"
    "index_ok s1" "index_of s1 = index_of s"
    using rs o ok outside_srv_index [of s1 s] by (simp_all add: outside_srv_def)
  let ?e = "post_entry d now po"
  let ?s2 = "s1\<lparr>expire_rows := Some (upsertSQL ?e rs)\<rparr>"
  let ?s3 = "?s2\<lparr>expire_rows := Some (updateByRootSQL (expiry d po) (threadRoot po) (upsertSQL ?e rs))\<rparr>"
  have u: "sqlStore_Upsert ?e s1 = (None, ?s2)"
    using s1 by (simp add: sqlStore_Upsert_def db_exec_Done on_expire_def)
  then have u': "index_ok ?s2" "index_of ?s2 = map_upsert ?e (index_of s)"
    using sql.upsert [OF s1(5), of ?e None ?s2] s1(6) by simp_all
  have b: "sqlStore_UpdateExpireByRoot (threadRoot po) (expiry d po) ?s2 = (None, ?s3)"
    using s1 by (simp add: sqlStore_UpdateExpireByRoot_def db_exec_Done on_expire_def)
  then have b': "index_ok ?s3" "index_of ?s3 = map_bump (threadRoot po) (expiry d po) (index_of ?s2)"
    using sql.bump [OF u'(1), of "threadRoot po" "expiry d po" None ?s3] by simp_all
  have "s' = (if Post_RootId po = '''' then ?s2 else ?s3)"
    using assms(2-4) u b
    by (simp add: s' MessageHasBeenPosted_def OnPostCreated_def post_entry_def expiry_def Let_def)
  then show ?thesis using s1 u' b' sch by (auto simp: healthy_def map_created_def)
qed

lemma post_disappears:
  assumes "healthy s" "expiryService_set p" "Post_Id po \<noteq> ''''"
    and "Service_GetTTL (the_store api) (Post_ChannelId po) s = (Inr (d, True), s1)"
    and "sweeperJob p' = JobRunning" "plugin_sweeper p' = Some sw" "0 < sint (batchSize sw)"
    and "hard_mode (cfg p') (api_license api (srv s1)) (api_version api (srv s1))"
    and "\<And>t. t \<in> set ts \<Longrightarrow> sint (expiry d po) \<le> sint t"
    and s2: "s2 = MessageHasBeenPosted api now (Some po) p s"
    and "card (backlog (expiry d po) (index_of s2)) \<le> length ts * nat (sint (batchSize sw))"
  shows "post_rows (fold (\<lambda>t. sweeper_tick api t p') ts s2) (Post_Id po) = [[], [], [], []]
    \<and> Post_Id po \<notin> backlog (expiry d po) (index_of (fold (\<lambda>t. sweeper_tick api t p') ts s2))
    \<and> logs (fold (\<lambda>t. sweeper_tick api t p') ts s2) = logs s"
proof -
  have h: "healthy s2" "srv s2 = srv s1" "logs s2 = logs s" "index_of s2 = map_created d now po (index_of s)"
    using posted_healthy [OF assms(1-4) s2] by simp_all
  have "Post_Id po \<in> backlog (expiry d po) (index_of s2)"
    using map_created_self [of d now po "index_of s"] by (auto simp: backlog_def h(4))
  then show ?thesis
    using ticks_drain [where s = s2 and holder = "cfg p'" and lic = "api_license api" and ver = "api_version api"
        and del = "api_DeletePost api" and ts = ts and ?t0.0 = "expiry d po", OF h(1) _ assms(7,9,11)]
      assms(8) h(2,3) unfolding sweeper_ticks [OF assms(5,6)] the_server_def by simp
qed

end

end
