(* ===== verification/TTL_Race.thy ===== *)
theory TTL_Race
  imports TTL_Store
begin

section \<open>Concurrent calls of \<open>kvStore.Set\<close>\<close>

text \<open>
  The loop of \<open>Set\<close> (\<open>server/ttl/store.go\<close>) makes two calls per iteration, and other writers may
  come in between any two calls. \<open>writer_step\<close> is the loop cut at its calls: a writer is about
  to read (with so many iterations left, this one included), about to write what it has
  compared with, or finished with the result of \<open>Set\<close>. \<open>set_loop_steps\<close> relates it to the loop:
  run alone, it computes the same. A race interleaves the steps of \<open>N\<close> writers of one channel
  in any order.
\<close>

datatype writer = Reading nat | Writing nat byte_slice | Finished "ttl_error option"

definition enter :: "nat \<Rightarrow> writer" where
  "enter n = (if n = 0 then Finished (Some ErrTooManyRetries) else Reading n)"

fun writer_step ::
  "'s kv_api \<Rightarrow> string \<Rightarrow> bytes \<Rightarrow> writer \<Rightarrow> 's \<Rightarrow> writer \<times> 's" where
  "writer_step kv ch v (Reading n) s =
     (case KVGet kv (kvKey ch) s of
        (Inl e, s1) \<Rightarrow> (Finished (Some (ErrKVGet ch e)), s1)
      | (Inr cur, s1) \<Rightarrow> (Writing (n - 1) cur, s1))"
| "writer_step kv ch v (Writing n cur) s =
     (case KVSetWithOptions kv (kvKey ch) v \<lparr>Atomic = True, OldValue = cur\<rparr> s of
        (Inl e, s1) \<Rightarrow> (Finished (Some (ErrKVSet ch e)), s1)
      | (Inr ok, s1) \<Rightarrow> (if ok then Finished None else enter n, s1))"
| "writer_step kv ch v (Finished r) s = (Finished r, s)"

fun writer_steps ::
  "nat \<Rightarrow> 's kv_api \<Rightarrow> string \<Rightarrow> bytes \<Rightarrow> writer \<Rightarrow> 's \<Rightarrow> writer \<times> 's" where
  "writer_steps 0 kv ch v w s = (w, s)"
| "writer_steps (Suc k) kv ch v w s =
     (let (w', s') = writer_step kv ch v w s in writer_steps k kv ch v w' s')"

lemma writer_steps_finished [simp]: "writer_steps k kv ch v (Finished r) s = (Finished r, s)"
  by (induction k) simp_all

text \<open>The steps of one writer alone, two for each iteration, compute what the loop computes.\<close>

lemma set_loop_steps:
  "writer_steps (2 * n) kv ch v (enter n) s
     = (let (er, s') = set_loop n kv ch v s in (Finished er, s'))"
proof (induction n arbitrary: s)
  case (Suc n)
  obtain r s1 where g: "KVGet kv (kvKey ch) s = (r, s1)" by (cases "KVGet kv (kvKey ch) s")
  show ?case
  proof (cases r)
    case (Inl e)
    then show ?thesis using g by (simp add: enter_def)
  next
    case (Inr cur)
    obtain b s2 where c: "KVSetWithOptions kv (kvKey ch) v \<lparr>Atomic = True, OldValue = cur\<rparr> s1 = (b, s2)"
      by (cases "KVSetWithOptions kv (kvKey ch) v \<lparr>Atomic = True, OldValue = cur\<rparr> s1")
    show ?thesis
    proof (cases "b = Inr False")
      case True
      then show ?thesis using g Inr c Suc [of s2] by (simp add: enter_def [of "Suc n"])
    next
      case False
      then show ?thesis using g Inr c by (cases b) (simp_all add: enter_def [of "Suc n"])
    qed
  qed
qed (simp add: enter_def)

subsection \<open>Races\<close>

definition retries :: nat where
  "retries = nat (sint (maxRetries NewKVStore))"

lemma retries_20: "retries = 20"
  by (simp add: retries_def NewKVStore_def defaultMaxRetries_def)

inductive race ::
  "'s kv_api \<Rightarrow> string \<Rightarrow> (nat \<Rightarrow> bytes) \<Rightarrow> nat \<Rightarrow> 's \<Rightarrow> (nat \<Rightarrow> writer) \<Rightarrow> 's \<Rightarrow> bool"
  for kv :: "'s kv_api" and ch :: string and vals :: "nat \<Rightarrow> bytes" and N :: nat and s0 :: 's where
  race_start: "race kv ch vals N s0 (\<lambda>_. enter retries) s0"
| race_step: "race kv ch vals N s0 W s \<Longrightarrow> i < N \<Longrightarrow> writer_step kv ch (vals i) (W i) s = (w, s') \<Longrightarrow>
    race kv ch vals N s0 (W(i := w)) s'"

text \<open>A writer whose value has reached the store, as far as one can tell.\<close>

definition committed :: "writer \<Rightarrow> bool" where
  "committed w \<longleftrightarrow> w = Finished None \<or> (\<exists>ch e. w = Finished (Some (ErrKVSet ch e)))"

text \<open>
  The conflicts a writer has had, plus one if it is about to have the next: what it compared
  with is no longer in the cell.
\<close>

definition lost_to :: "writer \<Rightarrow> bytes \<Rightarrow> nat" where
  "lost_to w cell =
     (case w of
        Reading n \<Rightarrow> retries - n
      | Writing n cur \<Rightarrow> retries - Suc n + (if slice cur = cell then 0 else 1)
      | Finished r \<Rightarrow> if r = Some ErrTooManyRetries then retries else 0)"

definition busy_ok :: "writer \<Rightarrow> bool" where
  "busy_ok w = (case w of Reading n \<Rightarrow> 0 < n \<and> n \<le> retries | Writing n cur \<Rightarrow> n < retries | Finished r \<Rightarrow> True)"

definition rivals :: "nat \<Rightarrow> (nat \<Rightarrow> writer) \<Rightarrow> nat \<Rightarrow> nat set" where
  "rivals N W i = {j. j < N \<and> j \<noteq> i \<and> committed (W j)}"

lemma finite_rivals [simp]: "finite (rivals N W i)"
  by (simp add: rivals_def)

text \<open>
  A writer's losses stay within its rivals: when another writer moves on without a write, and when
  it commits, which costs each of the others one conflict and gives it one rival.
\<close>

lemma rivals_grow:
  assumes "committed (W i) \<Longrightarrow> committed w"
  shows "card (rivals N W j) \<le> card (rivals N (W(i := w)) j)"
  using assms by (intro card_mono finite_rivals) (auto simp: rivals_def)

lemma rivals_gain:
  assumes "i < N" "committed w" "\<not> committed (W i)" "j \<noteq> i"
  shows "card (rivals N (W(i := w)) j) = Suc (card (rivals N W j))"
proof -
  have "rivals N (W(i := w)) j = insert i (rivals N W j)" "i \<notin> rivals N W j"
    using assms by (auto simp: rivals_def)
  then show ?thesis by simp
qed

lemma lost_kept:
  assumes "\<And>j. lost_to (W j) c \<le> card (rivals N W j)"
    and "committed (W i) \<Longrightarrow> committed w" "lost_to w c \<le> lost_to (W i) c"
  shows "lost_to ((W(i := w)) j) c \<le> card (rivals N (W(i := w)) j)"
proof -
  have "lost_to ((W(i := w)) j) c \<le> lost_to (W j) c" using assms(3) by simp
  also have "\<dots> \<le> card (rivals N W j)" by (rule assms(1))
  also have "\<dots> \<le> card (rivals N (W(i := w)) j)" by (rule rivals_grow [OF assms(2)])
  finally show ?thesis .
qed

lemma lost_gained:
  assumes "\<And>j. lost_to (W j) c \<le> card (rivals N W j)"
    and "i < N" "committed w" "\<not> committed (W i)" "lost_to w c' = 0"
  shows "lost_to ((W(i := w)) j) c' \<le> card (rivals N (W(i := w)) j)"
proof (cases "j = i")
  case False
  have "lost_to (W j) c' \<le> lost_to (W j) c + 1" by (cases "W j") (simp_all add: lost_to_def)
  then show ?thesis using assms(1) [of j] rivals_gain [of i N w W j] assms(2-4) False by simp
qed (use assms(5) in simp)

context kv_service
begin

definition race_inv :: "string \<Rightarrow> (nat \<Rightarrow> bytes) \<Rightarrow> nat \<Rightarrow> 's \<Rightarrow> (nat \<Rightarrow> writer) \<Rightarrow> 's \<Rightarrow> bool" where
  "race_inv ch vals N s0 W s \<longleftrightarrow>
     (\<forall>i. busy_ok (W i) \<and> lost_to (W i) (slice (cells s (kvKey ch))) \<le> card (rivals N W i))
     \<and> (cells s = cells s0 \<and> (\<forall>i<N. W i \<noteq> Finished None)
        \<or> (\<exists>i<N. committed (W i) \<and> cells s = (cells s0)(kvKey ch \<mapsto> vals i)))
     \<and> other s = other s0"

text \<open>One step of a writer, as the contract sees it.\<close>

lemma writer_step_cases:
  assumes "writer_step kv ch v w s = (w', s')" "busy_ok w"
  obtains (idle) "cells s' = cells s" "other s' = other s" "committed w' = committed w" "busy_ok w'"
      "lost_to w' (slice (cells s (kvKey ch))) \<le> lost_to w (slice (cells s (kvKey ch)))"
      "w' = Finished None \<Longrightarrow> w = Finished None"
    | (failed) "cells s' = cells s" "other s' = other s" "committed w'" "\<not> committed w" "busy_ok w'"
      "lost_to w' (slice (cells s (kvKey ch))) = 0" "w' \<noteq> Finished None"
    | (commits) "cells s' = (cells s)(kvKey ch \<mapsto> v)" "other s' = other s" "committed w'" "\<not> committed w"
      "busy_ok w'" "lost_to w' v = 0"
proof (cases w)
  case (Reading n)
  obtain r s1 where g: "KVGet kv (kvKey ch) s = (r, s1)" by (cases "KVGet kv (kvKey ch) s")
  then show ?thesis
    using assms Reading kv_get [OF g]
    by (intro idle) (cases r; auto simp: committed_def busy_ok_def lost_to_def)+
next
  case (Writing n cur)
  obtain b s1 where c: "KVSetWithOptions kv (kvKey ch) v \<lparr>Atomic = True, OldValue = cur\<rparr> s = (b, s1)"
    by (cases "KVSetWithOptions kv (kvKey ch) v \<lparr>Atomic = True, OldValue = cur\<rparr> s")
  note c' = kv_cas [OF c]
  show ?thesis
  proof (cases b)
    case (Inl e)
    then show ?thesis using assms Writing c c' failed commits
      by (auto simp: committed_def busy_ok_def lost_to_def)
  next
    case (Inr ok)
    show ?thesis
    proof (cases ok)
      case True
      then show ?thesis using assms Writing c c' Inr commits
        by (auto simp: committed_def busy_ok_def lost_to_def)
    next
      case False
      then show ?thesis using assms Writing c c' Inr
        by (intro idle; cases "n = 0") (auto simp: committed_def busy_ok_def lost_to_def enter_def)
    qed
  qed
qed (use assms idle in auto)

text \<open>A step writes the cell or nothing, and only what has been written is a success.\<close>

lemma writer_step_cells:
  assumes "writer_step kv ch v w s = (w', s')" "\<And>er. w \<noteq> Finished er"
  shows "other s' = other s \<and> (cells s' = cells s \<or> cells s' = (cells s)(kvKey ch \<mapsto> v))
    \<and> (w' = Finished None \<longrightarrow> cells s' = (cells s)(kvKey ch \<mapsto> v))"
proof (cases w)
  case (Reading n)
  then show ?thesis using assms(1) kv_get [of "kvKey ch" s]
    by (auto split: prod.splits sum.splits)
next
  case (Writing n cur)
  then show ?thesis using assms(1) kv_cas [of "kvKey ch" v cur s]
    by (auto simp: enter_def split: prod.splits sum.splits if_splits)
qed (use assms(2) in simp)

text \<open>What a step leaves of the cells: they are the first ones, or a committed writer's.\<close>

lemma race_cells_keep:
  assumes "cells s = cells s0 \<and> (\<forall>i<N. W i \<noteq> Finished None)
      \<or> (\<exists>j<N. committed (W j) \<and> cells s = (cells s0)(k \<mapsto> vals j))"
    and "cells s' = cells s" "committed (W i) \<Longrightarrow> committed w" "w = Finished None \<Longrightarrow> W i = Finished None"
  shows "cells s' = cells s0 \<and> (\<forall>j<N. (W(i := w)) j \<noteq> Finished None)
      \<or> (\<exists>j<N. committed ((W(i := w)) j) \<and> cells s' = (cells s0)(k \<mapsto> vals j))"
  using assms(1)
proof (elim disjE exE conjE)
  assume "cells s = cells s0" "\<forall>i<N. W i \<noteq> Finished None"
  then show ?thesis using assms(2,4) by auto
next
  fix j
  assume j: "j < N" "committed (W j)" "cells s = (cells s0)(k \<mapsto> vals j)"
  then have "committed ((W(i := w)) j)" using assms(3) by (cases "j = i") simp_all
  then show ?thesis using j assms(2) by (intro disjI2 exI [of _ j]) simp
qed

text \<open>The invariant: a conflict is always lost to a rival that has committed.\<close>

lemma race_inv_step:
  assumes inv: "race_inv ch vals N s0 W s" and i: "i < N"
    and st: "writer_step kv ch (vals i) (W i) s = (w, s')"
  shows "race_inv ch vals N s0 (W(i := w)) s'"
proof -
  let ?k = "kvKey ch" and ?W = "W(i := w)"
  have b: "busy_ok (W j)" and l: "lost_to (W j) (slice (cells s ?k)) \<le> card (rivals N W j)" for j
    using inv by (auto simp: race_inv_def)
  have o: "other s = other s0" and c: "cells s = cells s0 \<and> (\<forall>i<N. W i \<noteq> Finished None)
      \<or> (\<exists>i<N. committed (W i) \<and> cells s = (cells s0)(?k \<mapsto> vals i))"
    using inv by (auto simp: race_inv_def)
  from st b [of i] show ?thesis
  proof (cases rule: writer_step_cases)
    case idle
    have "lost_to (?W j) (slice (cells s' ?k)) \<le> card (rivals N ?W j)" for j
      unfolding idle(1) by (rule lost_kept) (use l idle(3,5) in simp_all)
    moreover note race_cells_keep [OF c idle(1) _ idle(6)]
    ultimately show ?thesis using idle(2-4) b o by (simp add: race_inv_def)
  next
    case failed
    have "lost_to (?W j) (slice (cells s' ?k)) \<le> card (rivals N ?W j)" for j
      unfolding failed(1) by (rule lost_kept) (use l failed(3,6) in simp_all)
    moreover note race_cells_keep [OF c failed(1) failed(3)]
    ultimately show ?thesis using failed(2,5,7) b o by (simp add: race_inv_def)
  next
    case commits
    have "lost_to (?W j) (slice (cells s' ?k)) \<le> card (rivals N ?W j)" for j
      by (rule lost_gained) (use l commits(1,3,4,6) i in \<open>simp_all add: slice_def\<close>)
    moreover have "cells s' = (cells s0)(?k \<mapsto> vals i)" using c commits(1) by (auto simp: fun_eq_iff)
    then have "\<exists>j<N. committed (?W j) \<and> cells s' = (cells s0)(?k \<mapsto> vals j)"
      using commits(3) i by (intro exI [of _ i]) simp
    ultimately show ?thesis using commits(2,5) b o by (simp add: race_inv_def)
  qed
qed

lemma race_inv_holds: "race kv ch vals N s0 W s \<Longrightarrow> race_inv ch vals N s0 W s"
proof (induction rule: race.induct)
  case race_start
  then show ?case
    by (simp add: race_inv_def enter_def retries_20 busy_ok_def lost_to_def)
next
  case (race_step W s i w s')
  then show ?case by (intro race_inv_step)
qed

text \<open>Up to 20 writers, none gives up: each of its conflicts is another writer's success.\<close>

lemma race_no_give_up:
  assumes "race kv ch vals N s0 W s" "N \<le> 20"
  shows "W i \<noteq> Finished (Some ErrTooManyRetries)"
proof
  assume w: "W i = Finished (Some ErrTooManyRetries)"
  show False
  proof (cases "i < N")
    case True
    have "rivals N W i \<subseteq> {..<N} - {i}" by (auto simp: rivals_def)
    then have "card (rivals N W i) \<le> card ({..<N} - {i})" by (intro card_mono) simp_all
    also have "\<dots> = N - 1" using True by simp
    finally have "card (rivals N W i) < 20" using assms(2) True by linarith
    moreover have "lost_to (W i) (slice (cells s (kvKey ch))) \<le> card (rivals N W i)"
      using race_inv_holds [OF assms(1)] by (simp add: race_inv_def)
    ultimately show False by (simp add: w lost_to_def retries_20)
  next
    case False
    from assms(1) False have "W i = enter retries"
      by (induction rule: race.induct) auto
    then show False using w by (simp add: enter_def retries_20)
  qed
qed

text \<open>Whatever the order, the cell holds the value of one writer that has not failed before its write.\<close>

lemma race_survivor:
  assumes "race kv ch vals N s0 W s" "i < N" "W i = Finished None"
  shows "\<exists>j<N. committed (W j) \<and> cells s = (cells s0)(kvKey ch \<mapsto> vals j)"
  using race_inv_holds [OF assms(1)] assms(2,3) by (auto simp: race_inv_def)

end

end
