(* ===== verification/Requests.thy ===== *)
theory Requests
  imports Cluster TTL_Race
begin

section \<open>Requests that interleave call by call\<close>

text \<open>
  A request or command that changes a channel's TTL asks for the permission, makes its calls to
  the key-value store and then announces the change (\<open>handleSet\<close> and \<open>handleDelete\<close> of
  \<open>server/api/handler.go\<close>, \<open>cmdSet\<close> and \<open>cmdOff\<close> of \<open>server/api/command.go\<close>, with \<open>SetTTL\<close> and
  \<open>ClearTTL\<close> of \<open>server/ttl/service.go\<close>). Requests run concurrently, on one node or several, and
  nothing orders what one does between two calls of another. Here a step is one call, except
  that the three questions of \<open>checkCanManage\<close> are one step: they only read.
\<close>

text \<open>
  The change a request asks for: who, where, for how long, at what time, and what the event will
  say.
\<close>

datatype change = SetTo string string duration int64 ttlDTO | SwitchOff string string

primrec chg_actor :: "change \<Rightarrow> string" where
  "chg_actor (SetTo u ch d at t) = u"
| "chg_actor (SwitchOff u ch) = u"

primrec chg_channel :: "change \<Rightarrow> string" where
  "chg_channel (SetTo u ch d at t) = ch"
| "chg_channel (SwitchOff u ch) = ch"

primrec chg_told :: "change \<Rightarrow> ttlDTO option" where
  "chg_told (SetTo u ch d at t) = Some t"
| "chg_told (SwitchOff u ch) = None"

primrec chg_setting :: "change \<Rightarrow> TTLSetting option" where
  "chg_setting (SetTo u ch d at t) = Some \<lparr>DurationSeconds = int64_Seconds d, SetBy = u, SetAt = at\<rparr>"
| "chg_setting (SwitchOff u ch) = None"

text \<open>What it leaves in the cell of its channel.\<close>

definition chg_cell :: "change \<Rightarrow> bytes option" where
  "chg_cell c = map_option marshal_TTLSetting (chg_setting c)"

text \<open>The part of the handlers before the first call: most requests are refused or only read.\<close>

definition http_change :: "int64 \<Rightarrow> http_request \<Rightarrow> change option" where
  "http_change now r =
     (if rq_user r = '''' then None
      else
        case mux_route (rq_method r) (case CutPrefix (rq_path r) (''/plugins/'' @ PluginID) of
            Some rest \<Rightarrow> rest | None \<Rightarrow> rq_path r) of
          RouteSet \<Rightarrow>
            (case decode_set r of
               None \<Rightarrow> None
             | Some req \<Rightarrow>
                 if req_ChannelID req = '''' \<or> sint (req_TTLSeconds req) < 0 then None
                 else Some (SetTo (rq_user r) (req_ChannelID req) (req_TTLSeconds req * Second) now
                   (set_dto now r req)))
        | RouteDelete channelID \<Rightarrow> Some (SwitchOff (rq_user r) channelID)
        | _ \<Rightarrow> None)"

definition command_change :: "int64 \<Rightarrow> command_args \<Rightarrow> change option" where
  "command_change now args =
     (let parts = Fields (arg_Command args) in
      if length parts < 2 then None
      else if parts ! 1 = ''set'' then
        (if length parts < 3 then None
         else
           case parseTTLArg (parts ! 2) of
             Inl err \<Rightarrow> None
           | Inr d \<Rightarrow> Some (SetTo (arg_UserId args) (arg_ChannelId args) d now
               \<lparr>dto_DurationSeconds = int64_Seconds d, dto_SetBy = arg_UserId args, dto_SetAt = now\<rparr>))
      else if parts ! 1 = ''off'' then Some (SwitchOff (arg_UserId args) (arg_ChannelId args))
      else None)"

subsection \<open>The steps of a request\<close>

datatype request =
    NoRequest
  | Checking change
  | Storing change writer
  | Removing change
  | Announcing change
  | Answered change "ttl_error option"

definition storing :: "change \<Rightarrow> writer \<Rightarrow> request" where
  "storing c w =
     (case w of
        Finished None \<Rightarrow> Announcing c
      | Finished (Some err) \<Rightarrow> Answered c (Some err)
      | _ \<Rightarrow> Storing c w)"

lemma storing_simps [simp]:
  "storing c (Reading n) = Storing c (Reading n)" "storing c (Writing n cur) = Storing c (Writing n cur)"
  "storing c (Finished None) = Announcing c" "storing c (Finished (Some err)) = Answered c (Some err)"
  by (simp_all add: storing_def)

abbreviation api_checker :: "'w plugin_api \<Rightarrow> ('w world) perm_api" where
  "api_checker api \<equiv> perm_of (api_perm api)"

fun change_check :: "'w plugin_api \<Rightarrow> change \<Rightarrow> 'w world \<Rightarrow> ttl_error option" where
  "change_check api (SetTo u ch d at t) s =
     (case ValidateTTL d of
        Some err \<Rightarrow> Some err
      | None \<Rightarrow> Service_checkCanManage (api_checker api) u ch s)"
| "change_check api (SwitchOff u ch) s = Service_checkCanManage (api_checker api) u ch s"

fun request_step :: "'w plugin_api \<Rightarrow> request \<times> 'w world \<Rightarrow> request \<times> 'w world" where
  "request_step api (Checking c, s) =
     (case change_check api c s of
        Some err \<Rightarrow> (Answered c (Some err), s)
      | None \<Rightarrow> (if chg_setting c = None then Removing c else storing c (enter retries), s))"
| "request_step api (Storing c w, s) =
     (let (w', s') = writer_step (kv_of (api_kv api)) (chg_channel c)
          (marshal_TTLSetting (the (chg_setting c))) w s
      in (storing c w', s'))"
| "request_step api (Removing c, s) =
     (case KVDelete (kv_of (api_kv api)) (kvKey (chg_channel c)) s of
        (Some appErr, s1) \<Rightarrow> (Answered c (Some (ErrKVDelete (chg_channel c) appErr)), s1)
      | (None, s1) \<Rightarrow> (Announcing c, s1))"
| "request_step api (Announcing c, s) = (Answered c None, broadcast (chg_channel c) (chg_told c) s)"
| "request_step api (q, s) = (q, s)"

subsection \<open>A request that is left alone computes the handler\<close>

lemma answered_stays [simp]: "(request_step api ^^ n) (Answered c er, s) = (Answered c er, s)"
  by (induction n) simp_all

lemma answered_later:
  assumes "(request_step api ^^ k) x = (Answered c er, s)" "k \<le> n"
  shows "(request_step api ^^ n) x = (Answered c er, s)"
proof -
  have "(request_step api ^^ n) x = (request_step api ^^ (n - k)) ((request_step api ^^ k) x)"
    using funpow_add [of "n - k" k "request_step api"] assms(2) by simp
  then show ?thesis by (simp add: assms(1))
qed

lemma step_first: "(request_step api ^^ Suc n) x = (request_step api ^^ n) (request_step api x)"
  by (simp add: funpow_swap1)

text \<open>The loop, from the entry to an iteration to its end.\<close>

lemma solo_storing:
  assumes "chg_setting c = Some t"
    and "set_loop n (kv_of (api_kv api)) (chg_channel c) (marshal_TTLSetting t) s = (er, s')"
  shows "\<exists>k \<le> 2 * n. (request_step api ^^ k) (storing c (enter n), s) = (storing c (Finished er), s')"
  using assms(2)
proof (induction n arbitrary: s)
  case 0
  then show ?case by (intro exI [of _ 0]) (simp add: enter_def)
next
  case (Suc n)
  let ?kv = "kv_of (api_kv api)" and ?ch = "chg_channel c" and ?v = "marshal_TTLSetting t"
  obtain r s1 where g: "KVGet ?kv (kvKey ?ch) s = (r, s1)" by (cases "KVGet ?kv (kvKey ?ch) s")
  have e: "storing c (enter (Suc n)) = Storing c (Reading (Suc n))"
    by (simp add: enter_def)
  show ?case
  proof (cases r)
    case (Inl err)
    then show ?thesis using Suc.prems g assms(1)
      by (intro exI [of _ 1]) (simp add: e)
  next
    case (Inr cur)
    obtain b s2 where c: "KVSetWithOptions ?kv (kvKey ?ch) ?v \<lparr>Atomic = True, OldValue = cur\<rparr> s1 = (b, s2)"
      by (cases "KVSetWithOptions ?kv (kvKey ?ch) ?v \<lparr>Atomic = True, OldValue = cur\<rparr> s1")
    have 1: "request_step api (storing c (enter (Suc n)), s) = (Storing c (Writing n cur), s1)"
      using g Inr assms(1) by (simp add: e)
    show ?thesis
    proof (cases "b = Inr False")
      case True
      then have l: "set_loop n ?kv ?ch ?v s2 = (er, s')" using Suc.prems g Inr c by simp
      obtain k where k: "k \<le> 2 * n" "(request_step api ^^ k) (storing c (enter n), s2) = (storing c (Finished er), s')"
        using Suc.IH [OF l] by blast
      have 2: "request_step api (Storing c (Writing n cur), s1) = (storing c (enter n), s2)"
        using c True assms(1) by simp
      have "(request_step api ^^ Suc (Suc k)) (storing c (enter (Suc n)), s) = (storing c (Finished er), s')"
        unfolding step_first 1 2 by (rule k(2))
      then show ?thesis using k(1) by (intro exI [of _ "Suc (Suc k)"]) simp
    next
      case False
      have "(request_step api ^^ Suc (Suc 0)) (storing c (enter (Suc n)), s) = (storing c (Finished er), s')"
        unfolding step_first 1 using Suc.prems g Inr c False assms(1) by (cases b) auto
      then show ?thesis by (intro exI [of _ "Suc (Suc 0)"]) simp
    qed
  qed
qed

text \<open>What a change does when it has the store to itself.\<close>

definition change_alone :: "'w plugin_api \<Rightarrow> change \<Rightarrow> 'w world \<Rightarrow> ttl_error option \<times> 'w world" where
  "change_alone api c s =
     (case (case c of
          SetTo u ch d at t \<Rightarrow> SetTTL (the_ttl api) u ch d at s
        | SwitchOff u ch \<Rightarrow> ClearTTL (the_ttl api) u ch s) of
        (Some err, s1) \<Rightarrow> (Some err, s1)
      | (None, s1) \<Rightarrow> (None, broadcast (chg_channel c) (chg_told c) s1))"

lemma solo_request:
  "(request_step api ^^ 42) (Checking c, s) = (let (er, s') = change_alone api c s in (Answered c er, s'))"
proof (cases "change_check api c s")
  case (Some err)
  then have "(request_step api ^^ 1) (Checking c, s) = (Answered c (Some err), s)" by simp
  moreover have "change_alone api c s = (Some err, s)"
    using Some by (cases c)
      (auto simp: change_alone_def the_ttl_def Service_SetTTL_def Service_ClearTTL_def split: option.splits)
  ultimately show ?thesis using answered_later [of 1 api] by simp
next
  case None
  show ?thesis
  proof (cases c)
    case (SetTo u ch d at t)
    let ?t = "\<lparr>DurationSeconds = int64_Seconds d, SetBy = u, SetAt = at\<rparr>"
    obtain er s1 where l: "set_loop retries (kv_of (api_kv api)) ch (marshal_TTLSetting ?t) s = (er, s1)"
      by (cases "set_loop retries (kv_of (api_kv api)) ch (marshal_TTLSetting ?t) s")
    then obtain k where k: "k \<le> 2 * retries"
        "(request_step api ^^ k) (storing c (enter retries), s) = (storing c (Finished er), s1)"
      using solo_storing [of c ?t retries api s er s1] by (auto simp: SetTo)
    have "SetTTL (the_ttl api) u ch d at s = (er, s1)"
      using None l by (simp add: SetTo the_ttl_def the_store_def Service_SetTTL_def kvStore_Set_def
          retries_def split: option.splits)
    then have a: "change_alone api c s = (er, if er = None then broadcast ch (Some t) s1 else s1)"
      by (cases er) (simp_all add: change_alone_def SetTo)
    have "(request_step api ^^ (Suc (k + Suc 0))) (Checking c, s)
        = request_step api (storing c (Finished er), s1)"
      unfolding step_first using None k(2) by (simp add: SetTo)
    also have "\<dots> = (Answered c er, if er = None then broadcast ch (Some t) s1 else s1)"
      by (cases er) (simp_all add: SetTo)
    finally show ?thesis
      using answered_later [of "Suc (k + Suc 0)" api "(Checking c, s)" c er _ 42] k(1)
      by (simp add: a retries_20)
  next
    case (SwitchOff u ch)
    obtain er s1 where d: "KVDelete (kv_of (api_kv api)) (kvKey ch) s = (er, s1)"
      by (cases "KVDelete (kv_of (api_kv api)) (kvKey ch) s")
    let ?s' = "if er = None then broadcast ch None s1 else s1"
    have a: "change_alone api c s = (map_option (ErrKVDelete ch) er, ?s')"
      using None d by (cases er) (simp_all add: change_alone_def SwitchOff the_ttl_def the_store_def
          Service_ClearTTL_def kvStore_Clear_def)
    have "(request_step api ^^ 3) (Checking c, s) = (Answered c (map_option (ErrKVDelete ch) er), ?s')"
      using None d by (cases er) (simp_all add: SwitchOff numeral_3_eq_3)
    then show ?thesis using answered_later [of 3 api "(Checking c, s)" c _ _ 42] by (simp add: a)
  qed
qed

text \<open>The answer of a handler to a change that ended so.\<close>

definition change_response :: "change \<Rightarrow> ttl_error option \<Rightarrow> http_response" where
  "change_response c er =
     (case er of
        Some err \<Rightarrow> writeDomainError err
      | None \<Rightarrow>
          (case chg_told c of
             Some dto \<Rightarrow> \<lparr>status = 201, resp_body = SettingBody dto\<rparr>
           | None \<Rightarrow> \<lparr>status = 204, resp_body = NoBody\<rparr>))"

lemma serve_change:
  assumes "http_change now r = Some c"
  shows "Handler_ServeHTTP (the_ttl api) now r s
    = (let (er, s') = change_alone api c s in (change_response c er, s'))"
proof -
  let ?path = "case CutPrefix (rq_path r) (''/plugins/'' @ PluginID) of Some rest \<Rightarrow> rest | None \<Rightarrow> rq_path r"
  have u: "rq_user r \<noteq> ''''" using assms by (auto simp: http_change_def)
  consider (set) req where "mux_route (rq_method r) ?path = RouteSet" "decode_set r = Some req"
      "req_ChannelID req \<noteq> ''''" "\<not> sint (req_TTLSeconds req) < 0"
      "c = SetTo (rq_user r) (req_ChannelID req) (req_TTLSeconds req * Second) now (set_dto now r req)"
    | (off) ch where "mux_route (rq_method r) ?path = RouteDelete ch" "c = SwitchOff (rq_user r) ch"
    using assms u unfolding http_change_def by (simp split: route.splits option.splits if_splits)
  then show ?thesis
  proof cases
    case set
    obtain er s1 where t: "SetTTL (the_ttl api) (rq_user r) (req_ChannelID req) (req_TTLSeconds req * Second) now s = (er, s1)"
      by (cases "SetTTL (the_ttl api) (rq_user r) (req_ChannelID req) (req_TTLSeconds req * Second) now s")
    have "Handler_ServeHTTP (the_ttl api) now r s = handleSet (the_ttl api) now r s"
      using set(1) by (simp add: Handler_ServeHTTP_def)
    then show ?thesis using set t u
      by (cases er) (simp_all add: handleSet_def change_alone_def change_response_def set_dto_def Let_def)
  next
    case off
    obtain er s1 where t: "ClearTTL (the_ttl api) (rq_user r) ch s = (er, s1)"
      by (cases "ClearTTL (the_ttl api) (rq_user r) ch s")
    have "Handler_ServeHTTP (the_ttl api) now r s = handleDelete (the_ttl api) ch r s"
      using off(1) by (simp add: Handler_ServeHTTP_def)
    then show ?thesis using off t u
      by (cases er) (simp_all add: handleDelete_def change_alone_def change_response_def)
  qed
qed

text \<open>The answer of a command.\<close>

definition change_reply :: "command_args \<Rightarrow> change \<Rightarrow> ttl_error option \<Rightarrow> command_response" where
  "change_reply args c er = ephemeral (arg_ChannelId args)
     (case er of
        Some err \<Rightarrow> userMessage err
      | None \<Rightarrow> if chg_told c = None then msg_disabled else msg_enabled (Fields (arg_Command args) ! 2))"

lemma command_alone:
  assumes "command_change now args = Some c"
  shows "Handler_ExecuteCommand (the_ttl api) now args s
    = (let (er, s') = change_alone api c s in (change_reply args c er, s'))"
proof -
  let ?parts = "Fields (arg_Command args)" and ?ch = "arg_ChannelId args" and ?u = "arg_UserId args"
  have l: "\<not> length ?parts < 2" using assms by (auto simp: command_change_def Let_def split: if_splits)
  consider (set) d where "?parts ! 1 = ''set''" "\<not> length ?parts < 3" "parseTTLArg (?parts ! 2) = Inr d"
      "c = SetTo ?u ?ch d now \<lparr>dto_DurationSeconds = int64_Seconds d, dto_SetBy = ?u, dto_SetAt = now\<rparr>"
    | (off) "?parts ! 1 = ''off''" "c = SwitchOff ?u ?ch"
    using assms by (auto simp: command_change_def Let_def split: if_splits sum.splits)
  then show ?thesis
  proof cases
    case set
    obtain er s1 where t: "SetTTL (the_ttl api) ?u ?ch d now s = (er, s1)"
      by (cases "SetTTL (the_ttl api) ?u ?ch d now s")
    then show ?thesis using set l
      by (cases er) (simp_all add: Handler_ExecuteCommand_def cmdSet_def change_alone_def
          change_reply_def toDTO_def Let_def)
  next
    case off
    obtain er s1 where t: "ClearTTL (the_ttl api) ?u ?ch s = (er, s1)"
      by (cases "ClearTTL (the_ttl api) ?u ?ch s")
    then show ?thesis using off l
      by (cases er) (simp_all add: Handler_ExecuteCommand_def cmdOff_def change_alone_def
          change_reply_def Let_def)
  qed
qed

text \<open>All other requests and commands at most read a setting.\<close>

lemma serve_no_change:
  assumes "http_change now r = None" "Handler_ServeHTTP ttl now r s = (resp, s')"
  shows "s' = s \<or> (\<exists>ch v. GetSetting ttl ch s = (v, s'))"
proof -
  consider (same) "s' = s" | (get) ch where "handleGet ttl ch r s = (resp, s')"
    using assms
    by (auto simp: http_change_def Handler_ServeHTTP_def handleSet_def handleDelete_def Let_def
        split: route.splits option.splits if_splits)
  then show ?thesis
  proof cases
    case (get ch)
    then show ?thesis by (cases rule: handleGet_cases) auto
  qed simp
qed

lemma command_no_change:
  assumes "command_change now args = None" "Handler_ExecuteCommand ttl now args s = (resp, s')"
  shows "s' = s \<or> (\<exists>ch v. GetSetting ttl ch s = (v, s'))"
proof -
  consider (same) "s' = s" | (get) "cmdStatus ttl args s = (resp, s')"
    using assms
    by (auto simp: command_change_def Handler_ExecuteCommand_def cmdSet_def Let_def
        split: sum.splits if_splits)
  then show ?thesis
  proof cases
    case get
    obtain v s1 where g: "GetSetting ttl (arg_ChannelId args) s = (v, s1)"
      by (cases "GetSetting ttl (arg_ChannelId args) s")
    then have "s' = s1" using get by (auto simp: cmdStatus_def Let_def split: sum.splits option.splits)
    then show ?thesis using g by blast
  qed simp
qed

subsection \<open>Interleavings\<close>

text \<open>
  Any number of requests, numbered, on all nodes. A new request may take any number at any time:
  a node that stops forgets what it was doing. The server and the rest of the plugin may change
  everything but the plugin's keys and the events: users come, go and change roles. The history
  holds the steps, each with the request and the world it was taken in, newest first.
\<close>

type_synonym 'w serving_history = "(request \<times> 'w world) list"

inductive serving ::
  "'w plugin_api \<Rightarrow> ('w \<Rightarrow> string \<rightharpoonup> bytes) \<Rightarrow> 'w world \<Rightarrow> 'w serving_history \<Rightarrow> (nat \<Rightarrow> request) \<Rightarrow> 'w world \<Rightarrow> bool"
  for api :: "'w plugin_api" and cells :: "'w \<Rightarrow> string \<rightharpoonup> bytes" and s0 :: "'w world" where
  serving_start: "serving api cells s0 [] (\<lambda>_. NoRequest) s0"
| serving_arrive: "serving api cells s0 h Q s \<Longrightarrow> serving api cells s0 h (Q(i := Checking c)) s"
| serving_step: "serving api cells s0 h Q s \<Longrightarrow> request_step api (Q i, s) = (q, s') \<Longrightarrow>
    serving api cells s0 ((Q i, s) # h) (Q(i := q)) s'"
| serving_outside: "serving api cells s0 h Q s \<Longrightarrow> cells w = cells (srv s) \<Longrightarrow>
    serving api cells s0 h Q (s\<lparr>srv := w, tables := tx, outcomes := os, expire_rows := xs, logs := lg\<rparr>)"

inductive_cases serving_stepE: "serving api cells s0 ((q, s1) # h) Q s"

text \<open>A step of the history that found the change valid and permitted.\<close>

definition checked :: "'w plugin_api \<Rightarrow> 'w serving_history \<Rightarrow> change \<Rightarrow> bool" where
  "checked api h c \<longleftrightarrow> (\<exists>s1. (Checking c, s1) \<in> set h \<and> change_check api c s1 = None)"

text \<open>A moment at which the cell of the change's channel held what the change leaves there.\<close>

definition held :: "('w \<Rightarrow> string \<rightharpoonup> bytes) \<Rightarrow> 'w serving_history \<Rightarrow> 'w world \<Rightarrow> change \<Rightarrow> bool" where
  "held cells h s c \<longleftrightarrow> (\<exists>s1 \<in> insert s (snd ` set h). cells (srv s1) (kvKey (chg_channel c)) = chg_cell c)"

definition event_of :: "change \<Rightarrow> ws_event" where
  "event_of c = \<lparr>ws_name = EventTTLChanged, ws_channel = chg_channel c, ws_ttl = chg_told c,
     ws_broadcast_channel = chg_channel c\<rparr>"

fun request_ok ::
  "'w plugin_api \<Rightarrow> ('w \<Rightarrow> string \<rightharpoonup> bytes) \<Rightarrow> 'w serving_history \<Rightarrow> 'w world \<Rightarrow> request \<Rightarrow> bool" where
  "request_ok api cells h s (Storing c w) \<longleftrightarrow> checked api h c \<and> chg_setting c \<noteq> None \<and> (\<forall>er. w \<noteq> Finished er)"
| "request_ok api cells h s (Removing c) \<longleftrightarrow> checked api h c \<and> chg_setting c = None"
| "request_ok api cells h s (Announcing c) \<longleftrightarrow> checked api h c \<and> held cells h s c"
| "request_ok api cells h s _ \<longleftrightarrow> True"

definition serving_inv ::
  "'w plugin_api \<Rightarrow> ('w \<Rightarrow> string \<rightharpoonup> bytes) \<Rightarrow> 'w world \<Rightarrow> 'w serving_history \<Rightarrow> (nat \<Rightarrow> request) \<Rightarrow> 'w world \<Rightarrow> bool" where
  "serving_inv api cells s0 h Q s \<longleftrightarrow>
     (\<forall>i. request_ok api cells h s (Q i))
     \<and> (\<forall>ch. cells (srv s) (kvKey ch) = cells (srv s0) (kvKey ch)
          \<or> (\<exists>c. checked api h c \<and> chg_channel c = ch \<and> cells (srv s) (kvKey ch) = chg_cell c))
     \<and> (\<exists>cs. events s = events s0 @ map event_of cs \<and> (\<forall>c \<in> set cs. checked api h c \<and> held cells h s c))"

lemma checked_mono: "checked api h c \<Longrightarrow> checked api (x # h) c"
  by (auto simp: checked_def)

lemma held_mono: "held cells h s c \<Longrightarrow> held cells ((q, s) # h) s' c"
  by (auto simp: held_def)

lemma request_ok_mono: "request_ok api cells h s q \<Longrightarrow> request_ok api cells ((q', s) # h) s' q"
  by (cases q) (auto simp: checked_mono held_mono)

lemma settings_of_cell:
  "c (kvKey (chg_channel x)) = chg_cell x \<Longrightarrow> valid_utf8 (chg_actor x) \<Longrightarrow>
    settings_of c (chg_channel x) = chg_setting x"
  by (cases x) (simp_all add: settings_of_def slice_def chg_cell_def unmarshal_marshal)

lemma settings_of_local: "c (kvKey ch) = c' (kvKey ch) \<Longrightarrow> settings_of c ch = settings_of c' ch"
  by (simp add: settings_of_def)

lemma change_check_None:
  "change_check api c s = None \<Longrightarrow> may_manage (api_checker api) (chg_actor c) (chg_channel c) s"
  by (cases c) (auto simp: checkCanManage_None_iff split: option.splits)

text \<open>
  What a checked change and a held one are to a reader of the store: a permitted request, and a
  moment at which the channel had the setting it asks for.
\<close>

abbreviation permitted_request :: "'w plugin_api \<Rightarrow> 'w serving_history \<Rightarrow> change \<Rightarrow> bool" where
  "permitted_request api h c \<equiv> \<exists>s1. (Checking c, s1) \<in> set h
     \<and> may_manage (api_checker api) (chg_actor c) (chg_channel c) s1"

lemma checked_permitted: "checked api h c \<Longrightarrow> permitted_request api h c"
  using change_check_None [of api c] unfolding checked_def by blast

lemma held_setting:
  assumes "held cells h s c" "valid_utf8 (chg_actor c)"
  shows "\<exists>s2 \<in> insert s (snd ` set h). settings_of (cells (srv s2)) (chg_channel c) = chg_setting c"
  using assms(1) settings_of_cell [OF _ assms(2)] unfolding held_def by blast

context plugin_world
begin

lemma request_step_ok:
  assumes ok: "request_ok api cells h s q" and st: "request_step api (q, s) = (q', s')"
  defines "h' \<equiv> (q, s) # h"
  shows "request_ok api cells h' s' q'
    \<and> (cells (srv s') = cells (srv s) \<or> (\<exists>c. checked api h' c
         \<and> cells (srv s') = (cells (srv s))(kvKey (chg_channel c) := chg_cell c)))
    \<and> (events s' = events s \<or> (\<exists>c. checked api h' c \<and> held cells h' s' c \<and> events s' = events s @ [event_of c]))"
proof (cases q)
  case (Checking c)
  then show ?thesis
  proof (cases "change_check api c s")
    case None
    then have "checked api h' c" by (auto simp: checked_def h'_def Checking)
    then show ?thesis using st None Checking by (auto simp: enter_def retries_20 split: if_splits)
  qed (use st in auto)
next
  case (Storing c w)
  have c: "checked api h' c" "chg_setting c \<noteq> None" "\<And>er. w \<noteq> Finished er"
    using ok by (auto simp: Storing h'_def checked_mono)
  then obtain t where t: "chg_setting c = Some t" by blast
  obtain w1 s1 where w: "writer_step (kv_of (api_kv api)) (chg_channel c) (marshal_TTLSetting t) w s = (w1, s1)"
    by (cases "writer_step (kv_of (api_kv api)) (chg_channel c) (marshal_TTLSetting t) w s")
  have q: "q' = storing c w1" "s' = s1" using st w t by (simp_all add: Storing)
  have cell: "chg_cell c = Some (marshal_TTLSetting t)" by (simp add: chg_cell_def t)
  note k = in_world.writer_step_cells [OF w c(3)]
  have "events s1 = events s" using k by (simp add: outside_srv_def)
  moreover have "request_ok api cells h' s1 (storing c w1)"
  proof (cases w1)
    case (Finished er)
    then show ?thesis using k c(1) by (cases er) (auto simp: held_def cell)
  qed (use c in simp_all)
  ultimately show ?thesis using k c(1) cell unfolding q by auto
next
  case (Removing c)
  obtain er s1 where d: "KVDelete (kv_of (api_kv api)) (kvKey (chg_channel c)) s = (er, s1)"
    by (cases "KVDelete (kv_of (api_kv api)) (kvKey (chg_channel c)) s")
  have c: "checked api h' c" "chg_cell c = None" using ok by (auto simp: Removing h'_def checked_mono chg_cell_def)
  note k = in_world.kv_delete [OF d]
  have e: "events s1 = events s" using k by (simp add: outside_srv_def)
  have s': "s' = s1" using st d by (cases er) (simp_all add: Removing)
  have "request_ok api cells h' s1 q'"
    using st d k c by (cases er) (auto simp: Removing held_def)
  then show ?thesis using k c e unfolding s' by auto
next
  case (Announcing c)
  have "checked api h' c" using ok by (simp add: Announcing h'_def checked_mono)
  moreover have "held cells h' s' c" using ok by (simp add: Announcing h'_def held_mono)
  moreover have "events s' = events s @ [event_of c]" "cells (srv s') = cells (srv s)" "q' = Answered c None"
    using st by (auto simp: Announcing broadcast_def PublishWebSocketEvent_def event_of_def)
  ultimately show ?thesis by auto
qed (use st in auto)

lemma serving_inv_step:
  assumes inv: "serving_inv api cells s0 h Q s" and st: "request_step api (Q i, s) = (q, s')"
  shows "serving_inv api cells s0 ((Q i, s) # h) (Q(i := q)) s'"
proof -
  let ?h = "(Q i, s) # h"
  have r: "request_ok api cells h s (Q j)" for j using inv by (simp add: serving_inv_def)
  note k = request_step_ok [OF r [of i] st]
  have 1: "request_ok api cells ?h s' ((Q(i := q)) j)" for j
    using k request_ok_mono [OF r [of j]] by simp
  have 2: "cells (srv s') (kvKey ch) = cells (srv s0) (kvKey ch)
      \<or> (\<exists>c. checked api ?h c \<and> chg_channel c = ch \<and> cells (srv s') (kvKey ch) = chg_cell c)" for ch
  proof -
    have "cells (srv s) (kvKey ch) = cells (srv s0) (kvKey ch)
        \<or> (\<exists>c. checked api h c \<and> chg_channel c = ch \<and> cells (srv s) (kvKey ch) = chg_cell c)"
      using inv by (simp add: serving_inv_def)
    then have old: "cells (srv s) (kvKey ch) = cells (srv s0) (kvKey ch)
        \<or> (\<exists>c. checked api ?h c \<and> chg_channel c = ch \<and> cells (srv s) (kvKey ch) = chg_cell c)"
      using checked_mono by blast
    from k consider "cells (srv s') = cells (srv s)"
      | c where "checked api ?h c" "cells (srv s') = (cells (srv s))(kvKey (chg_channel c) := chg_cell c)"
      by blast
    then show ?thesis
    proof cases
      case (2 c)
      then show ?thesis using old by (cases "chg_channel c = ch") auto
    qed (use old in simp)
  qed
  have 3: "\<exists>cs. events s' = events s0 @ map event_of cs \<and> (\<forall>c \<in> set cs. checked api ?h c \<and> held cells ?h s' c)"
  proof -
    obtain cs where cs: "events s = events s0 @ map event_of cs" "\<forall>c \<in> set cs. checked api h c \<and> held cells h s c"
      using inv by (auto simp: serving_inv_def)
    have cs': "\<forall>c \<in> set cs. checked api ?h c \<and> held cells ?h s' c"
      using cs(2) by (auto intro: checked_mono held_mono)
    from k consider "events s' = events s"
      | c where "checked api ?h c" "held cells ?h s' c" "events s' = events s @ [event_of c]" by blast
    then show ?thesis
    proof cases
      case 1
      then show ?thesis using cs cs' by auto
    next
      case (2 c)
      then show ?thesis using cs cs' by (intro exI [of _ "cs @ [c]"]) auto
    qed
  qed
  show ?thesis unfolding serving_inv_def using 1 2 3 by blast
qed

lemma serving_inv_holds: "serving api cells s0 h Q s \<Longrightarrow> serving_inv api cells s0 h Q s"
proof (induction rule: serving.induct)
  case serving_start
  then show ?case by (simp add: serving_inv_def)
next
  case (serving_arrive h Q s i c)
  then show ?case by (simp add: serving_inv_def)
next
  case (serving_step h Q s i q s')
  from serving_step.IH serving_step.hyps(2) show ?case by (rule serving_inv_step)
next
  case (serving_outside h Q s w lg xs os tx)
  let ?s = "s\<lparr>srv := w, tables := tx, outcomes := os, expire_rows := xs, logs := lg\<rparr>"
  have "held cells h ?s c = held cells h s c" for c
    using serving_outside.hyps(2) by (simp add: held_def)
  moreover from this have "request_ok api cells h ?s q = request_ok api cells h s q" for q by (cases q) simp_all
  ultimately show ?case using serving_outside by (simp add: serving_inv_def)
qed

text \<open>The same for a reader: where a setting comes from, and what stands behind every event.\<close>

lemma serving_settings:
  assumes "serving api cells s0 h Q s" "\<And>c s1. (Checking c, s1) \<in> set h \<Longrightarrow> valid_utf8 (chg_actor c)"
    and "settings_of (cells (srv s)) ch \<noteq> settings_of (cells (srv s0)) ch"
  shows "\<exists>c. permitted_request api h c \<and> chg_channel c = ch \<and> settings_of (cells (srv s)) ch = chg_setting c"
proof -
  have "cells (srv s) (kvKey ch) \<noteq> cells (srv s0) (kvKey ch)"
    using assms(3) settings_of_local [of "cells (srv s)" ch "cells (srv s0)"] by blast
  then obtain c where c: "checked api h c" "chg_channel c = ch" "cells (srv s) (kvKey ch) = chg_cell c"
    using serving_inv_holds [OF assms(1)] by (auto simp: serving_inv_def)
  have "valid_utf8 (chg_actor c)" using checked_permitted [OF c(1)] assms(2) by blast
  then show ?thesis using c checked_permitted settings_of_cell [of "cells (srv s)" c] by blast
qed

lemma serving_events:
  assumes "serving api cells s0 h Q s" "\<And>c s1. (Checking c, s1) \<in> set h \<Longrightarrow> valid_utf8 (chg_actor c)"
  shows "\<exists>cs. events s = events s0 @ map event_of cs \<and> (\<forall>c \<in> set cs. permitted_request api h c
    \<and> (\<exists>s2 \<in> insert s (snd ` set h). settings_of (cells (srv s2)) (chg_channel c) = chg_setting c))"
proof -
  obtain cs where cs: "events s = events s0 @ map event_of cs"
      "\<forall>c \<in> set cs. checked api h c \<and> held cells h s c"
    using serving_inv_holds [OF assms(1)] by (auto simp: serving_inv_def)
  have "permitted_request api h c
      \<and> (\<exists>s2 \<in> insert s (snd ` set h). settings_of (cells (srv s2)) (chg_channel c) = chg_setting c)"
    if "c \<in> set cs" for c
  proof -
    have c: "permitted_request api h c" "held cells h s c"
      using bspec [OF cs(2) that] checked_permitted [of api h c] by blast+
    moreover from this(1) have "valid_utf8 (chg_actor c)" using assms(2) by blast
    ultimately show ?thesis using held_setting by blast
  qed
  with cs(1) show ?thesis by blast
qed

end

subsection \<open>Schedules\<close>

text \<open>The requests take their next steps in the given order.\<close>

fun play ::
  "'w plugin_api \<Rightarrow> nat list \<Rightarrow> (nat \<Rightarrow> request) \<times> 'w world \<Rightarrow> (nat \<Rightarrow> request) \<times> 'w world" where
  "play api [] (Q, s) = (Q, s)"
| "play api (i # is) (Q, s) = (let (q, s') = request_step api (Q i, s) in play api is (Q(i := q), s'))"

lemma request_step_checking: "request_step api (q, s) = (Checking c, s') \<Longrightarrow> q = Checking c"
  by (cases q) (auto simp: storing_def split: option.splits prod.splits writer.splits if_splits)

lemma serving_play:
  assumes "serving api cells s0 h Q s" "play api is (Q, s) = (Q', s')"
  shows "\<exists>h'. serving api cells s0 h' Q' s'
    \<and> (\<forall>c s1. (Checking c, s1) \<in> set h' \<longrightarrow> (Checking c, s1) \<in> set h \<or> (\<exists>i. Q i = Checking c))"
  using assms
proof (induction "is" arbitrary: h Q s)
  case (Cons i "is")
  obtain q s1 where q: "request_step api (Q i, s) = (q, s1)" by (cases "request_step api (Q i, s)")
  have "play api is (Q(i := q), s1) = (Q', s')" using Cons.prems(2) q by simp
  from Cons.IH [OF serving_step [OF Cons.prems(1) q] this] obtain h' where
    h': "serving api cells s0 h' Q' s'" "\<And>c s2. (Checking c, s2) \<in> set h' \<Longrightarrow>
      (Checking c, s2) \<in> set ((Q i, s) # h) \<or> (\<exists>j. (Q(i := q)) j = Checking c)"
    by blast
  have "(Checking c, s2) \<in> set h \<or> (\<exists>j. Q j = Checking c)" if "(Checking c, s2) \<in> set h'" for c s2
    using h'(2) [OF that] request_step_checking [of api "Q i" s c s1] q by (auto split: if_splits)
  then show ?case using h'(1) by blast
qed auto

lemma serving_two:
  "serving api cells s0 [] ((\<lambda>_. NoRequest)(0 := Checking a, 1 := Checking b)) s0"
  by (intro serving_arrive serving_start)

lemma play_append: "play api (is @ js) x = play api js (play api is x)"
proof (induction "is" arbitrary: x)
  case (Cons i "is")
  then show ?case by (cases x) (simp split: prod.splits)
next
  case Nil
  then show ?case by (cases x) simp
qed

text \<open>On the store of the tests a change that is permitted is stored in three steps.\<close>

lemma play_store:
  assumes "api_kv api = fakeKV_api" "change_check api c s = None" "chg_setting c \<noteq> None" "Q i = Checking c"
  shows "play api [i, i, i] (Q, s) = (Q(i := Announcing c),
    s\<lparr>srv := (srv s)\<lparr>fk_data := (fk_data (srv s))(kvKey (chg_channel c) := chg_cell c)\<rparr>\<rparr>)"
proof -
  let ?cur = "fk_data (srv s) (kvKey (chg_channel c))"
  have 1: "request_step api (Checking c, s) = (Storing c (Reading 20), s)"
    using assms by (simp add: enter_def retries_20)
  have 2: "request_step api (Storing c (Reading 20), s) = (Storing c (Writing 19 ?cur), s)"
    using assms(1) by (simp add: kv_of_def fakeKV_defs)
  have 3: "request_step api (Storing c (Writing 19 ?cur), s)
      = (Announcing c, s\<lparr>srv := (srv s)\<lparr>fk_data := (fk_data (srv s))(kvKey (chg_channel c) := chg_cell c)\<rparr>\<rparr>)"
    using assms(1,3) by (auto simp: kv_of_def fakeKV_defs chg_cell_def)
  show ?thesis by (simp add: assms(4) 1 2 3 del: request_step.simps)
qed

lemma stale_schedule:
  assumes "api_kv api = fakeKV_api" "chg_setting a \<noteq> None" "chg_setting b \<noteq> None"
    and "chg_channel a = chg_channel b" "\<And>s. change_check api a s = None" "\<And>s. change_check api b s = None"
  shows "play api ([0, 0, 0] @ [1, 1, 1] @ [1, 0]) ((\<lambda>_. NoRequest)(0 := Checking a, 1 := Checking b), s)
    = ((\<lambda>_. NoRequest)(0 := Answered a None, 1 := Answered b None),
       s\<lparr>srv := (srv s)\<lparr>fk_data := (fk_data (srv s))(kvKey (chg_channel b) := chg_cell b)\<rparr>,
         events := events s @ [event_of b, event_of a]\<rparr>)"
proof -
  let ?k = "kvKey (chg_channel b)"
  let ?Q0 = "(\<lambda>_. NoRequest)(0 := Checking a, 1 := Checking b)"
  let ?Q1 = "?Q0(0 := Announcing a)" and ?s1 = "s\<lparr>srv := (srv s)\<lparr>fk_data := (fk_data (srv s))(?k := chg_cell a)\<rparr>\<rparr>"
  let ?Q2 = "?Q1(1 := Announcing b)" and ?s2 = "s\<lparr>srv := (srv s)\<lparr>fk_data := (fk_data (srv s))(?k := chg_cell b)\<rparr>\<rparr>"
  have 1: "play api [0, 0, 0] (?Q0, s) = (?Q1, ?s1)"
    using play_store [OF assms(1,5,2), of ?Q0 0 s] assms(4) by simp
  have 2: "play api [1, 1, 1] (?Q1, ?s1) = (?Q2, ?s2)"
    using play_store [OF assms(1,6,3), of ?Q1 1 ?s1] by simp
  have 3: "play api [1, 0] (?Q2, ?s2) = ((\<lambda>_. NoRequest)(0 := Answered a None, 1 := Answered b None),
      ?s2\<lparr>events := events s @ [event_of b, event_of a]\<rparr>)"
    by (auto simp: broadcast_def PublishWebSocketEvent_def event_of_def assms(4))
  show ?thesis unfolding play_append 1 2 3 by simp
qed

end
