(* ===== verification/Go_Quote.thy ===== *)
theory Go_Quote
  imports Go_Json
begin

section \<open>Quoted strings in error texts (\<open>%q\<close> of Go's package \<open>fmt\<close>)\<close>

text \<open>
  \<open>strconv.Quote\<close>, which \<open>fmt.Errorf\<close> uses for \<open>%q\<close>: quotation marks and backslashes are
  escaped, printable runes stand for themselves, other runes and invalid bytes become escapes.
  Which runes above Latin-1 are printable is a table of the Unicode standard, the argument
  \<open>printable\<close>.
\<close>

definition rune_value :: "string \<Rightarrow> nat" where
  "rune_value s =
     (case s of
        [] \<Rightarrow> 0
      | c # cs \<Rightarrow>
          (case rune_len s of
             0 \<Rightarrow> 0xFFFD
           | Suc 0 \<Rightarrow> code c
           | Suc n \<Rightarrow> foldl (\<lambda>r d. r * 64 + code d mod 64)
               (code c mod (if n = 1 then 32 else if n = 2 then 16 else 8)) (take n cs)))"

definition IsPrint :: "(nat \<Rightarrow> bool) \<Rightarrow> nat \<Rightarrow> bool" where
  "IsPrint printable r =
     (if r \<le> 0xFF then 0x20 \<le> r \<and> r < 0x7F \<or> 0xA1 \<le> r \<and> r \<noteq> 0xAD else printable r)"

definition hex_digits :: "nat \<Rightarrow> nat \<Rightarrow> string" where
  "hex_digits n r = map (\<lambda>i. hexdigit (r div 16 ^ i mod 16)) (rev [0..<n])"

definition byte_escape :: "char \<Rightarrow> string" where
  "byte_escape c = [CHR 0x5C, CHR ''x''] @ hex_digits 2 (code c)"

text \<open>The rune whose encoding is \<open>enc\<close> and whose value is \<open>r\<close>.\<close>

definition quote_rune :: "(nat \<Rightarrow> bool) \<Rightarrow> nat \<Rightarrow> string \<Rightarrow> string" where
  "quote_rune printable r enc =
     (if r = 0x22 \<or> r = 0x5C then [CHR 0x5C, char_of r]
      else if IsPrint printable r then enc
      else if r = 0x07 then [CHR 0x5C, CHR ''a'']
      else if r = 0x08 then [CHR 0x5C, CHR ''b'']
      else if r = 0x0C then [CHR 0x5C, CHR ''f'']
      else if r = 0x0A then [CHR 0x5C, CHR ''n'']
      else if r = 0x0D then [CHR 0x5C, CHR ''r'']
      else if r = 0x09 then [CHR 0x5C, CHR ''t'']
      else if r = 0x0B then [CHR 0x5C, CHR ''v'']
      else if r < 0x20 \<or> r = 0x7F then [CHR 0x5C, CHR ''x''] @ hex_digits 2 r
      else if r < 0x10000 then [CHR 0x5C, CHR ''u''] @ hex_digits 4 r
      else [CHR 0x5C, CHR ''U''] @ hex_digits 8 r)"

function quote_body :: "(nat \<Rightarrow> bool) \<Rightarrow> string \<Rightarrow> string" where
  "quote_body printable s =
     (case s of
        [] \<Rightarrow> []
      | c # cs \<Rightarrow>
          if rune_len s = 0 then byte_escape c @ quote_body printable cs
          else quote_rune printable (rune_value s) (take (rune_len s) s)
            @ quote_body printable (drop (rune_len s) s))"
  by pat_completeness auto
termination by (relation "measure (length \<circ> snd)") auto

declare quote_body.simps [simp del]

definition Quote :: "(nat \<Rightarrow> bool) \<Rightarrow> string \<Rightarrow> string" where
  "Quote printable s = CHR 0x22 # quote_body printable s @ [CHR 0x22]"

subsection \<open>A quoted string is valid UTF-8\<close>

lemma valid_utf8_append: "valid_utf8 s \<Longrightarrow> valid_utf8 t \<Longrightarrow> valid_utf8 (s @ t)"
proof (induction s rule: valid_utf8.induct)
  case (1 s)
  show ?case
  proof (cases "s = []")
    case False
    let ?n = "rune_len s"
    have n: "?n \<noteq> 0" "valid_utf8 (drop ?n s)" using valid_utf8_step [OF "1.prems"(1) False] by blast+
    have "rune_len (take ?n s @ drop ?n s @ t) = ?n" by (rule rune_len_take [OF n(1)])
    then have l: "rune_len (s @ t) = ?n" by (simp only: append_assoc [symmetric] append_take_drop_id)
    have "drop ?n (s @ t) = drop ?n s @ t" using rune_len_le [of s] by simp
    moreover have "valid_utf8 (drop ?n s @ t)" using "1.IH" [OF False n(1,2)] "1.prems"(2) .
    ultimately show ?thesis using False l n(1) by (subst valid_utf8.simps) simp
  qed (use "1.prems" in simp)
qed

lemma valid_utf8_rune: "rune_len s \<noteq> 0 \<Longrightarrow> valid_utf8 (take (rune_len s) s)"
proof -
  assume n: "rune_len s \<noteq> 0"
  have "rune_len (take (rune_len s) s) = rune_len s" using rune_len_take [OF n, of "[]"] by simp
  then show ?thesis using n by (subst valid_utf8.simps) simp
qed

lemma hexdigit_ascii: "n < 16 \<Longrightarrow> code (hexdigit n) < 128"
  by (simp add: hexdigit_def)

lemma hex_digits_ascii: "list_all (\<lambda>c. code c < 128) (hex_digits n r)"
  by (simp add: hex_digits_def list_all_iff hexdigit_ascii)

lemma quote_rune_valid: "valid_utf8 enc \<Longrightarrow> valid_utf8 (quote_rune printable r enc)"
  using hex_digits_ascii by (simp add: quote_rune_def valid_utf8_ascii)

lemma quote_body_valid: "valid_utf8 (quote_body printable s)"
proof (induction printable s rule: quote_body.induct)
  case (1 printable s)
  show ?case
  proof (cases s)
    case Nil
    then show ?thesis by (simp add: quote_body.simps)
  next
    case (Cons c cs)
    have "valid_utf8 (byte_escape c)" using hex_digits_ascii by (simp add: byte_escape_def valid_utf8_ascii)
    then show ?thesis
      using "1.IH" Cons quote_rune_valid [OF valid_utf8_rune [of s]]
      by (subst quote_body.simps) (simp add: valid_utf8_append)
  qed
qed

lemma Quote_valid: "valid_utf8 (Quote printable s)"
proof -
  have q: "valid_utf8 [CHR 0x22]" by (simp add: valid_utf8_ascii)
  have "valid_utf8 ([CHR 0x22] @ quote_body printable s @ [CHR 0x22])"
    by (intro valid_utf8_append q quote_body_valid)
  then show ?thesis by (simp add: Quote_def)
qed

text \<open>The ids of Mattermost, letters and digits, are only put between quotation marks.\<close>

lemma Quote_plain:
  assumes "\<And>c. c \<in> set s \<Longrightarrow> 0x20 \<le> code c \<and> code c < 0x7F \<and> code c \<notin> {0x22, 0x5C}"
  shows "Quote printable s = CHR 0x22 # s @ [CHR 0x22]"
proof -
  have "quote_body printable s = s" using assms
  proof (induction s)
    case (Cons c s)
    have c: "code c \<noteq> 0x22" "code c \<noteq> 0x5C" "0x20 \<le> code c" "code c < 0x7F"
      using Cons.prems [of c] by auto
    have l: "rune_len (c # s) = 1" using c(4) by (simp add: rune_len_ascii)
    have "quote_rune printable (rune_value (c # s)) [c] = [c]"
      using c l by (simp add: quote_rune_def IsPrint_def rune_value_def)
    then show ?case using Cons l by (subst quote_body.simps) simp
  qed (simp add: quote_body.simps)
  then show ?thesis by (simp add: Quote_def)
qed

end
