(* ===== verification/Api_Response.thy ===== *)
theory Api_Response
  imports Api_Handler Go_Quote
begin

section \<open>Responses as bytes (\<open>writeJSON\<close> of \<open>server/api/handler.go\<close>)\<close>

text \<open>
  What \<open>writeJSON\<close> writes for the value a handler answers with: the status, the content type and
  the JSON text that \<open>json.Encoder\<close> ends with a newline. The text of an error
  (\<open>err.Error()\<close>) is \<open>ttl_Error\<close>; its arguments are the table of printable runes, for \<open>%q\<close>, and the
  text of the error that \<open>json.Unmarshal\<close> reports for some data. The reader of \<open>Go_Json\<close>, which follows the JSON grammar, reads every such body
  back to the answered value. To a HEAD request \<open>net/http\<close> sends all but the body. A response
  without a body, and the pages of \<open>http.ServeMux\<close>, are not written by \<open>writeJSON\<close>.
\<close>

record wire_response =
  wire_status :: int
  wire_type :: string
  wire_body :: bytes

definition marshal_ttlDTO :: "ttlDTO \<Rightarrow> bytes" where
  "marshal_ttlDTO t =
     ''{'' @ json_name ''duration'' @ FormatInt (dto_DurationSeconds t)
     @ '','' @ json_name ''set_by'' @ json_quote (dto_SetBy t)
     @ '','' @ json_name ''set_at'' @ FormatInt (dto_SetAt t) @ ''}''"

definition marshal_getTTLResponse :: "ttlDTO option \<Rightarrow> bytes" where
  "marshal_getTTLResponse t =
     ''{'' @ json_name ''ttl'' @ (case t of None \<Rightarrow> ''null'' | Some d \<Rightarrow> marshal_ttlDTO d) @ ''}''"

definition marshal_message :: "string \<Rightarrow> bytes" where
  "marshal_message msg = ''{'' @ json_name ''message'' @ json_quote msg @ ''}''"

fun ttl_Error :: "(nat \<Rightarrow> bool) \<Rightarrow> (bytes \<Rightarrow> string) \<Rightarrow> ttl_error \<Rightarrow> string" where
  "ttl_Error printable jsonError ErrInvalidTTL = ''ttl: duration must be between 1m and 1y''"
| "ttl_Error printable jsonError ErrForbidden =
     ''ttl: actor lacks permission to manage this channel's TTL''"
| "ttl_Error printable jsonError (ErrChannelNotFound channelID err) =
     ''ttl: channel not found'' @ '': '' @ channelID @ '': '' @ err"
| "ttl_Error printable jsonError ErrTooManyRetries = ''ttl: too many KV retries, try again later''"
| "ttl_Error printable jsonError (ErrEncode channelID err) =
     ''ttl: encode '' @ Quote printable channelID @ '': '' @ err"
| "ttl_Error printable jsonError (ErrDecode channelID data) =
     ''ttl: decode '' @ Quote printable channelID @ '': '' @ jsonError data"
| "ttl_Error printable jsonError (ErrKVGet channelID appErr) =
     ''ttl: KVGet '' @ Quote printable channelID @ '': '' @ appErr"
| "ttl_Error printable jsonError (ErrKVSet channelID appErr) =
     ''ttl: KVSet '' @ Quote printable channelID @ '': '' @ appErr"
| "ttl_Error printable jsonError (ErrKVDelete channelID appErr) =
     ''ttl: KVDelete '' @ Quote printable channelID @ '': '' @ appErr"

fun message_text :: "(nat \<Rightarrow> bool) \<Rightarrow> (bytes \<Rightarrow> string) \<Rightarrow> message \<Rightarrow> string" where
  "message_text printable jsonError (Text t) = t"
| "message_text printable jsonError (ErrorText err) = ttl_Error printable jsonError err"

definition writeJSON :: "int \<Rightarrow> bytes \<Rightarrow> wire_response" where
  "writeJSON st json = \<lparr>wire_status = st, wire_type = ''application/json'', wire_body = json @ [CHR 0x0A]\<rparr>"

definition wire ::
  "(nat \<Rightarrow> bool) \<Rightarrow> (bytes \<Rightarrow> string) \<Rightarrow> http_response \<Rightarrow> wire_response option" where
  "wire printable jsonError resp =
     (case resp_body resp of
        MessageBody m \<Rightarrow> Some (writeJSON (status resp) (marshal_message (message_text printable jsonError m)))
      | SettingBody t \<Rightarrow> Some (writeJSON (status resp) (marshal_ttlDTO t))
      | GetBody t \<Rightarrow> Some (writeJSON (status resp) (marshal_getTTLResponse t))
      | NoBody \<Rightarrow> None
      | MuxBody \<Rightarrow> None)"

subsection \<open>What a client reads\<close>

definition json_of_ttlDTO :: "ttlDTO \<Rightarrow> json" where
  "json_of_ttlDTO t = JObj
     [(''duration'', JNum (FormatInt (dto_DurationSeconds t))), (''set_by'', JStr (dto_SetBy t)),
      (''set_at'', JNum (FormatInt (dto_SetAt t)))]"

lemma names_valid:
  "valid_utf8 ''duration''" "valid_utf8 ''set_by''" "valid_utf8 ''set_at''" "valid_utf8 ''ttl''"
  "valid_utf8 ''message''"
  by (simp_all add: valid_utf8_ascii)

lemma read_ttlDTO:
  assumes "valid_utf8 (dto_SetBy t)" "length st < maxNestingDepth"
  shows "json_read st (marshal_ttlDTO t @ r) = json_fill st (json_of_ttlDTO t) r"
  using assms names_valid
  by (simp add: marshal_ttlDTO_def json_of_ttlDTO_def read_open read_int_member read_string_member
      fill_comma fill_close del: json_fill.simps(3))

lemma read_null: "json_read st (''null'' @ r) = json_fill st JNull r"
  by (simp add: json_read.simps [of st] skip_ws_def is_ws_def json_scalar_def HasPrefix_def)

lemma read_getTTLResponse:
  assumes "\<And>d. t = Some d \<Longrightarrow> valid_utf8 (dto_SetBy d)"
  shows "json_read [] (marshal_getTTLResponse t @ r)
    = Some (JObj [(''ttl'', case t of None \<Rightarrow> JNull | Some d \<Rightarrow> json_of_ttlDTO d)], r)"
  using assms names_valid
  by (cases t) (simp_all add: marshal_getTTLResponse_def read_open maxNestingDepth_def read_ttlDTO
      read_null [simplified] fill_close del: json_fill.simps(3))

lemma read_message:
  "valid_utf8 msg \<Longrightarrow> json_read [] (marshal_message msg @ r) = Some (JObj [(''message'', JStr msg)], r)"
  using names_valid
  by (simp add: marshal_message_def read_open maxNestingDepth_def read_string_member fill_close
      del: json_fill.simps(3))

subsection \<open>Refusals\<close>

text \<open>The texts of the client errors, by status.\<close>

definition refusal_texts :: "int \<Rightarrow> string set" where
  "refusal_texts st =
     (if st = 400 then {''invalid JSON body'', ''channel_id required and ttl_seconds must be non-negative'',
        ''ttl: duration must be between 1m and 1y''}
      else if st = 401 then {''missing Mattermost-User-ID''}
      else if st = 403 then {''ttl: actor lacks permission to manage this channel's TTL''}
      else if st = 404 then range ((@) ''ttl: channel not found: '')
      else {})"

lemma refused_text:
  assumes "Handler_ServeHTTP ttl now r s = (resp, s')" "status resp \<in> {301, 400, 401, 403, 404, 405}"
    and "resp_body resp \<noteq> MuxBody"
  shows "\<exists>m. resp_body resp = MessageBody m \<and> message_text printable jsonError m \<in> refusal_texts (status resp)"
proof -
  have e: "\<exists>m. resp_body (writeDomainError err) = MessageBody m
      \<and> message_text printable jsonError m \<in> refusal_texts (status (writeDomainError err))"
    if "status (writeDomainError err) \<in> {301, 400, 401, 403, 404, 405}" for err
    using that by (cases err) (auto simp: writeDomainError_def writeError_def refusal_texts_def)
  have h: "resp = writeError 401 missing_user \<or> resp = writeError 400 (Text ''invalid JSON body'')
    \<or> resp = writeError 400 (Text ''channel_id required and ttl_seconds must be non-negative'')
    \<or> (\<exists>err. resp = writeDomainError err)"
    using assms
    by (auto simp: Handler_ServeHTTP_def handleSet_def handleGet_def handleDelete_def Let_def
        split: route.splits option.splits prod.splits sum.splits if_splits)
  then show ?thesis
  proof (elim disjE exE)
    fix err
    assume "resp = writeDomainError err"
    then show ?thesis using e assms(2) by blast
  qed (simp_all add: writeError_def missing_user_def refusal_texts_def)
qed

end
