(* ===== verification/Demo.thy ===== *)
theory Demo
  imports Refinement Requests Api_Response
begin

section \<open>A small concrete world\<close>

text \<open>
  A state with two posts, of which one has expired at time 500, an empty key-value store and a
  Team server whose version is on the allowlist: the input at which the witnesses apply the
  properties.
\<close>

definition demo_tables :: db_tables where
  "demo_tables =
     [''posts'' \<mapsto> \<lparr>tbl_cols = [''id''], tbl_rows = [[''id'' \<mapsto> ''p1''], [''id'' \<mapsto> ''p2'']]\<rparr>,
      ''fileinfo'' \<mapsto> \<lparr>tbl_cols = [''post_id''], tbl_rows = [[''post_id'' \<mapsto> ''p1'']]\<rparr>,
      ''reactions'' \<mapsto> \<lparr>tbl_cols = [''post_id''], tbl_rows = []\<rparr>,
      ''mentions'' \<mapsto> \<lparr>tbl_cols = [''post_id''], tbl_rows = []\<rparr>]"

definition demo_entry :: "string \<Rightarrow> int64 \<Rightarrow> entry" where
  "demo_entry p t = \<lparr>PostID = p, ChannelID = ''ch'', RootID = p, ExpireAt = t, CreatedAt = 0\<rparr>"

definition demo :: "db_outcome list \<Rightarrow> fakeKV world" where
  "demo os = \<lparr>expire_rows = Some [demo_entry ''p2'' 900, demo_entry ''p1'' 100], tables = demo_tables,
     outcomes = os, srv = \<lparr>fk_data = Map.empty\<rparr>, logs = [], events = []\<rparr>"

lemma demo_schema: "schema_ok footprint demo_tables"
  by (simp add: footprint_def has_col_def demo_tables_def)

definition demo_holder :: configHolder where
  "demo_holder = \<lparr>conf = \<lparr>EnablePurge = True, PurgeSchemaAllowlistRaw = ''10.''\<rparr>\<rparr>"

definition demo_purge :: "(fakeKV world) purge_fn" where
  "demo_purge = configPurger_Purge demo_holder sqlPurger_Purge
     (server_of (\<lambda>i w. (None, w)) (\<lambda>w. False) (\<lambda>w. ''10.1''))"

lemma demo_hard: "hard_mode demo_holder False ''10.1''"
  by (simp add: hard_mode_def holder_get_def demo_holder_def PurgeSchemaAllowlist_def Split_def
      TrimSpace_def trim_left.simps space_at_def space_runes_def HasPrefix_def purgeDecision_def
      versionAllowed_def)

lemma demo_healthy: "healthy (demo [])"
  using demo_schema by (simp add: healthy_def demo_def index_ok_def demo_entry_def)

lemma demo_ok: "index_ok (demo os)"
  by (simp add: demo_def index_ok_def demo_entry_def)

lemma demo_index: "index_of (demo os) p =
    (if p = ''p1'' then Some (demo_entry ''p1'' 100) else if p = ''p2'' then Some (demo_entry ''p2'' 900) else None)"
  by (simp add: index_of_def demo_def rows_map_def getByPostSQL_def demo_entry_def)

lemma demo_GetExpired: "sqlStore_GetExpired 500 1 (demo []) = (Inr [demo_entry ''p1'' 100], demo [])"
  by (simp add: sqlStore_GetExpired_def db_query_Done from_expire_def getExpiredSQL_def demo_def
      demo_entry_def)

lemma demo_GetExpired_then:
  "sqlStore_GetExpired 500 (batchSize \<lparr>batchSize = 1\<rparr>) (demo [Done, d])
     = (Inr [demo_entry ''p1'' 100], demo [d])"
  by (simp add: sqlStore_GetExpired_def db_query_def next_outcome_def from_expire_def
      getExpiredSQL_def demo_def demo_entry_def)

lemma demo_rows_p1: "post_rows (demo []) ''p1'' \<noteq> [[], [], [], []]"
  by (simp add: post_rows_def footprint_def rows_of_def demo_def demo_tables_def)

lemma demo_purge_p1:
  "demo_purge [''p1''] (demo []) = ((1, None), demo [] \<lparr>tables := wipe footprint [''p1''] demo_tables\<rparr>)"
proof -
  have "sqlPurger_Purge [''p1''] (demo []) = ((1, None), demo [] \<lparr>tables := wipe footprint [''p1''] demo_tables\<rparr>)"
    using sqlPurger_Done [of "demo []" "[''p1'']"] demo_schema by (simp add: demo_def)
  then show ?thesis
    unfolding demo_purge_def using demo_hard
    by (subst configPurger_hard) simp_all
qed

lemma demo_tick:
  "Sweeper_Run \<lparr>batchSize = 1\<rparr> sqlStore demo_purge LogError 500 (demo []) =
     demo [] \<lparr>tables := wipe footprint [''p1''] demo_tables, expire_rows := Some [demo_entry ''p2'' 900]\<rparr>"
  using demo_GetExpired demo_purge_p1
    DeleteByPostIDs_Done [of "demo [] \<lparr>tables := wipe footprint [''p1''] demo_tables\<rparr>"
      "[demo_entry ''p2'' 900, demo_entry ''p1'' 100]" "[''p1'']"]
  by (simp add: Sweeper_Run_def demo_entry_def demo_def)

subsection \<open>A plugin in this world\<close>

definition demo_perm :: "fakeKV perm_api" where
  "demo_perm = \<lparr>HasPermissionTo = (\<lambda>u p w. u = ''admin''),
     HasPermissionToChannel = (\<lambda>u c p w. u = ''owner''),
     GetChannel = (\<lambda>c w. (Some \<lparr>IsGroupOrDirect = False, IsOpen = True\<rparr>, None))\<rparr>"

definition demo_api :: "fakeKV plugin_api" where
  "demo_api = \<lparr>
     LoadPluginConfiguration = (\<lambda>w. (Inr (conf demo_holder), w)),
     RegisterCommand = (\<lambda>c w. (None, w)), HasDriver = True,
     GetMasterDB = (\<lambda>w. (None, w)), cluster_Schedule = (\<lambda>k d w. (None, w)), job_Close = (\<lambda>w. (None, w)),
     api_kv = fakeKV_api, api_perm = demo_perm,
     api_license = (\<lambda>w. False), api_version = (\<lambda>w. ''10.1''), api_DeletePost = (\<lambda>i w. (None, w))\<rparr>"

definition demo_plugin :: plugin where
  "demo_plugin = \<lparr>cfg = demo_holder, ttlService_set = True, apiHandler_set = True,
     expireStore_set = True, expiryService_set = True, purger_set = True,
     plugin_sweeper = Some \<lparr>batchSize = 1\<rparr>, sweeperJob = JobRunning\<rparr>"

lemma demo_sweeper_tick:
  "sweeper_tick demo_api now demo_plugin s = Sweeper_Run \<lparr>batchSize = 1\<rparr> sqlStore demo_purge LogError now s"
  by (simp add: sweeper_tick_def demo_plugin_def the_server_def demo_api_def demo_purge_def)

lemma demo_rows_changed:
  "post_rows (sweeper_tick demo_api 500 demo_plugin (demo [])) ''p1'' \<noteq> post_rows (demo []) ''p1''"
  unfolding demo_sweeper_tick demo_tick by (subst post_rows_wipe [of _ "[''p1'']" "demo []"])
    (use demo_rows_p1 in \<open>simp_all add: demo_def\<close>)

subsection \<open>A race of two writers\<close>

text \<open>Both read; the second one writes first, so the first one has a conflict and starts again.\<close>

lemma demo_race:
  "\<exists>W s. race fakeKV_api ''ch'' (\<lambda>i. [digit i]) 2 \<lparr>fk_data = Map.empty\<rparr> W s
     \<and> W 0 = Reading 19 \<and> W 1 = Finished None"
proof -
  let ?vals = "\<lambda>i. [digit i]" and ?s0 = "\<lparr>fk_data = Map.empty\<rparr>"
  let ?s1 = "\<lparr>fk_data = [kvKey ''ch'' \<mapsto> [digit 1]]\<rparr>"
  let ?W0 = "\<lambda>_ :: nat. enter retries"
  note defs = fakeKV_defs enter_def retries_20 slice_def
  have 1: "race fakeKV_api ''ch'' ?vals 2 ?s0 (?W0(0 := Writing 19 None)) ?s0"
    by (rule race_step [OF race_start]) (simp_all add: defs)
  have 2: "race fakeKV_api ''ch'' ?vals 2 ?s0 (?W0(0 := Writing 19 None, 1 := Writing 19 None)) ?s0"
    by (rule race_step [OF 1]) (simp_all add: defs)
  have 3: "race fakeKV_api ''ch'' ?vals 2 ?s0
      (?W0(0 := Writing 19 None, 1 := Writing 19 None, 1 := Finished None)) ?s1"
    by (rule race_step [OF 2]) (simp_all add: defs)
  have 4: "race fakeKV_api ''ch'' ?vals 2 ?s0
      (?W0(0 := Writing 19 None, 1 := Writing 19 None, 1 := Finished None, 0 := Reading 19)) ?s1"
    by (rule race_step [OF 3]) (simp_all add: defs)
  then show ?thesis by (intro exI conjI) (assumption, simp_all)
qed

subsection \<open>A run of one node\<close>

text \<open>
  A channel with a TTL of one minute; the node is activated, hears of a post at time 40, and
  ticks at time 60040.
\<close>

definition demo_setting :: TTLSetting where
  "demo_setting = \<lparr>DurationSeconds = 60, SetBy = ''admin'', SetAt = 7\<rparr>"

definition fresh :: "entry list option \<Rightarrow> log_line list \<Rightarrow> fakeKV world" where
  "fresh rows lg = \<lparr>expire_rows = rows, tables = demo_tables, outcomes = [],
     srv = \<lparr>fk_data = [''ttl:ch'' \<mapsto> marshal_TTLSetting demo_setting]\<rparr>, logs = lg, events = []\<rparr>"

definition demo_post :: post where
  "demo_post = \<lparr>Post_Id = ''p1'', Post_ChannelId = ''ch'', Post_RootId = '''', Post_CreateAt = 40\<rparr>"

definition demo_node :: plugin where
  "demo_node = \<lparr>cfg = demo_holder, ttlService_set = True, apiHandler_set = True,
     expireStore_set = True, expiryService_set = True, purger_set = True,
     plugin_sweeper = Some \<lparr>batchSize = 500\<rparr>, sweeperJob = JobRunning\<rparr>"

definition demo_indexed :: entry where
  "demo_indexed = \<lparr>PostID = ''p1'', ChannelID = ''ch'', RootID = ''p1'', ExpireAt = 60040, CreatedAt = 50\<rparr>"

lemma fresh_activate:
  "OnActivate demo_api new_plugin (fresh None []) = (demo_node, fresh (Some []) [Info msg_activated []])"
  by (simp add: OnActivate_def loadConfig_def on_srv_def demo_api_def fresh_def LogInfo_def
      initExpiry_def initSweeper_def Service_Migrate_def sqlStore_Migrate_def db_exec_Done ddl_def
      new_plugin_def demo_node_def holder_set_def Sweeper_New_def demo_holder_def)

lemma fresh_ttl: "Service_GetTTL (the_store demo_api) ''ch'' (fresh rows lg) = (Inr (60 * Second, True), fresh rows lg)"
  using unmarshal_marshal [of demo_setting]
  by (simp add: Service_GetTTL_def the_store_def demo_api_def kvStore_Get_def kv_of_def fakeKV_defs kvKey_def
      fresh_def demo_setting_def valid_utf8_ascii)

lemma fresh_posted:
  "MessageHasBeenPosted demo_api 50 (Some demo_post) demo_node (fresh (Some []) lg)
    = fresh (Some [demo_indexed]) lg"
  using fresh_ttl [of "Some []" lg]
  by (simp add: MessageHasBeenPosted_def OnPostCreated_def demo_node_def demo_post_def threadRoot_def
     demo_indexed_def
      sqlStore_Upsert_def db_exec_Done on_expire_def fresh_def Milliseconds_def go_div_def
      signed_divide_int_def Let_def)

lemma fresh_created:
  "OnPostCreated sqlStore (Service_GetTTL (kvStore_api NewKVStore (kv_of fakeKV_api))) 50 demo_post (fresh (Some []) lg)
    = (None, fresh (Some [demo_indexed]) lg)"
  using fresh_ttl [of "Some []" lg]
  by (simp add: OnPostCreated_def demo_post_def threadRoot_def demo_indexed_def the_store_def demo_api_def
      sqlStore_Upsert_def db_exec_Done on_expire_def fresh_def Milliseconds_def go_div_def
      signed_divide_int_def Let_def)

text \<open>A reply to a root that was indexed with a longer TTL.\<close>

definition demo_reply :: post where
  "demo_reply = \<lparr>Post_Id = ''p2'', Post_ChannelId = ''ch'', Post_RootId = ''p1'', Post_CreateAt = 1000\<rparr>"

definition demo_old :: entry where
  "demo_old = \<lparr>PostID = ''p1'', ChannelID = ''ch'', RootID = ''p1'', ExpireAt = 3600000, CreatedAt = 0\<rparr>"

lemma fresh_reply:
  "\<exists>s'. OnPostCreated sqlStore (Service_GetTTL (kvStore_api NewKVStore (kv_of fakeKV_api))) 1000 demo_reply
     (fresh (Some [demo_old]) lg) = (None, s')"
  using fresh_ttl [of "Some [demo_old]" lg]
  by (simp add: OnPostCreated_def demo_reply_def threadRoot_def the_store_def demo_api_def
      sqlStore_Upsert_def sqlStore_UpdateExpireByRoot_def db_exec_Done on_expire_def fresh_def Let_def)

lemma fresh_run: "run demo_api (fresh None [])
   [(Posted 50 (Some demo_post), fresh (Some []) [Info msg_activated []]), (Activate, fresh None [])]
   ((\<lambda>_. new_plugin) (0 := demo_node))
   (fresh (Some [demo_indexed]) [Info msg_activated []])"
proof -
  have 1: "run demo_api (fresh None []) [(Activate, fresh None [])] ((\<lambda>_. new_plugin) (0 := demo_node))
      (fresh (Some []) [Info msg_activated []])"
    by (rule run.step [OF run.start]) (simp add: fresh_activate)
  have "run demo_api (fresh None [])
   [(Posted 50 (Some demo_post), fresh (Some []) [Info msg_activated []]), (Activate, fresh None [])]
   (((\<lambda>_. new_plugin) (0 := demo_node)) (0 := demo_node))
   (fresh (Some [demo_indexed]) [Info msg_activated []])"
    by (rule run.step [OF 1]) (simp add: fresh_posted)
  then show ?thesis by simp
qed

text \<open>The same for the specification: nothing but the plugin writes settings here.\<close>

lemma demo_quiet: "quiet demo_api fk_data"
  by (simp add: quiet_def keeps_def demo_api_def)

lemma demo_plugin_run:
  "plugin_run demo_api fk_data (fresh None []) ((\<lambda>_. new_plugin) (0 := demo_node)) (fresh (Some []) [Info msg_activated []])"
  by (rule plugin_run.step [OF plugin_run.start, of _ Activate]) (simp_all add: fresh_activate user_ok_def)

lemma fresh_settings: "settings_of (fk_data (srv (fresh rows lg))) = [''ch'' \<mapsto> demo_setting]"
proof
  fix ch
  show "settings_of (fk_data (srv (fresh rows lg))) ch = [''ch'' \<mapsto> demo_setting] ch"
    using unmarshal_marshal [of demo_setting]
    by (simp add: settings_of_def fresh_def kvKey_def slice_def demo_setting_def valid_utf8_ascii)
qed

lemma fresh_tick_hard:
  "healthy (fresh (Some [demo_indexed]) lg)"
  using demo_schema by (simp add: healthy_def fresh_def index_ok_def)

lemma fresh_tick:
  fixes lg
  defines "s \<equiv> fresh (Some [demo_indexed]) lg"
  shows "post_rows (sweeper_tick demo_api 60040 demo_node s) ''p1'' \<noteq> post_rows s ''p1''"
proof -
  let ?s' = "sweeper_tick demo_api 60040 demo_node s"
  have s': "?s' = Sweeper_Run \<lparr>batchSize = 500\<rparr> sqlStore (configPurger_Purge demo_holder sqlPurger_Purge
      (server_of (\<lambda>i w. (None, w)) (\<lambda>w. False) (\<lambda>w. ''10.1''))) LogError 60040 s"
    by (simp add: sweeper_tick_def demo_node_def the_server_def demo_api_def)
  obtain es where es: "oldest_batch 60040 500 (index_of s) es"
    and r: "\<And>p. post_rows ?s' p = (if p \<in> set (map PostID es) then [[], [], [], []] else post_rows s p)"
    using healthy_tick [where s = s and holder = demo_holder and lic = "\<lambda>w. False" and ver = "\<lambda>w. ''10.1''"
        and sw = "\<lparr>batchSize = 500\<rparr>" and now = 60040 and del = "\<lambda>i w. (None, w)"]
      fresh_tick_hard demo_hard unfolding s' by (auto simp: s_def)
  have e: "expired_in 60040 (index_of s) demo_indexed" (is "expired_in _ _ ?e")
    by (simp add: demo_indexed_def expired_in_def s_def fresh_def index_of_def rows_map_def getByPostSQL_def)
  have only: "x = ?e" if "expired_in 60040 (index_of s) x" for x
    using that by (auto simp: demo_indexed_def expired_in_def s_def fresh_def index_of_def rows_map_def getByPostSQL_def split: if_splits)
  have "?e \<in> set es"
  proof (rule ccontr)
    assume "?e \<notin> set es"
    then have "length es = 500" "es \<noteq> []" using es e by (auto simp: oldest_batch_def)
    then obtain x where "x \<in> set es" by (cases es) auto
    then have "x = ?e" using es only by (auto simp: oldest_batch_def)
    then show False using \<open>x \<in> set es\<close> \<open>?e \<notin> set es\<close> by simp
  qed
  then have "''p1'' \<in> set (map PostID es)" by (force simp: demo_indexed_def)
  moreover have "post_rows s ''p1'' \<noteq> [[], [], [], []]"
    by (simp add: s_def fresh_def post_rows_def footprint_def rows_of_def demo_tables_def)
  ultimately show ?thesis using r by simp
qed

subsection \<open>A sweep and a reply that cross\<close>

text \<open>
  Node 1 has queried the post of \<open>demo_post\<close> as expired at 60040; before its purge, node 0
  indexes a reply to it, sent at 60000, and moves the thread to 120000.
\<close>

definition late_reply :: post where
  "late_reply = \<lparr>Post_Id = ''p2'', Post_ChannelId = ''ch'', Post_RootId = ''p1'', Post_CreateAt = 60000\<rparr>"

definition extended :: "fakeKV world" where
  "extended = fresh (Some [demo_indexed\<lparr>ExpireAt := 120000\<rparr>,
     \<lparr>PostID = ''p2'', ChannelID = ''ch'', RootID = ''p1'', ExpireAt = 120000, CreatedAt = 60010\<rparr>]) []"

lemma minute_later [simp]: "expiry (60000000000 :: int64) po = Post_CreateAt po + 60000"
  by (simp add: expiry_def Milliseconds_def go_div_def signed_divide_int_def)

lemma demo_Upserting:
  assumes "expire_rows s = Some rs" "outcomes s = []"
  shows "task_step api holder (Upserting now po d) s
    = (if Post_RootId po \<noteq> '''' then Bumping po d else Idle, s\<lparr>expire_rows := Some (upsertSQL (post_entry d now po) rs)\<rparr>)"
  using assms by (simp add: sqlStore_Upsert_def db_exec_Done on_expire_def)

lemma demo_Bumping:
  assumes "expire_rows s = Some rs" "outcomes s = []"
  shows "task_step api holder (Bumping po d) s
    = (Idle, s\<lparr>expire_rows := Some (updateByRootSQL (expiry d po) (threadRoot po) rs)\<rparr>)"
  using assms by (simp add: sqlStore_UpdateExpireByRoot_def db_exec_Done on_expire_def)

lemma demo_crossing:
  "\<exists>h T. interleaved demo_api (fresh (Some []) []) h T extended
     \<and> T 0 = Idle \<and> T 1 = Purging 60040 [''p1'']"
proof -
  let ?i = "interleaved demo_api (fresh (Some []) [])" and ?T0 = "\<lambda>_ :: nat. Idle"
  let ?d = "60 * Second" and ?s0 = "fresh (Some []) []" and ?s1 = "fresh (Some [demo_indexed]) []"
  let ?s2 = "fresh (Some [demo_indexed, post_entry ?d 60010 late_reply]) []"
  have 1: "?i [] (?T0(0 := Lookup 50 demo_post)) ?s0"
    by (rule interleaved.posted [OF interleaved.start]) (simp_all add: demo_post_def)
  have 2: "\<exists>h. ?i h (?T0(0 := Upserting 50 demo_post ?d)) ?s0"
    using interleaved.step [OF 1, of demo_holder 0] fresh_ttl [of "Some []" "[]"]
    by (auto simp: demo_post_def)
  have u: "task_step demo_api demo_holder (Upserting 50 demo_post ?d) ?s0 = (Idle, ?s1)"
    by (subst demo_Upserting [of _ "[]"])
      (simp_all add: fresh_def demo_post_def post_entry_def threadRoot_def demo_indexed_def)
  have 3: "\<exists>h. ?i h ?T0 ?s1" by (rule interleaved_next [OF 2, of demo_holder 0]) (subst fun_upd_same, rule u, simp add: fun_eq_iff)
  have 4: "\<exists>h. ?i h (?T0(1 := Querying 60040 (Sweeper_New 500))) ?s1"
    using 3 interleaved.tick [of _ _ _ ?T0 _ 1] by blast
  have q: "task_step demo_api demo_holder (Querying 60040 (Sweeper_New 500)) ?s1 = (Purging 60040 [''p1''], ?s1)"
    by (simp add: sqlStore_GetExpired_def db_query_Done from_expire_def getExpiredSQL_def fresh_def
        demo_indexed_def Sweeper_New_def)
  let ?T = "?T0(1 := Purging 60040 [''p1''])"
  have 5: "\<exists>h. ?i h ?T ?s1" by (rule interleaved_next [OF 4, of demo_holder 1]) (subst fun_upd_same, rule q, simp add: fun_eq_iff)
  have 6: "\<exists>h. ?i h (?T(0 := Lookup 60010 late_reply)) ?s1"
  proof -
    obtain h where "?i h ?T ?s1" using 5 by blast
    then have "?i h (?T(0 := Lookup 60010 late_reply)) ?s1"
      by (rule interleaved.posted) (simp_all add: late_reply_def)
    then show ?thesis by blast
  qed
  have l: "task_step demo_api demo_holder (Lookup 60010 late_reply) ?s1 = (Upserting 60010 late_reply ?d, ?s1)"
    using fresh_ttl [of "Some [demo_indexed]" "[]"] by (simp add: late_reply_def)
  have 7: "\<exists>h. ?i h (?T(0 := Upserting 60010 late_reply ?d)) ?s1"
    by (rule interleaved_next [OF 6, of demo_holder 0]) (subst fun_upd_same, rule l, simp add: fun_eq_iff)
  have u: "task_step demo_api demo_holder (Upserting 60010 late_reply ?d) ?s1 = (Bumping late_reply ?d, ?s2)"
    by (subst demo_Upserting [of _ "[demo_indexed]"])
      (simp_all add: fresh_def late_reply_def post_entry_def demo_indexed_def)
  have 8: "\<exists>h. ?i h (?T(0 := Bumping late_reply ?d)) ?s2"
    by (rule interleaved_next [OF 7, of demo_holder 0]) (subst fun_upd_same, rule u, simp add: fun_eq_iff)
  have b: "task_step demo_api demo_holder (Bumping late_reply ?d) ?s2 = (Idle, extended)"
    by (subst demo_Bumping [of _ "[demo_indexed, post_entry ?d 60010 late_reply]"])
      (simp_all add: fresh_def late_reply_def post_entry_def demo_indexed_def updateByRootSQL_def
        extended_def threadRoot_def)
  have "\<exists>h. ?i h (?T(0 := Idle)) extended"
    by (rule interleaved_next [OF 8, of demo_holder 0]) (subst fun_upd_same, rule b, simp add: fun_eq_iff)
  then show ?thesis by (metis fun_upd_apply zero_neq_one)
qed

lemma extended_facts:
  "healthy extended" "index_of extended ''p1'' = Some (demo_indexed\<lparr>ExpireAt := 120000\<rparr>)"
  "post_rows extended ''p1'' \<noteq> [[], [], [], []]"
  using demo_schema
  by (simp_all add: healthy_def extended_def fresh_def index_ok_def demo_indexed_def index_of_def
      rows_map_def getByPostSQL_def post_rows_def footprint_def rows_of_def demo_tables_def)

lemma extended_purge:
  "\<exists>s'. task_step demo_api demo_holder (Purging 60040 [''p1'']) extended = (Pruning [''p1''], s')
    \<and> post_rows s' ''p1'' \<noteq> post_rows extended ''p1''"
proof -
  let ?s' = "extended\<lparr>tables := wipe footprint [''p1''] (tables extended)\<rparr>"
  have h: "outcomes extended = []" "schema_ok footprint (tables extended)"
    using extended_facts(1) by (simp_all add: healthy_def)
  have "configPurger_Purge demo_holder sqlPurger_Purge (the_server demo_api) [''p1''] extended = ((1, None), ?s')"
    using sqlPurger_Done [OF h, of "[''p1'']"] demo_hard
    by (simp add: the_server_def demo_api_def configPurger_hard)
  moreover have "post_rows ?s' ''p1'' = [[], [], [], []]" by (subst post_rows_wipe [of _ "[''p1'']" extended]) simp_all
  ultimately show ?thesis using extended_facts(3) by simp
qed

subsection \<open>A request of an administrator\<close>

definition demo_http :: "int64 \<Rightarrow> http_request" where
  "demo_http n = \<lparr>rq_method = ''POST'', rq_path = ''/ttl'', rq_user = ''admin'',
     rq_body = set_request_body ''ch'' n\<rparr>"

definition demo_stored :: "int64 \<Rightarrow> int64 \<Rightarrow> fakeKV world \<Rightarrow> fakeKV world" where
  "demo_stored n at s = s\<lparr>srv := (srv s)\<lparr>fk_data := (fk_data (srv s))
     (kvKey ''ch'' \<mapsto> marshal_TTLSetting \<lparr>DurationSeconds = n, SetBy = ''admin'', SetAt = at\<rparr>)\<rparr>\<rparr>"

lemma fake_Set:
  "kvStore_Set NewKVStore (kv_of fakeKV_api) ch t s
    = (None, s\<lparr>srv := (srv s)\<lparr>fk_data := (fk_data (srv s))(kvKey ch \<mapsto> marshal_TTLSetting t)\<rparr>\<rparr>)"
  by (simp add: kvStore_Set_def NewKVStore_def defaultMaxRetries_def numeral_eq_Suc kv_of_def fakeKV_defs slice_def)

lemma demo_SetTTL:
  assumes "ValidateTTL d = None"
  shows "Service_SetTTL (the_store demo_api) (perm_of demo_perm) ''admin'' ''ch'' d at s
    = (None, demo_stored (int64_Seconds d) at s)"
  using assms
  by (simp add: Service_SetTTL_eq may_manage_def perm_of_def demo_perm_def the_store_def demo_api_def
      fake_Set demo_stored_def)

lemma demo_created:
  fixes at :: int64
  assumes "ValidateTTL (n * Second) = None" "0 \<le> sint n"
  defines "dto \<equiv> \<lparr>dto_DurationSeconds = n, dto_SetBy = ''admin'', dto_SetAt = at\<rparr>"
  shows "Handler_ServeHTTP (the_ttl demo_api) at (demo_http n) s
    = (\<lparr>status = 201, resp_body = SettingBody dto\<rparr>,
       broadcast ''ch'' (Some dto) (demo_stored (int64_Seconds (n * Second)) at s))"
proof -
  have a: "api_perm demo_api = demo_perm" by (simp add: demo_api_def)
  have p: "CutPrefix ''/ttl'' (''/plugins/'' @ PluginID) = None"
    by (simp add: CutPrefix_def HasPrefix_def PluginID_def)
  have d: "decode_set (demo_http n) = Some \<lparr>req_ChannelID = ''ch'', req_TTLSeconds = n\<rparr>"
    by (rule decode_set_request_body) (simp_all add: valid_utf8_ascii demo_http_def)
  have h: "Handler_ServeHTTP (the_ttl demo_api) at (demo_http n) s = handleSet (the_ttl demo_api) at (demo_http n) s"
    using p by (simp add: Handler_ServeHTTP_def demo_http_def mux_route_set)
  show ?thesis
    unfolding h using d assms(2) demo_SetTTL [OF assms(1), of at s]
    by (simp add: handleSet_def the_ttl_def demo_http_def dto_def a Let_def)
qed

lemma demo_ttl: "the_ttl demo_api = ttlService (kvStore_api NewKVStore (kv_of fakeKV_api)) (perm_of demo_perm)"
  by (simp add: the_ttl_def the_store_def demo_api_def)

lemma demo_kv: "kv_service (api_kv demo_api) fk_data (\<lambda>f. ())"
  using fake.kv_service_axioms by (simp add: demo_api_def)

text \<open>What is stored is there, and was not.\<close>

lemma demo_settings:
  "settings_of (fk_data (srv (broadcast ch t (demo_stored n at s))))
    = (settings_of (fk_data (srv s)))(''ch'' \<mapsto> \<lparr>DurationSeconds = n, SetBy = ''admin'', SetAt = at\<rparr>)"
  by (simp add: demo_stored_def broadcast_def settings_of_put valid_utf8_ascii)

lemma demo_no_setting [simp]: "settings_of (fk_data (srv (demo os))) ch = None"
  by (simp add: demo_def settings_of_def slice_def)

text \<open>A direct channel, and a user without any permission.\<close>

definition dm_perm :: "(fakeKV world) perm_api" where
  "dm_perm = \<lparr>HasPermissionTo = (\<lambda>u p s. False), HasPermissionToChannel = (\<lambda>u c p s. False),
     GetChannel = (\<lambda>c s. (Some \<lparr>IsGroupOrDirect = True, IsOpen = False\<rparr>, None))\<rparr>"

lemma dm_created:
  "status (fst (Handler_ServeHTTP (ttlService (kvStore_api NewKVStore (kv_of fakeKV_api)) dm_perm) 7
      \<lparr>rq_method = ''POST'', rq_path = ''/ttl'', rq_user = ''stranger'', rq_body = set_request_body ''dm'' 60\<rparr> (demo []))) = 201"
proof -
  let ?r = "\<lparr>rq_method = ''POST'', rq_path = ''/ttl'', rq_user = ''stranger'', rq_body = set_request_body ''dm'' 60\<rparr>"
  let ?ttl = "ttlService (kvStore_api NewKVStore (kv_of fakeKV_api)) dm_perm"
  have p: "CutPrefix ''/ttl'' (''/plugins/'' @ PluginID) = None"
    by (simp add: CutPrefix_def HasPrefix_def PluginID_def)
  have d: "decode_set ?r = Some \<lparr>req_ChannelID = ''dm'', req_TTLSeconds = 60\<rparr>"
    by (rule decode_set_request_body) (simp_all add: valid_utf8_ascii)
  have "fst (Service_SetTTL (kvStore_api NewKVStore (kv_of fakeKV_api)) dm_perm ''stranger'' ''dm'' (60 * Second) 7 (demo [])) = None"
    by (simp add: Service_SetTTL_eq may_manage_def dm_perm_def ValidateTTL_def fake_Set)
  then obtain s1 where "Service_SetTTL (kvStore_api NewKVStore (kv_of fakeKV_api)) dm_perm ''stranger'' ''dm'' (60 * Second) 7 (demo []) = (None, s1)"
    by (metis prod.collapse)
  then show ?thesis
    using d p by (simp add: Handler_ServeHTTP_def mux_route_set handleSet_def Let_def)
qed

subsection \<open>Two requests that cross\<close>

text \<open>Two changes of one channel by two permitted users.\<close>

definition an_hour :: change where
  "an_hour = SetTo ''admin'' ''ch'' Hour 10 \<lparr>dto_DurationSeconds = 3600, dto_SetBy = ''admin'', dto_SetAt = 10\<rparr>"

definition a_day :: change where
  "a_day = SetTo ''owner'' ''ch'' (24 * Hour) 11 \<lparr>dto_DurationSeconds = 86400, dto_SetBy = ''owner'', dto_SetAt = 11\<rparr>"

lemma crossing_checks: "change_check demo_api an_hour s = None" "change_check demo_api a_day s = None"
proof -
  have v: "ValidateTTL Hour = None" "ValidateTTL (24 * Hour) = None"
    by (simp_all add: ValidateTTL_None_iff)
  show "change_check demo_api an_hour s = None" "change_check demo_api a_day s = None"
    by (simp_all only: an_hour_def a_day_def change_check.simps v option.case)
      (simp_all add: Service_checkCanManage_def demo_api_def demo_perm_def perm_of_def)
qed

lemma crossing_settings:
  "chg_setting an_hour = Some \<lparr>DurationSeconds = 3600, SetBy = ''admin'', SetAt = 10\<rparr>"
  "chg_setting a_day = Some \<lparr>DurationSeconds = 86400, SetBy = ''owner'', SetAt = 11\<rparr>"
  using int64_Seconds_whole [of 3600] int64_Seconds_whole [of 86400]
  by (simp_all add: an_hour_def a_day_def)

end
