(* ===== verification/Go_Timestamp.thy ===== *)
theory Go_Timestamp
  imports Go_Strconv "HOL-Library.Monad_Syntax"
begin

section \<open>Time stamps of log entries (Go's package \<open>time\<close>)\<close>

text \<open>
  \<open>time.Parse\<close> for the layout \<open>2006-01-02 15:04:05.000 Z07:00\<close> of \<open>build/pluginctl/logs.go\<close>,
  element by element as the standard library reads it: the year has four digits, all other
  numbers two (the hour one or two), a space stands for any number of spaces, the fraction is
  introduced by a point or a comma, and the zone is \<open>Z\<close> or a signed offset. An instant is the
  number of nanoseconds since the Unix epoch.
\<close>

type_synonym instant = int

text \<open>A value that has been read and the rest of the input.\<close>

type_synonym 'a parsed = "('a \<times> string) option"

definition digit_at :: "string \<Rightarrow> nat \<Rightarrow> bool" where
  "digit_at s i \<longleftrightarrow> i < length s \<and> is_digit (s ! i)"

definition getnum :: "bool \<Rightarrow> string \<Rightarrow> int parsed" where
  "getnum fixed s =
     (if \<not> digit_at s 0 then None
      else if \<not> digit_at s 1 then
        if fixed then None else Some (int (digit_val (s ! 0)), drop 1 s)
      else Some (int (digit_val (s ! 0)) * 10 + int (digit_val (s ! 1)), drop 2 s))"

definition num_in :: "bool \<Rightarrow> int \<Rightarrow> int \<Rightarrow> string \<Rightarrow> int parsed" where
  "num_in fixed lo hi s =
     (case getnum fixed s of
        None \<Rightarrow> None
      | Some (n, r) \<Rightarrow> if lo \<le> n \<and> n \<le> hi then Some (n, r) else None)"

text \<open>The package's own \<open>atoi\<close>: an optional sign and digits, possibly none.\<close>

definition time_atoi :: "string \<Rightarrow> int option" where
  "time_atoi s =
     (let (neg, ds) = (case s of
          c # r \<Rightarrow> if c = CHR ''-'' then (True, r) else if c = CHR ''+'' then (False, r) else (False, s)
        | [] \<Rightarrow> (False, s)) in
      if list_all is_digit ds then Some (if neg then - int (digits_val ds) else int (digits_val ds))
      else None)"

definition skip_char :: "char \<Rightarrow> string \<Rightarrow> string option" where
  "skip_char c s = (case s of [] \<Rightarrow> None | d # r \<Rightarrow> if d = c then Some r else None)"

definition skip_spaces :: "string \<Rightarrow> string option" where
  "skip_spaces s =
     (if s \<noteq> [] \<and> hd s \<noteq> CHR '' '' then None else Some (dropWhile (\<lambda>c. c = CHR '' '') s))"

definition parse_year :: "string \<Rightarrow> int parsed" where
  "parse_year s =
     (if length s < 4 \<or> \<not> digit_at s 0 then None
      else map_option (\<lambda>y. (y, drop 4 s)) (time_atoi (take 4 s)))"

text \<open>The fraction of three digits, in nanoseconds.\<close>

definition parse_fraction :: "string \<Rightarrow> int parsed" where
  "parse_fraction s =
     (if length s < 4 \<or> \<not> (hd s = CHR ''.'' \<or> hd s = CHR '','') then None
      else
        case time_atoi (take 3 (drop 1 s)) of
          None \<Rightarrow> None
        | Some ns \<Rightarrow> if ns < 0 then None else Some (ns * 1000000, drop 4 s))"

text \<open>The offset of the zone in seconds east of UTC.\<close>

definition parse_zone :: "string \<Rightarrow> int parsed" where
  "parse_zone s =
     (if s \<noteq> [] \<and> hd s = CHR ''Z'' then Some (0, drop 1 s)
      else if length s < 6 \<or> s ! 3 \<noteq> CHR '':'' then None
      else
        case (num_in True 0 24 (take 2 (drop 1 s)), num_in True 0 60 (take 2 (drop 4 s))) of
          (Some (hr, _), Some (mm, _)) \<Rightarrow>
            let off = (hr * 60 + mm) * 60 in
            if hd s = CHR ''+'' then Some (off, drop 6 s)
            else if hd s = CHR ''-'' then Some (- off, drop 6 s)
            else None
        | _ \<Rightarrow> None)"

subsection \<open>The calendar\<close>

definition leap_year :: "int \<Rightarrow> bool" where
  "leap_year y \<longleftrightarrow> y mod 4 = 0 \<and> (y mod 100 \<noteq> 0 \<or> y mod 400 = 0)"

definition days_in :: "int \<Rightarrow> int \<Rightarrow> int" where
  "days_in m y =
     (if m = 2 then if leap_year y then 29 else 28
      else if m \<in> {4, 6, 9, 11} then 30 else 31)"

definition days_before_month :: "int \<Rightarrow> int \<Rightarrow> int" where
  "days_before_month m y = (\<Sum>k\<leftarrow>[1..m - 1]. days_in k y)"

text \<open>Days since 1970-01-01.\<close>

definition days_of_date :: "int \<Rightarrow> int \<Rightarrow> int \<Rightarrow> int" where
  "days_of_date y m d =
     (let p = y - 1 in
      365 * p + p div 4 - p div 100 + p div 400 + days_before_month m y + (d - 1) - 719162)"

definition instant_of :: "int \<Rightarrow> int \<Rightarrow> int \<Rightarrow> int \<Rightarrow> int \<Rightarrow> int \<Rightarrow> int \<Rightarrow> int \<Rightarrow> instant" where
  "instant_of y m d hh mm ss ns off =
     (((days_of_date y m d * 24 + hh) * 60 + mm) * 60 + ss - off) * 1000000000 + ns"

subsection \<open>The layout\<close>

text \<open>The two halves of the layout, up to the seconds and from the fraction on.\<close>

definition parse_date_time :: "string \<Rightarrow> (int \<times> int \<times> int \<times> int \<times> int \<times> int) parsed" where
  "parse_date_time s =
     do {
       (y, s) \<leftarrow> parse_year s;
       s \<leftarrow> skip_char (CHR ''-'') s;
       (m, s) \<leftarrow> num_in True 1 12 s;
       s \<leftarrow> skip_char (CHR ''-'') s;
       (d, s) \<leftarrow> getnum True s;
       s \<leftarrow> skip_spaces s;
       (hh, s) \<leftarrow> num_in False 0 23 s;
       s \<leftarrow> skip_char (CHR '':'') s;
       (mm, s) \<leftarrow> num_in True 0 59 s;
       s \<leftarrow> skip_char (CHR '':'') s;
       (ss, s) \<leftarrow> num_in True 0 59 s;
       Some ((y, m, d, hh, mm, ss), s)
     }"

definition Time_Parse :: "string \<Rightarrow> instant option" where
  "Time_Parse s =
     do {
       ((y, m, d, hh, mm, ss), s) \<leftarrow> parse_date_time s;
       (ns, s) \<leftarrow> parse_fraction s;
       s \<leftarrow> skip_spaces s;
       (off, s) \<leftarrow> parse_zone s;
       if s \<noteq> [] \<or> d < 1 \<or> days_in m y < d then None
       else Some (instant_of y m d hh mm ss ns off)
     }"

end
