(* ===== verification/Ctl_Logs.thy ===== *)
theory Ctl_Logs
  imports Go_Json Go_Timestamp
begin

section \<open>The log viewer of the deployment tool (\<open>build/pluginctl/logs.go\<close>)\<close>

text \<open>
  The state of the tool is what it can reach (\<open>remote\<close>: the server, the file system and the
  environment, of any type) and two traces, the lines written to standard output and the lines
  of the logger. What is not the tool's code is the record \<open>ctl_api\<close>: the calls of the client
  of the REST API and of the operating system, as arbitrary functions; a deadline of the
  context is an error of the call it cuts short. An error keeps what it wraps, or
  the text that the standard library could not read.
\<close>

type_synonym sys_error = string

datatype ctl_error =
    ErrArguments
  | ErrSecondArgument
  | ErrNoSiteURL
  | ErrNoCredentials
  | ErrLogin string sys_error
  | ErrOpenBundle string sys_error
  | ErrUpload sys_error
  | ErrEnable sys_error
  | ErrDisable sys_error
  | ErrFetchConfig sys_error
  | ErrFileJsonOff
  | ErrFetchEntries ctl_error
  | ErrPrintEntries ctl_error
  | ErrGetLogs sys_error
  | ErrFilterEntries ctl_error
  | ErrLogEntryJSON string
  | ErrTimestamp string
  | ErrStdout sys_error

text \<open>A connection: over the local socket, or to a site with the token of the session (empty at first).\<close>

datatype client = SocketClient string | SiteClient string string

record 'c ctl =
  remote :: 'c
  stdout :: "string list"
  log_out :: "string list"

text \<open>\<open>GetFileJson\<close> is \<open>GetConfig\<close>, of which the code reads \<open>LogSettings.FileJson\<close> only.\<close>

record 'c ctl_api =
  GetLogs :: "client \<Rightarrow> int64 \<Rightarrow> int64 \<Rightarrow> 'c \<Rightarrow> (sys_error + string list) \<times> 'c"
  GetFileJson :: "client \<Rightarrow> 'c \<Rightarrow> (sys_error + bool option) \<times> 'c"
  UploadPluginForced :: "client \<Rightarrow> bytes \<Rightarrow> 'c \<Rightarrow> sys_error option \<times> 'c"
  EnablePlugin :: "client \<Rightarrow> string \<Rightarrow> 'c \<Rightarrow> sys_error option \<times> 'c"
  DisablePlugin :: "client \<Rightarrow> string \<Rightarrow> 'c \<Rightarrow> sys_error option \<times> 'c"
  Login :: "client \<Rightarrow> string \<Rightarrow> string \<Rightarrow> 'c \<Rightarrow> (sys_error + string) \<times> 'c"
  LocalModeSocketPath :: string
  Getenv :: "string \<Rightarrow> 'c \<Rightarrow> string"
  DialUnix :: "string \<Rightarrow> 'c \<Rightarrow> sys_error option \<times> 'c"
  OpenFile :: "string \<Rightarrow> 'c \<Rightarrow> (sys_error + bytes) \<times> 'c"
  WriteStdout :: "string \<Rightarrow> 'c \<Rightarrow> sys_error option \<times> 'c"

definition on_remote :: "('c \<Rightarrow> 'r \<times> 'c) \<Rightarrow> 'c ctl \<Rightarrow> 'r \<times> 'c ctl" where
  "on_remote f s = (let (r, w) = f (remote s) in (r, s\<lparr>remote := w\<rparr>))"

subsection \<open>Filtering\<close>

definition logsPerPage :: int64 where
  "logsPerPage = 100"

record logEntry =
  le_PluginID :: string
  le_Timestamp :: string

definition logEntry_fields :: "logEntry field list" where
  "logEntry_fields =
     [(''plugin_id'', string_field (\<lambda>v e. e\<lparr>le_PluginID := v\<rparr>)),
      (''timestamp'', string_field (\<lambda>v e. e\<lparr>le_Timestamp := v\<rparr>))]"

definition decode_entry :: "string \<Rightarrow> logEntry option" where
  "decode_entry e = Unmarshal logEntry_fields e \<lparr>le_PluginID = '''', le_Timestamp = ''''\<rparr>"

definition newline :: string where
  "newline = [CHR 0x0A]"

fun filter_loop :: "string \<Rightarrow> instant \<Rightarrow> string list \<Rightarrow> string list \<Rightarrow> ctl_error + string list" where
  "filter_loop pluginID since ret [] = Inr ret"
| "filter_loop pluginID since ret (e # es) =
     (case decode_entry e of
        None \<Rightarrow> Inl (ErrLogEntryJSON e)
      | Some le \<Rightarrow>
          if le_PluginID le \<noteq> pluginID then filter_loop pluginID since ret es
          else
            (case Time_Parse (le_Timestamp le) of
               None \<Rightarrow> Inl (ErrTimestamp (le_Timestamp le))
             | Some t \<Rightarrow>
                 if t < since then filter_loop pluginID since ret es
                 else filter_loop pluginID since (ret @ [TrimPrefix e newline]) es))"

definition filterLogEntries :: "string list \<Rightarrow> string \<Rightarrow> instant \<Rightarrow> ctl_error + string list" where
  "filterLogEntries entries pluginID since = filter_loop pluginID since [] entries"

definition fetchLogs ::
  "'c ctl_api \<Rightarrow> client \<Rightarrow> int64 \<Rightarrow> int64 \<Rightarrow> string \<Rightarrow> instant \<Rightarrow> 'c ctl \<Rightarrow> (ctl_error + string list) \<times> 'c ctl" where
  "fetchLogs api client page perPage pluginID since s =
     (case on_remote (GetLogs api client page perPage) s of
        (Inl err, s1) \<Rightarrow> (Inl (ErrGetLogs err), s1)
      | (Inr entries, s1) \<Rightarrow>
          (case filterLogEntries entries pluginID since of
             Inl err \<Rightarrow> (Inl (ErrFilterEntries err), s1)
           | Inr new \<Rightarrow> (Inr new, s1)))"

subsection \<open>Printing\<close>

fun printLogEntries :: "'c ctl_api \<Rightarrow> string list \<Rightarrow> 'c ctl \<Rightarrow> ctl_error option \<times> 'c ctl" where
  "printLogEntries api [] s = (None, s)"
| "printLogEntries api (e # es) s =
     (case on_remote (WriteStdout api (e @ newline)) s of
        (Some err, s1) \<Rightarrow> (Some (ErrStdout err), s1)
      | (None, s1) \<Rightarrow> printLogEntries api es (s1\<lparr>stdout := stdout s1 @ [e @ newline]\<rparr>))"

definition checkJSONLogsSetting :: "'c ctl_api \<Rightarrow> client \<Rightarrow> 'c ctl \<Rightarrow> ctl_error option \<times> 'c ctl" where
  "checkJSONLogsSetting api client s =
     (case on_remote (GetFileJson api client) s of
        (Inl err, s1) \<Rightarrow> (Some (ErrFetchConfig err), s1)
      | (Inr fileJson, s1) \<Rightarrow>
          if fileJson = None \<or> fileJson = Some False then (Some ErrFileJsonOff, s1) else (None, s1))"

definition ctl_logs :: "'c ctl_api \<Rightarrow> client \<Rightarrow> string \<Rightarrow> 'c ctl \<Rightarrow> ctl_error option \<times> 'c ctl" where
  "ctl_logs api client pluginID s =
     (case checkJSONLogsSetting api client s of
        (Some err, s1) \<Rightarrow> (Some err, s1)
      | (None, s1) \<Rightarrow>
          (case fetchLogs api client 0 500 pluginID 0 s1 of
             (Inl err, s2) \<Rightarrow> (Some (ErrFetchEntries err), s2)
           | (Inr entries, s2) \<Rightarrow>
               (case printLogEntries api entries s2 of
                  (Some err, s3) \<Rightarrow> (Some (ErrPrintEntries err), s3)
                | (None, s3) \<Rightarrow> (None, s3))))"

subsection \<open>Watching\<close>

text \<open>\<open>slices.Index\<close>: the first position, or -1.\<close>

fun slices_Index :: "string list \<Rightarrow> string \<Rightarrow> int" where
  "slices_Index [] v = - 1"
| "slices_Index (x # xs) v =
     (if x = v then 0 else let i = slices_Index xs v in if i < 0 then - 1 else i + 1)"

definition checkOldestEntry :: "string list \<Rightarrow> string \<Rightarrow> string list \<times> string \<times> bool" where
  "checkOldestEntry entries oldest =
     (if length entries = 0 then ([], oldest, False)
      else
        let newOldestEntry = entries ! (length entries - 1); i = slices_Index entries oldest in
        if i = - 1 then (entries, newOldestEntry, True)
        else if i = int (length entries) - 1 then ([], oldest, False)
        else (drop (nat (i + 1)) entries, newOldestEntry, False))"

text \<open>The pages of one tick. A server that never runs out of new entries keeps it busy: \<open>None\<close>.\<close>

partial_function (option) watch_pages ::
  "'c ctl_api \<Rightarrow> client \<Rightarrow> string \<Rightarrow> instant \<Rightarrow> int64 \<Rightarrow> string \<Rightarrow> 'c ctl \<Rightarrow> ((ctl_error + string) \<times> 'c ctl) option" where
  "watch_pages api client pluginID now page oldestEntry s =
     (case fetchLogs api client page logsPerPage pluginID now s of
        (Inl err, s1) \<Rightarrow> Some (Inl (ErrFetchEntries err), s1)
      | (Inr entries, s1) \<Rightarrow>
          (case checkOldestEntry entries oldestEntry of
             (new, oldestEntry', allNew) \<Rightarrow>
               (case printLogEntries api new s1 of
                  (Some err, s2) \<Rightarrow> Some (Inl (ErrPrintEntries err), s2)
                | (None, s2) \<Rightarrow>
                    if \<not> allNew then Some (Inr oldestEntry', s2)
                    else watch_pages api client pluginID now (page + 1) oldestEntry' s2)))"

text \<open>What the \<open>select\<close> of the loop receives.\<close>

datatype watch_event = CtxDone | TickerTick

datatype watch_result = Watching string | Returned "ctl_error option"

fun watch_loop ::
  "'c ctl_api \<Rightarrow> client \<Rightarrow> string \<Rightarrow> instant \<Rightarrow> watch_event list \<Rightarrow> string \<Rightarrow> 'c ctl
    \<Rightarrow> (watch_result \<times> 'c ctl) option" where
  "watch_loop api client pluginID now [] oldestEntry s = Some (Watching oldestEntry, s)"
| "watch_loop api client pluginID now (CtxDone # evs) oldestEntry s = Some (Returned None, s)"
| "watch_loop api client pluginID now (TickerTick # evs) oldestEntry s =
     (case watch_pages api client pluginID now 0 oldestEntry s of
        None \<Rightarrow> None
      | Some (Inl err, s1) \<Rightarrow> Some (Returned (Some err), s1)
      | Some (Inr oldestEntry', s1) \<Rightarrow> watch_loop api client pluginID now evs oldestEntry' s1)"

definition watchLogs ::
  "'c ctl_api \<Rightarrow> client \<Rightarrow> string \<Rightarrow> instant \<Rightarrow> watch_event list \<Rightarrow> 'c ctl \<Rightarrow> (watch_result \<times> 'c ctl) option" where
  "watchLogs api client pluginID now evs s =
     (case checkJSONLogsSetting api client s of
        (Some err, s1) \<Rightarrow> Some (Returned (Some err), s1)
      | (None, s1) \<Rightarrow> watch_loop api client pluginID now evs '''' s1)"

subsection \<open>Facts\<close>

text \<open>An entry that the filter can read, and one that it lets through.\<close>

definition readable :: "string \<Rightarrow> string \<Rightarrow> bool" where
  "readable pluginID e \<longleftrightarrow>
     (case decode_entry e of
        None \<Rightarrow> False
      | Some le \<Rightarrow> le_PluginID le = pluginID \<longrightarrow> Time_Parse (le_Timestamp le) \<noteq> None)"

definition shown :: "string \<Rightarrow> instant \<Rightarrow> string \<Rightarrow> bool" where
  "shown pluginID since e \<longleftrightarrow>
     (case decode_entry e of
        None \<Rightarrow> False
      | Some le \<Rightarrow> le_PluginID le = pluginID
          \<and> (case Time_Parse (le_Timestamp le) of None \<Rightarrow> False | Some t \<Rightarrow> since \<le> t))"

lemma filter_loop_iff:
  "filter_loop pluginID since ret es = Inr out \<longleftrightarrow>
    list_all (readable pluginID) es
    \<and> out = ret @ map (\<lambda>e. TrimPrefix e newline) (filter (shown pluginID since) es)"
  by (induction es arbitrary: ret) (auto simp: readable_def shown_def split: option.splits)

lemma slices_Index_none: "v \<notin> set xs \<Longrightarrow> slices_Index xs v = - 1"
  by (induction xs) auto

lemma slices_Index_first: "v \<notin> set pre \<Longrightarrow> slices_Index (pre @ v # post) v = int (length pre)"
  by (induction pre) (auto simp: Let_def)

lemma checkOldestEntry_new:
  "oldest \<notin> set es \<Longrightarrow> es \<noteq> [] \<Longrightarrow> checkOldestEntry es oldest = (es, last es, True)"
  by (simp add: checkOldestEntry_def slices_Index_none last_conv_nth)

lemma checkOldestEntry_known:
  assumes "oldest \<notin> set pre"
  shows "checkOldestEntry (pre @ oldest # new) oldest = (new, last (oldest # new), False)"
proof -
  have "nat (int (length pre) + 1) = Suc (length pre)" by simp
  then show ?thesis
    using slices_Index_first [OF assms, of new] last_conv_nth [of "pre @ oldest # new"]
    by (cases new) (auto simp: checkOldestEntry_def Let_def nth_append)
qed

lemma checkOldestEntry_empty [simp]: "checkOldestEntry [] oldest = ([], oldest, False)"
  by (simp add: checkOldestEntry_def)

text \<open>A standard output that takes everything.\<close>

definition stdout_ok :: "'c ctl_api \<Rightarrow> bool" where
  "stdout_ok api \<longleftrightarrow> (\<forall>l w. WriteStdout api l w = (None, w))"

definition lines_of :: "string list \<Rightarrow> string list" where
  "lines_of es = map (\<lambda>e. e @ newline) es"

definition put_lines :: "string list \<Rightarrow> 'c ctl \<Rightarrow> 'c ctl" where
  "put_lines es s = s\<lparr>stdout := stdout s @ lines_of es\<rparr>"

lemma put_lines_simps [simp]:
  "put_lines [] s = s" "put_lines es (put_lines es' s) = put_lines (es' @ es) s"
  by (simp_all add: put_lines_def lines_of_def)

lemma print_ok: "stdout_ok api \<Longrightarrow> printLogEntries api es s = (None, put_lines es s)"
  by (induction es arbitrary: s) (simp_all add: stdout_ok_def on_remote_def put_lines_def lines_of_def)

lemma watch_page:
  assumes "stdout_ok api" "fetchLogs api client page logsPerPage pluginID now s = (Inr es, s1)"
    and "checkOldestEntry es oldest = (new, oldest', allNew)"
  shows "watch_pages api client pluginID now page oldest s =
    (if allNew then watch_pages api client pluginID now (page + 1) oldest' (put_lines new s1)
     else Some (Inr oldest', put_lines new s1))"
  by (subst watch_pages.simps) (simp add: assms print_ok)

text \<open>
  A tick that finds the entry it saw last on the first page prints what follows it, and
  remembers the last entry.
\<close>

lemma watch_tick_new:
  assumes "stdout_ok api" "oldest \<notin> set pre"
    and "fetchLogs api client 0 logsPerPage pluginID now s = (Inr (pre @ oldest # new), s1)"
  shows "watch_pages api client pluginID now 0 oldest s = Some (Inr (last (oldest # new)), put_lines new s1)"
  using watch_page [OF assms(1,3) checkOldestEntry_known [OF assms(2)]] by simp

text \<open>
  Two full pages of new entries: the last entry of the older page is remembered, so that the
  next tick takes both pages for new again.
\<close>

lemma watch_tick_two_pages:
  fixes es0 es1 :: "string list"
  assumes "stdout_ok api"
    and f: "\<And>p s. fetchLogs api client p logsPerPage pluginID now s = (Inr (pages p), s)"
    and p: "pages 0 = es0" "pages 1 = es1" "pages 2 = []" "es0 \<noteq> []" "es1 \<noteq> []"
    and "oldest \<notin> set es0" "last es0 \<notin> set es1"
  shows "watch_pages api client pluginID now 0 oldest s = Some (Inr (last es1), put_lines (es0 @ es1) s)"
proof -
  note w = watch_page [OF assms(1) f]
  have "watch_pages api client pluginID now 0 oldest s
      = watch_pages api client pluginID now 1 (last es0) (put_lines es0 s)"
    using w [of 0 oldest] checkOldestEntry_new [of oldest es0] assms by simp
  also have "\<dots> = watch_pages api client pluginID now 2 (last es1) (put_lines (es0 @ es1) s)"
    using w [of 1 "last es0"] checkOldestEntry_new [of "last es0" es1] assms by simp
  also have "\<dots> = Some (Inr (last es1), put_lines (es0 @ es1) s)"
    by (subst watch_pages.simps) (simp add: f p(3) print_ok assms(1))
  finally show ?thesis .
qed

lemma watch_reprints:
  fixes es0 es1 :: "string list"
  assumes "stdout_ok api"
    and f: "\<And>p s. fetchLogs api client p logsPerPage pluginID now s = (Inr (pages p), s)"
    and p: "pages 0 = es0" "pages 1 = es1" "pages 2 = []" "es0 \<noteq> []" "es1 \<noteq> []"
    and l: "last es0 \<notin> set es1" "last es1 \<notin> set es0"
  shows "oldest \<notin> set es0 \<Longrightarrow>
    watch_loop api client pluginID now (replicate n TickerTick) oldest s
      = Some (Watching (if n = 0 then oldest else last es1), put_lines (concat (replicate n (es0 @ es1))) s)"
proof (induction n arbitrary: oldest s)
  case (Suc n)
  show ?case
    using Suc.IH [OF l(2), of "put_lines (es0 @ es1) s"]
      watch_tick_two_pages [OF assms(1) f p Suc.prems l(1), of s] by simp
qed simp

text \<open>A tick ends when the server runs out of entries to show, at whatever page.\<close>

lemma watch_pages_end:
  assumes "\<And>p s r s'. N \<le> sint p \<Longrightarrow> fetchLogs api client p logsPerPage pluginID now s = (r, s') \<Longrightarrow>
      r = Inr [] \<or> (\<exists>e. r = Inl e)"
    and "N < 9223372036854775808"
  shows "sint page \<le> N \<Longrightarrow> \<exists>r. watch_pages api client pluginID now page oldest s = Some r"
proof (induction "nat (N - sint page)" arbitrary: page oldest s)
  case 0
  then have "N \<le> sint page" by simp
  obtain r s1 where f: "fetchLogs api client page logsPerPage pluginID now s = (r, s1)"
    by (cases "fetchLogs api client page logsPerPage pluginID now s")
  from assms(1) [OF \<open>N \<le> sint page\<close> f] show ?case
    by (subst watch_pages.simps) (auto simp: f)
next
  case (Suc m)
  have lt: "sint page < N" using Suc.hyps(2) by simp
  then have "sint (page + 1) = sint page + 1"
    using sint64_add [of page 1] assms(2) sint64_ge [of page] by simp
  then have IH: "\<exists>r. watch_pages api client pluginID now (page + 1) o' s' = Some r" for o' s'
    using Suc.hyps lt by (intro Suc.hyps(1)) simp_all
  obtain r s1 where f: "fetchLogs api client page logsPerPage pluginID now s = (r, s1)"
    by (cases "fetchLogs api client page logsPerPage pluginID now s")
  show ?case
  proof (cases r)
    case (Inl e)
    then show ?thesis by (subst watch_pages.simps) (simp add: f)
  next
    case (Inr es)
    obtain new o' allNew where c: "checkOldestEntry es oldest = (new, o', allNew)" by (rule prod_cases3)
    obtain er s2 where pr: "printLogEntries api new s1 = (er, s2)" by (cases "printLogEntries api new s1")
    show ?thesis using IH [of o' s2]
      by (subst watch_pages.simps) (cases er; simp add: f Inr c pr)
  qed
qed

end
