(* ===== verification/Pluginctl.thy ===== *)
theory Pluginctl
  imports Ctl_Logs
begin

section \<open>The deployment tool (\<open>build/pluginctl/main.go\<close>)\<close>

text \<open>
  The choice of a connection, the commands and their dispatch. \<open>os.Args\<close> is a list of strings.
  The time of \<open>commandTimeout\<close> is not modelled: a call whose deadline passes is one that fails.
\<close>

definition log_Print :: "string \<Rightarrow> 'c ctl \<Rightarrow> 'c ctl" where
  "log_Print msg s = s\<lparr>log_out := log_out s @ [msg]\<rparr>"

lemma log_Print_frame [simp]: "remote (log_Print m s) = remote s" "stdout (log_Print m s) = stdout s"
  by (simp_all add: log_Print_def)

abbreviation os_Getenv :: "'c ctl_api \<Rightarrow> 'c ctl \<Rightarrow> string \<Rightarrow> string" where
  "os_Getenv api s k \<equiv> Getenv api k (remote s)"

subsection \<open>Connecting\<close>

definition getUnixClient :: "'c ctl_api \<Rightarrow> string \<Rightarrow> 'c ctl \<Rightarrow> client option \<times> 'c ctl" where
  "getUnixClient api socketPath s =
     (case on_remote (DialUnix api socketPath) s of
        (Some err, s1) \<Rightarrow> (None, s1)
      | (None, s1) \<Rightarrow> (Some (SocketClient socketPath), s1))"

definition getClient :: "'c ctl_api \<Rightarrow> 'c ctl \<Rightarrow> (ctl_error + client) \<times> 'c ctl" where
  "getClient api s =
     (let envPath = os_Getenv api s ''MM_LOCALSOCKETPATH'';
          socketPath = (if envPath = '''' then LocalModeSocketPath api else envPath) in
      case getUnixClient api socketPath s of
        (Some client, s1) \<Rightarrow>
          (Inr client, log_Print (''Connecting using local mode over '' @ socketPath) s1)
      | (None, s1) \<Rightarrow>
          let s2 = (if os_Getenv api s1 ''MM_LOCALSOCKETPATH'' \<noteq> ''''
                then log_Print (''No socket found at '' @ socketPath
                  @ '' for local mode deployment. Attempting to authenticate with credentials.'') s1
                else s1);
              siteURL = os_Getenv api s2 ''MM_SERVICESETTINGS_SITEURL'';
              adminToken = os_Getenv api s2 ''MM_ADMIN_TOKEN'';
              adminUsername = os_Getenv api s2 ''MM_ADMIN_USERNAME'';
              adminPassword = os_Getenv api s2 ''MM_ADMIN_PASSWORD'' in
          if siteURL = '''' then (Inl ErrNoSiteURL, s2)
          else if adminToken \<noteq> '''' then
            (Inr (SiteClient siteURL adminToken),
             log_Print (''Authenticating using token against '' @ siteURL @ ''.'') s2)
          else if adminUsername \<noteq> '''' \<and> adminPassword \<noteq> '''' then
            (case on_remote (Login api (SiteClient siteURL '''') adminUsername adminPassword)
                (log_Print (''Authenticating as '' @ adminUsername @ '' against '' @ siteURL @ ''.'') s2) of
               (Inl err, s3) \<Rightarrow> (Inl (ErrLogin adminUsername err), s3)
             | (Inr token, s3) \<Rightarrow> (Inr (SiteClient siteURL token), s3))
          else (Inl ErrNoCredentials, s2))"

subsection \<open>The commands\<close>

definition deploy :: "'c ctl_api \<Rightarrow> client \<Rightarrow> string \<Rightarrow> string \<Rightarrow> 'c ctl \<Rightarrow> ctl_error option \<times> 'c ctl" where
  "deploy api client pluginID bundlePath s =
     (case on_remote (OpenFile api bundlePath) s of
        (Inl err, s1) \<Rightarrow> (Some (ErrOpenBundle bundlePath err), s1)
      | (Inr pluginBundle, s1) \<Rightarrow>
          (case on_remote (UploadPluginForced api client pluginBundle)
              (log_Print ''Uploading plugin via API.'' s1) of
             (Some err, s2) \<Rightarrow> (Some (ErrUpload err), s2)
           | (None, s2) \<Rightarrow>
               (case on_remote (EnablePlugin api client pluginID) (log_Print ''Enabling plugin.'' s2) of
                  (Some err, s3) \<Rightarrow> (Some (ErrEnable err), s3)
                | (None, s3) \<Rightarrow> (None, s3))))"

definition disablePlugin :: "'c ctl_api \<Rightarrow> client \<Rightarrow> string \<Rightarrow> 'c ctl \<Rightarrow> ctl_error option \<times> 'c ctl" where
  "disablePlugin api client pluginID s =
     (case on_remote (DisablePlugin api client pluginID) (log_Print ''Disabling plugin.'' s) of
        (Some err, s1) \<Rightarrow> (Some (ErrDisable err), s1)
      | (None, s1) \<Rightarrow> (None, s1))"

definition enablePlugin :: "'c ctl_api \<Rightarrow> client \<Rightarrow> string \<Rightarrow> 'c ctl \<Rightarrow> ctl_error option \<times> 'c ctl" where
  "enablePlugin api client pluginID s =
     (case on_remote (EnablePlugin api client pluginID) (log_Print ''Enabling plugin.'' s) of
        (Some err, s1) \<Rightarrow> (Some (ErrEnable err), s1)
      | (None, s1) \<Rightarrow> (None, s1))"

definition resetPlugin :: "'c ctl_api \<Rightarrow> client \<Rightarrow> string \<Rightarrow> 'c ctl \<Rightarrow> ctl_error option \<times> 'c ctl" where
  "resetPlugin api client pluginID s =
     (case disablePlugin api client pluginID s of
        (Some err, s1) \<Rightarrow> (Some err, s1)
      | (None, s1) \<Rightarrow>
          (case enablePlugin api client pluginID s1 of
             (Some err, s2) \<Rightarrow> (Some err, s2)
           | (None, s2) \<Rightarrow> (None, s2)))"

subsection \<open>Dispatch\<close>

definition returned :: "ctl_error option \<times> 'c ctl \<Rightarrow> (watch_result \<times> 'c ctl) option" where
  "returned r = Some (Returned (fst r), snd r)"

text \<open>
  \<open>now\<close> and \<open>evs\<close> are the clock and the events of \<open>logs-watch\<close>, whose context is never
  cancelled. \<open>None\<close> is a tick of it that goes on for ever.
\<close>

definition pluginctl ::
  "'c ctl_api \<Rightarrow> string list \<Rightarrow> instant \<Rightarrow> watch_event list \<Rightarrow> 'c ctl \<Rightarrow> (watch_result \<times> 'c ctl) option" where
  "pluginctl api args now evs s =
     (if length args < 3 then returned (Some ErrArguments, s)
      else
        case getClient api s of
          (Inl err, s1) \<Rightarrow> returned (Some err, s1)
        | (Inr client, s1) \<Rightarrow>
            let cmd = args ! 1 in
            if cmd = ''deploy'' then
              if length args < 4 then returned (Some ErrArguments, s1)
              else returned (deploy api client (args ! 2) (args ! 3) s1)
            else if cmd = ''disable'' then returned (disablePlugin api client (args ! 2) s1)
            else if cmd = ''enable'' then returned (enablePlugin api client (args ! 2) s1)
            else if cmd = ''reset'' then returned (resetPlugin api client (args ! 2) s1)
            else if cmd = ''logs'' then returned (ctl_logs api client (args ! 2) s1)
            else if cmd = ''logs-watch'' then
              watchLogs api client (args ! 2) now (filter (\<lambda>e. e = TickerTick) evs) s1
            else returned (Some ErrSecondArgument, s1))"

definition helpText :: string where
  "helpText = Join ['''', ''Usage:'',
     ''    pluginctl deploy <plugin id> <bundle path>'',
     ''    pluginctl disable <plugin id>'',
     ''    pluginctl enable <plugin id>'',
     ''    pluginctl reset <plugin id>'',
     ''    pluginctl logs <plugin id>'',
     ''    pluginctl logs-watch <plugin id>'', ''''] newline"

text \<open>
  The text of an error. \<open>jsonError\<close> and \<open>timeError\<close> are the texts of the errors of \<open>json.Unmarshal\<close>
  and \<open>time.Parse\<close> for what they could not read.
\<close>

fun ctl_Error :: "(string \<Rightarrow> string) \<Rightarrow> (string \<Rightarrow> string) \<Rightarrow> ctl_error \<Rightarrow> string" where
  "ctl_Error jsonError timeError ErrArguments = ''invalid number of arguments''"
| "ctl_Error jsonError timeError ErrSecondArgument = ''invalid second argument''"
| "ctl_Error jsonError timeError ErrNoSiteURL = ''MM_SERVICESETTINGS_SITEURL is not set''"
| "ctl_Error jsonError timeError ErrNoCredentials =
     ''one of MM_ADMIN_TOKEN or MM_ADMIN_USERNAME/MM_ADMIN_PASSWORD must be defined''"
| "ctl_Error jsonError timeError (ErrLogin adminUsername err) = ''failed to login as '' @ adminUsername @ '': '' @ err"
| "ctl_Error jsonError timeError (ErrOpenBundle bundlePath err) = ''failed to open '' @ bundlePath @ '': '' @ err"
| "ctl_Error jsonError timeError (ErrUpload err) = ''failed to upload plugin bundle: '' @ err"
| "ctl_Error jsonError timeError (ErrEnable err) = ''failed to enable plugin: '' @ err"
| "ctl_Error jsonError timeError (ErrDisable err) = ''failed to disable plugin: '' @ err"
| "ctl_Error jsonError timeError (ErrFetchConfig err) = ''failed to fetch config: '' @ err"
| "ctl_Error jsonError timeError ErrFileJsonOff = ''JSON output for file logs are disabled. ''
     @ ''Please enable LogSettings.FileJson via the configuration in Mattermost.''"
| "ctl_Error jsonError timeError (ErrFetchEntries err) =
     ''failed to fetch log entries: '' @ ctl_Error jsonError timeError err"
| "ctl_Error jsonError timeError (ErrPrintEntries err) =
     ''failed to print logs entries: '' @ ctl_Error jsonError timeError err"
| "ctl_Error jsonError timeError (ErrGetLogs err) = ''failed to get logs from Mattermost: '' @ err"
| "ctl_Error jsonError timeError (ErrFilterEntries err) =
     ''failed to filter log entries: '' @ ctl_Error jsonError timeError err"
| "ctl_Error jsonError timeError (ErrLogEntryJSON entry) =
     ''failed to unmarshal log entry into JSON: '' @ jsonError entry"
| "ctl_Error jsonError timeError (ErrTimestamp timestamp) =
     ''unknown timestamp format: '' @ timeError timestamp"
| "ctl_Error jsonError timeError (ErrStdout err) = ''failed to write log entry to stdout: '' @ err"

text \<open>\<open>main\<close>: the exit status, if the tool exits.\<close>

definition pluginctl_main ::
  "(string \<Rightarrow> string) \<Rightarrow> (string \<Rightarrow> string) \<Rightarrow> 'c ctl_api \<Rightarrow> string list \<Rightarrow> instant \<Rightarrow> watch_event list
    \<Rightarrow> 'c ctl \<Rightarrow> (int option \<times> 'c ctl) option" where
  "pluginctl_main jsonError timeError api args now evs s =
     (case pluginctl api args now evs s of
        None \<Rightarrow> None
      | Some (Watching oldest, s1) \<Rightarrow> Some (None, s1)
      | Some (Returned None, s1) \<Rightarrow> Some (Some 0, s1)
      | Some (Returned (Some err), s1) \<Rightarrow>
          Some (Some 1, s1\<lparr>stdout := stdout s1 @ [''Failed: '' @ ctl_Error jsonError timeError err @ newline, helpText]\<rparr>))"

subsection \<open>Facts\<close>

lemma on_remote_remote: "on_remote f s = (r, s') \<Longrightarrow> f (remote s) = (r, remote s')"
  by (auto simp: on_remote_def Let_def split: prod.splits)

lemma returned_iff: "returned r = Some (Returned er, s') \<longleftrightarrow> r = (er, s')"
  by (cases r) (auto simp: returned_def)

text \<open>\<open>logs-watch\<close> returns with an error only: its context is never done.\<close>

lemma watch_loop_ticks:
  "watch_loop api client pid now (filter (\<lambda>e. e = TickerTick) evs) oldest s \<noteq> Some (Returned None, s')"
  by (induction evs arbitrary: oldest s) (auto split: option.splits sum.splits prod.splits)

lemma watch_never_done:
  "watchLogs api client pid now (filter (\<lambda>e. e = TickerTick) evs) s \<noteq> Some (Returned None, s')"
  using watch_loop_ticks [of api client pid now evs "''''"] by (auto simp: watchLogs_def split: prod.splits option.splits)

text \<open>What a command leaves in the state when it returns no error.\<close>

lemma on_remote_stdout: "on_remote f s = (r, s') \<Longrightarrow> stdout s' = stdout s"
  by (auto simp: on_remote_def Let_def split: prod.splits)

lemma getClient_stdout: "getClient api s = (r, s') \<Longrightarrow> stdout s' = stdout s"
  by (auto simp: getClient_def getUnixClient_def Let_def split: prod.splits option.splits sum.splits if_splits
      dest!: on_remote_stdout)

lemma enablePlugin_done:
  "enablePlugin api client pid s = (None, s') \<Longrightarrow>
    EnablePlugin api client pid (remote s) = (None, remote s') \<and> stdout s' = stdout s"
  by (auto simp: enablePlugin_def split: prod.splits option.splits dest: on_remote_remote on_remote_stdout)

lemma disablePlugin_done:
  "disablePlugin api client pid s = (None, s') \<Longrightarrow>
    DisablePlugin api client pid (remote s) = (None, remote s') \<and> stdout s' = stdout s"
  by (auto simp: disablePlugin_def split: prod.splits option.splits dest: on_remote_remote on_remote_stdout)

lemma deploy_done:
  assumes "deploy api client pid path s = (None, s')"
  shows "(\<exists>b w1 w2. OpenFile api path (remote s) = (Inr b, w1) \<and> UploadPluginForced api client b w1 = (None, w2)
    \<and> EnablePlugin api client pid w2 = (None, remote s')) \<and> stdout s' = stdout s"
proof -
  obtain b s1 s2 where c: "on_remote (OpenFile api path) s = (Inr b, s1)"
      "on_remote (UploadPluginForced api client b) (log_Print ''Uploading plugin via API.'' s1) = (None, s2)"
      "on_remote (EnablePlugin api client pid) (log_Print ''Enabling plugin.'' s2) = (None, s')"
    using assms by (auto simp: deploy_def split: prod.splits option.splits sum.splits)
  show ?thesis using c [THEN on_remote_remote] c [THEN on_remote_stdout] by auto
qed

lemma resetPlugin_done:
  assumes "resetPlugin api client pid s = (None, s')"
  shows "(\<exists>w. DisablePlugin api client pid (remote s) = (None, w) \<and> EnablePlugin api client pid w = (None, remote s'))
    \<and> stdout s' = stdout s"
  using assms
  by (auto simp: resetPlugin_def split: prod.splits option.splits dest!: enablePlugin_done disablePlugin_done)

text \<open>Every line has been written to the standard output, one after the other.\<close>

fun all_written :: "'c ctl_api \<Rightarrow> string list \<Rightarrow> 'c \<Rightarrow> 'c \<Rightarrow> bool" where
  "all_written api [] w w' = (w' = w)"
| "all_written api (e # es) w w' =
     (case WriteStdout api (e @ newline) w of (None, w1) \<Rightarrow> all_written api es w1 w' | (Some err, w1) \<Rightarrow> False)"

lemma printLogEntries_done:
  "printLogEntries api es s = (None, s') \<Longrightarrow>
    all_written api es (remote s) (remote s') \<and> stdout s' = stdout s @ map (\<lambda>e. e @ newline) es"
proof (induction es arbitrary: s)
  case (Cons e es)
  obtain s1 where s1: "on_remote (WriteStdout api (e @ newline)) s = (None, s1)"
      "printLogEntries api es (s1\<lparr>stdout := stdout s1 @ [e @ newline]\<rparr>) = (None, s')"
    using Cons.prems by (auto split: prod.splits option.splits)
  from Cons.IH [OF s1(2)] on_remote_remote [OF s1(1)] on_remote_stdout [OF s1(1)] show ?case by simp
qed simp

lemma ctl_logs_done:
  assumes "ctl_logs api client pid s = (None, s')"
  shows "\<exists>w1 es w2 out. GetFileJson api client (remote s) = (Inr (Some True), w1)
    \<and> GetLogs api client 0 500 w1 = (Inr es, w2) \<and> filterLogEntries es pid 0 = Inr out
    \<and> all_written api out w2 (remote s') \<and> stdout s' = stdout s @ map (\<lambda>e. e @ newline) out"
proof -
  obtain s1 out s2 where c: "checkJSONLogsSetting api client s = (None, s1)"
      "fetchLogs api client 0 500 pid 0 s1 = (Inr out, s2)" "printLogEntries api out s2 = (None, s')"
    using assms by (auto simp: ctl_logs_def split: prod.splits option.splits sum.splits)
  have 1: "on_remote (GetFileJson api client) s = (Inr (Some True), s1)"
    using c(1) by (auto simp: checkJSONLogsSetting_def split: prod.splits sum.splits if_splits)
  obtain es where 2: "on_remote (GetLogs api client 0 500) s1 = (Inr es, s2)" "filterLogEntries es pid 0 = Inr out"
    using c(2) by (auto simp: fetchLogs_def split: prod.splits sum.splits)
  show ?thesis
    using on_remote_remote [OF 1] on_remote_remote [OF 2(1)] on_remote_stdout [OF 1] on_remote_stdout [OF 2(1)]
      2(2) printLogEntries_done [OF c(3)] by auto
qed

lemma pluginctl_done:
  assumes "pluginctl api args now evs s = Some (Returned None, s')"
  shows "\<exists>exe cmd pluginID more client s1. args = exe # cmd # pluginID # more \<and> getClient api s = (Inr client, s1)
      \<and> (cmd = ''deploy'' \<and> (\<exists>path rest b w1 w2. more = path # rest \<and> OpenFile api path (remote s1) = (Inr b, w1)
             \<and> UploadPluginForced api client b w1 = (None, w2) \<and> EnablePlugin api client pluginID w2 = (None, remote s'))
         \<or> cmd = ''disable'' \<and> DisablePlugin api client pluginID (remote s1) = (None, remote s')
         \<or> cmd = ''enable'' \<and> EnablePlugin api client pluginID (remote s1) = (None, remote s')
         \<or> cmd = ''reset'' \<and> (\<exists>w. DisablePlugin api client pluginID (remote s1) = (None, w)
             \<and> EnablePlugin api client pluginID w = (None, remote s'))
         \<or> cmd = ''logs'' \<and> (\<exists>w1 es w2 out. GetFileJson api client (remote s1) = (Inr (Some True), w1)
             \<and> GetLogs api client 0 500 w1 = (Inr es, w2) \<and> filterLogEntries es pluginID 0 = Inr out
             \<and> all_written api out w2 (remote s') \<and> stdout s' = stdout s @ map (\<lambda>e. e @ newline) out))
      \<and> (cmd = ''logs'' \<or> stdout s' = stdout s)"
proof -
  have "3 \<le> length args" using assms by (auto simp: pluginctl_def returned_def split: if_splits)
  then obtain exe cmd pluginID more where a: "args = exe # cmd # pluginID # more"
    by (auto simp: Suc_le_length_iff numeral_eq_Suc)
  obtain client s1 where c: "getClient api s = (Inr client, s1)"
    using assms a by (auto simp: pluginctl_def returned_def split: sum.splits prod.splits)
  note out = getClient_stdout [OF c]
  consider (deploy) path rest where "cmd = ''deploy''" "more = path # rest" "deploy api client pluginID path s1 = (None, s')"
    | (disable) "cmd = ''disable''" "disablePlugin api client pluginID s1 = (None, s')"
    | (enable) "cmd = ''enable''" "enablePlugin api client pluginID s1 = (None, s')"
    | (reset) "cmd = ''reset''" "resetPlugin api client pluginID s1 = (None, s')"
    | (logs) "cmd = ''logs''" "ctl_logs api client pluginID s1 = (None, s')"
    using assms c watch_never_done [of api client pluginID now evs s1 s']
    by (cases more) (auto simp: pluginctl_def a returned_iff Let_def split: if_splits)
  note r = this
  show ?thesis
    by (rule exI [of _ exe], rule exI [of _ cmd], rule exI [of _ pluginID], rule exI [of _ more],
        rule exI [of _ client], rule exI [of _ s1], intro conjI a c; use r in cases)
      (use out deploy_done [of api client pluginID _ s1 s'] disablePlugin_done [of api client pluginID s1 s']
          enablePlugin_done [of api client pluginID s1 s'] resetPlugin_done [of api client pluginID s1 s']
          ctl_logs_done [of api client pluginID s1 s'] in \<open>simp; fail | simp, metis\<close>)+
qed

end
