(* ===== verification/Manifest_Tool.thy ===== *)
theory Manifest_Tool
  imports Go_Json
begin

section \<open>The manifest tool of the build (\<open>build/manifest/main.go\<close>)\<close>

text \<open>
  Completes the manifest of the plugin with a version and a link to the release notes, prints
  parts of it and writes it into generated source files. The type \<open>model.Manifest\<close> is
  third-party code: the fields the tool works with are a record, the rest of any type, and what
  the tool asks of the type (decoding it strictly, encoding it with an indentation, its
  methods) are arbitrary functions in the record \<open>manifest_api\<close>, as are the calls of the
  operating system and \<open>url.JoinPath\<close>. The state is the file system with the trace of the
  standard output. A \<open>panic\<close> is a result of its own.
\<close>

record 'm manifest =
  m_Id :: string
  Version :: string
  ReleaseNotesURL :: string
  HomepageURL :: string
  m_rest :: 'm

record 'd mtool =
  disk :: 'd
  printed :: "string list"

type_synonym os_error = string

record ('m, 'd) manifest_api =
  FindManifest :: "'d \<Rightarrow> (os_error + string) \<times> 'd"
  OpenManifest :: "string \<Rightarrow> 'd \<Rightarrow> (os_error + bytes) \<times> 'd"
  DecodeStrict :: "bytes \<Rightarrow> os_error + 'm manifest"
  WriteFile :: "string \<Rightarrow> bytes \<Rightarrow> 'd \<Rightarrow> os_error option \<times> 'd"
  MarshalIndent :: "'m manifest \<Rightarrow> string \<Rightarrow> os_error + bytes"
  HasServer :: "'m manifest \<Rightarrow> bool"
  HasWebapp :: "'m manifest \<Rightarrow> bool"
  IsValid :: "'m manifest \<Rightarrow> os_error option"
  url_JoinPath :: "string \<Rightarrow> string list \<Rightarrow> os_error + string"

text \<open>The variables that the build sets.\<close>

record build_vars =
  BuildHashShort :: string
  BuildTagLatest :: string
  BuildTagCurrent :: string

definition on_disk :: "('d \<Rightarrow> 'r \<times> 'd) \<Rightarrow> 'd mtool \<Rightarrow> 'r \<times> 'd mtool" where
  "on_disk f s = (let (r, d) = f (disk s) in (r, s\<lparr>disk := d\<rparr>))"

definition Printf :: "string \<Rightarrow> 'd mtool \<Rightarrow> 'd mtool" where
  "Printf t s = s\<lparr>printed := printed s @ [t]\<rparr>"

subsection \<open>Finding and completing the manifest\<close>

text \<open>The loop over the tags of the current commit; the empty string if there is none.\<close>

fun version_tag :: "string list \<Rightarrow> string" where
  "version_tag [] = ''''"
| "version_tag (t # ts) = (if HasPrefix t ''v'' then t else version_tag ts)"

definition build_version :: "build_vars \<Rightarrow> string" where
  "build_version v =
     (let version = version_tag (Fields (BuildTagCurrent v));
          version = (if version = '''' then
              if BuildTagLatest v \<noteq> '''' then BuildTagLatest v @ ''+'' @ BuildHashShort v
              else ''v0.0.0+'' @ BuildHashShort v
            else version) in
      TrimPrefix version ''v'')"

definition findManifest ::
  "('m, 'd) manifest_api \<Rightarrow> build_vars \<Rightarrow> 'd mtool \<Rightarrow> (os_error + 'm manifest) \<times> 'd mtool" where
  "findManifest api v s =
     (case on_disk (FindManifest api) s of
        (Inl err, s1) \<Rightarrow> (Inl (''failed to find manifest in current working directory: '' @ err), s1)
      | (Inr path, s1) \<Rightarrow>
          (case on_disk (OpenManifest api path) s1 of
             (Inl err, s2) \<Rightarrow> (Inl (''failed to open '' @ path @ '': '' @ err), s2)
           | (Inr file, s2) \<Rightarrow>
               (case DecodeStrict api file of
                  Inl err \<Rightarrow> (Inl (''failed to parse manifest: '' @ err), s2)
                | Inr m \<Rightarrow>
                    let m1 = (if Version m = '''' then m\<lparr>Version := build_version v\<rparr> else m) in
                    if ReleaseNotesURL m1 = '''' \<and> BuildTagLatest v \<noteq> '''' then
                      (case url_JoinPath api (HomepageURL m1) [''releases'', ''tag'', BuildTagLatest v] of
                         Inl err \<Rightarrow> (Inl (''failed to build release notes URL: '' @ err), s2)
                       | Inr url \<Rightarrow> (Inr (m1\<lparr>ReleaseNotesURL := url\<rparr>), s2))
                    else (Inr m1, s2))))"

definition dumpPluginID :: "'m manifest \<Rightarrow> 'd mtool \<Rightarrow> 'd mtool" where
  "dumpPluginID m s = Printf (m_Id m) s"

definition dumpPluginVersion :: "'m manifest \<Rightarrow> 'd mtool \<Rightarrow> 'd mtool" where
  "dumpPluginVersion m s = Printf (Version m) s"

subsection \<open>Generated files\<close>

definition nl :: string where
  "nl = [CHR 0x0A]"

definition backtick :: char where
  "backtick = CHR 0x60"

definition tab :: string where
  "tab = [CHR 0x09]"

definition quoted :: "string \<Rightarrow> string" where
  "quoted s = [CHR 0x22] @ s @ [CHR 0x22]"

text \<open>The parts of the templates before and after \<open>%s\<close>.\<close>

definition go_template_head :: string where
  "go_template_head = Join [
     ''// This file is automatically generated. Do not modify it manually.'', '''',
     ''package main'', '''',
     ''import ('',
     tab @ quoted ''encoding/json'',
     tab @ quoted ''strings'', '''',
     tab @ quoted ''github.com/mattermost/mattermost/server/public/model'',
     '')'', '''',
     ''var manifest *model.Manifest'', '''',
     ''const manifestStr = '' @ [backtick], ''''] nl"

definition go_template_tail :: string where
  "go_template_tail = Join ['''', [backtick], '''',
     ''func init() {'',
     tab @ ''_ = json.NewDecoder(strings.NewReader(manifestStr)).Decode(&manifest)'',
     ''}'', ''''] nl"

definition js_template_head :: string where
  "js_template_head = Join [
     ''// This file is automatically generated. Do not modify it manually.'', '''',
     ''const manifest = JSON.parse('' @ [backtick], ''''] nl"

definition js_template_tail :: string where
  "js_template_tail = Join ['''', [backtick] @ '');'', '''', ''export default manifest;'', ''''] nl"

text \<open>\<open>strings.ReplaceAll\<close> of a backslash and an n by two backslashes and an n.\<close>

fun escape_newlines :: "string \<Rightarrow> string" where
  "escape_newlines (c # d # s) =
     (if c = CHR 0x5C \<and> d = CHR ''n'' then [CHR 0x5C, CHR 0x5C, CHR ''n''] @ escape_newlines s
      else c # escape_newlines (d # s))"
| "escape_newlines s = s"

definition apply_server :: "('m, 'd) manifest_api \<Rightarrow> 'm manifest \<Rightarrow> 'd mtool \<Rightarrow> os_error option \<times> 'd mtool" where
  "apply_server api m s =
     (case MarshalIndent api m ''  '' of
        Inl err \<Rightarrow> (Some err, s)
      | Inr manifestStr \<Rightarrow>
          (case on_disk (WriteFile api ''server/manifest.go''
              (go_template_head @ manifestStr @ go_template_tail)) s of
             (Some err, s1) \<Rightarrow> (Some (''failed to write server/manifest.go: '' @ err), s1)
           | (None, s1) \<Rightarrow> (None, s1)))"

definition apply_webapp :: "('m, 'd) manifest_api \<Rightarrow> 'm manifest \<Rightarrow> 'd mtool \<Rightarrow> os_error option \<times> 'd mtool" where
  "apply_webapp api m s =
     (case MarshalIndent api m ''    '' of
        Inl err \<Rightarrow> (Some err, s)
      | Inr manifestStr \<Rightarrow>
          (case on_disk (WriteFile api ''webapp/src/manifest.ts''
              (js_template_head @ escape_newlines manifestStr @ js_template_tail)) s of
             (Some err, s1) \<Rightarrow> (Some (''failed to open webapp/src/manifest.ts: '' @ err), s1)
           | (None, s1) \<Rightarrow> (None, s1)))"

definition applyManifest :: "('m, 'd) manifest_api \<Rightarrow> 'm manifest \<Rightarrow> 'd mtool \<Rightarrow> os_error option \<times> 'd mtool" where
  "applyManifest api m s =
     (case (if HasServer api m then apply_server api m s else (None, s)) of
        (Some err, s1) \<Rightarrow> (Some err, s1)
      | (None, s1) \<Rightarrow> if HasWebapp api m then apply_webapp api m s1 else (None, s1))"

definition distManifest :: "('m, 'd) manifest_api \<Rightarrow> 'm manifest \<Rightarrow> 'd mtool \<Rightarrow> os_error option \<times> 'd mtool" where
  "distManifest api m s =
     (case MarshalIndent api m ''    '' of
        Inl err \<Rightarrow> (Some err, s)
      | Inr manifestBytes \<Rightarrow>
          (case on_disk (WriteFile api (''dist/'' @ m_Id m @ ''/plugin.json'') manifestBytes) s of
             (Some err, s1) \<Rightarrow> (Some (''failed to write plugin.json: '' @ err), s1)
           | (None, s1) \<Rightarrow> (None, s1)))"

subsection \<open>The commands\<close>

text \<open>The result is the text of the panic, if there was one.\<close>

definition manifest_main ::
  "('m, 'd) manifest_api \<Rightarrow> build_vars \<Rightarrow> string list \<Rightarrow> 'd mtool \<Rightarrow> string option \<times> 'd mtool" where
  "manifest_main api v args s =
     (if length args \<le> 1 then (Some ''no cmd specified'', s)
      else
        case findManifest api v s of
          (Inl err, s1) \<Rightarrow> (Some (''failed to find manifest: '' @ err), s1)
        | (Inr m, s1) \<Rightarrow>
            let cmd = args ! 1 in
            if cmd = ''id'' then (None, dumpPluginID m s1)
            else if cmd = ''version'' then (None, dumpPluginVersion m s1)
            else if cmd = ''has_server'' then (None, if HasServer api m then Printf ''true'' s1 else s1)
            else if cmd = ''has_webapp'' then (None, if HasWebapp api m then Printf ''true'' s1 else s1)
            else if cmd = ''apply'' then
              (case applyManifest api m s1 of
                 (Some err, s2) \<Rightarrow> (Some (''failed to apply manifest: '' @ err), s2)
               | (None, s2) \<Rightarrow> (None, s2))
            else if cmd = ''dist'' then
              (case distManifest api m s1 of
                 (Some err, s2) \<Rightarrow> (Some (''failed to write manifest to dist directory: '' @ err), s2)
               | (None, s2) \<Rightarrow> (None, s2))
            else if cmd = ''check'' then
              (case IsValid api m of
                 Some err \<Rightarrow> (Some (''failed to check manifest: '' @ err), s1)
               | None \<Rightarrow> (None, s1))
            else (Some (''unrecognized command: '' @ cmd), s1))"

subsection \<open>Facts\<close>

lemma version_tag_find:
  "version_tag ts = (case find (\<lambda>t. HasPrefix t ''v'') ts of None \<Rightarrow> '''' | Some t \<Rightarrow> t)"
  by (induction ts) auto

lemma build_version_eq:
  "build_version v = TrimPrefix (case find (\<lambda>t. HasPrefix t ''v'') (Fields (BuildTagCurrent v)) of
      Some t \<Rightarrow> t
    | None \<Rightarrow> (if BuildTagLatest v \<noteq> '''' then BuildTagLatest v else ''v0.0.0'') @ ''+'' @ BuildHashShort v) ''v''"
proof -
  have "t \<noteq> ''''" if "find (\<lambda>t. HasPrefix t ''v'') ts = Some t" for ts t
    using that by (auto simp: find_Some_iff HasPrefix_def)
  then show ?thesis
    by (auto simp: build_version_def version_tag_find Let_def split: option.splits)
qed

lemma findManifest_result:
  assumes "findManifest api v s = (Inr m, s')"
  shows "\<exists>b m0. DecodeStrict api b = Inr m0
    \<and> m = (let m1 = (if Version m0 = '''' then m0\<lparr>Version := build_version v\<rparr> else m0) in
        if ReleaseNotesURL m1 = '''' \<and> BuildTagLatest v \<noteq> ''''
        then m1\<lparr>ReleaseNotesURL := projr (url_JoinPath api (HomepageURL m1) [''releases'', ''tag'', BuildTagLatest v])\<rparr>
        else m1)"
  using assms
  by (auto simp: findManifest_def Let_def split: prod.splits sum.splits if_splits) (metis sum.sel(2))+

text \<open>
  The value of a Go raw string literal: what stands between the back quotes, without carriage
  returns. Here of the first one of a file.
\<close>

definition raw_string :: "string \<Rightarrow> string" where
  "raw_string src = filter (\<lambda>c. c \<noteq> CHR 0x0D)
     (takeWhile (\<lambda>c. c \<noteq> backtick) (drop 1 (dropWhile (\<lambda>c. c \<noteq> backtick) src)))"

lemma go_template_parts:
  "\<exists>pre. go_template_head = pre @ backtick # nl \<and> backtick \<notin> set pre"
  "\<exists>post. go_template_tail = nl @ backtick # post"
proof -
  show "\<exists>pre. go_template_head = pre @ backtick # nl \<and> backtick \<notin> set pre"
    by (rule exI [of _ "take (length go_template_head - 2) go_template_head"]) code_simp
  show "\<exists>post. go_template_tail = nl @ backtick # post"
    by (rule exI [of _ "drop 2 go_template_tail"]) code_simp
qed

lemma raw_string_generated:
  assumes "backtick \<notin> set json" "CHR 0x0D \<notin> set json"
  shows "raw_string (go_template_head @ json @ go_template_tail) = nl @ json @ nl"
proof -
  obtain pre post where t: "go_template_head = pre @ backtick # nl" "backtick \<notin> set pre"
      "go_template_tail = nl @ backtick # post"
    using go_template_parts by blast
  let ?p = "\<lambda>c. c \<noteq> backtick"
  have nl: "backtick \<notin> set nl" "CHR 0x0D \<notin> set nl" by (simp_all add: nl_def backtick_def)
  have "dropWhile ?p (go_template_head @ json @ go_template_tail)
      = backtick # nl @ json @ nl @ backtick # post"
    using t(2) by (simp add: t dropWhile_append)
  moreover have "takeWhile ?p ((nl @ json @ nl) @ backtick # post) = nl @ json @ nl"
    using assms(1) nl(1) by (subst takeWhile_append2) auto
  moreover have "filter (\<lambda>c. c \<noteq> CHR 0x0D) (nl @ json @ nl) = nl @ json @ nl"
    using assms(2) nl(2) by (subst filter_id_conv) auto
  ultimately show ?thesis by (simp add: raw_string_def)
qed

subsection \<open>The generated JavaScript file\<close>

text \<open>
  The value of a JavaScript template literal without substitutions, from the character after
  the opening back quote: escapes are replaced, a carriage return (with a line feed after it)
  is a line feed. \<open>None\<close> stands for a syntax error, a substitution, and what no encoded JSON text
  holds (line continuations, the escapes \<open>\x\<close> and of digits, \<open>\u\<close> with braces or of a surrogate).
\<close>

definition js_escape :: "char \<Rightarrow> char option" where
  "js_escape c =
     (if c = CHR ''b'' then Some (CHR 0x08)
      else if c = CHR ''f'' then Some (CHR 0x0C)
      else if c = CHR ''n'' then Some (CHR 0x0A)
      else if c = CHR ''r'' then Some (CHR 0x0D)
      else if c = CHR ''t'' then Some (CHR 0x09)
      else if c = CHR ''v'' then Some (CHR 0x0B)
      else if c \<in> {CHR ''x'', CHR 0x0A, CHR 0x0D} \<or> is_digit c \<or> 128 \<le> code c then None
      else Some c)"

function js_cook :: "string \<Rightarrow> string option" where
  "js_cook s =
     (case s of
        [] \<Rightarrow> None
      | c # cs \<Rightarrow>
          if c = backtick then Some []
          else if c = CHR 0x5C then
            (case cs of
               [] \<Rightarrow> None
             | e # es \<Rightarrow>
                 if e = CHR ''u'' then
                   (case hex4 es of
                      None \<Rightarrow> None
                    | Some (r, t) \<Rightarrow>
                        if hi_surrogate r \<or> lo_surrogate r then None
                        else map_option ((@) (utf8_encode r)) (js_cook t))
                 else
                   (case js_escape e of
                      None \<Rightarrow> None
                    | Some d \<Rightarrow> map_option ((#) d) (js_cook es)))
          else if c = CHR ''$'' \<and> HasPrefix cs ''{'' then None
          else if c = CHR 0x0D then
            map_option ((#) (CHR 0x0A)) (js_cook (if HasPrefix cs nl then tl cs else cs))
          else map_option ((#) c) (js_cook cs))"
  by pat_completeness auto
termination
  by (relation "measure length") (auto dest!: hex4_shorter)

declare js_cook.simps [simp del]

text \<open>The value of the first template literal of a file.\<close>

definition template_string :: "string \<Rightarrow> string option" where
  "template_string src = js_cook (drop 1 (dropWhile (\<lambda>c. c \<noteq> backtick) src))"

text \<open>A text that the literal and the escaping of newlines leave as it is.\<close>

fun js_plain :: "string \<Rightarrow> bool" where
  "js_plain [] = True"
| "js_plain (c # s) =
     (if c = CHR 0x5C then s \<noteq> [] \<and> hd s = CHR ''n'' \<and> js_plain (tl s)
      else c \<noteq> backtick \<and> c \<noteq> CHR 0x0D \<and> \<not> (c = CHR ''$'' \<and> HasPrefix s ''{'') \<and> js_plain s)"

lemma escape_newlines_other: "c \<noteq> CHR 0x5C \<Longrightarrow> escape_newlines (c # s) = c # escape_newlines s"
  by (cases s) simp_all

lemma escape_newlines_brace: "HasPrefix (escape_newlines s @ nl) ''{'' = HasPrefix s ''{''"
  by (cases s rule: escape_newlines.cases) (auto simp: HasPrefix_def nl_def)

lemma js_cook_plain:
  "js_plain s \<Longrightarrow> js_cook (escape_newlines s @ nl @ backtick # r) = Some (s @ nl)"
proof (induction s rule: length_induct)
  case (1 s)
  show ?case
  proof (cases s)
    case Nil
    have "js_cook (nl @ backtick # r) = Some nl"
      by (subst js_cook.simps) (simp add: nl_def backtick_def js_cook.simps [of "_ # r"])
    then show ?thesis using Nil by simp
  next
    case (Cons c t)
    show ?thesis
    proof (cases "c = CHR 0x5C")
      case True
      then obtain u where u: "t = CHR ''n'' # u" "js_plain u" using "1.prems" Cons by (cases t) auto
      then have IH: "js_cook (escape_newlines u @ nl @ backtick # r) = Some (u @ nl)"
        using "1.IH" Cons by simp
      have n: "js_cook (CHR ''n'' # x) = map_option ((#) (CHR ''n'')) (js_cook x)" for x
        by (subst js_cook.simps) (simp add: backtick_def)
      have "js_cook (CHR 0x5C # CHR 0x5C # CHR ''n'' # x) = map_option (\<lambda>y. CHR 0x5C # CHR ''n'' # y) (js_cook x)" for x
        by (subst js_cook.simps) (simp add: backtick_def js_escape_def is_digit_def n option.map_comp comp_def)
      then show ?thesis using True u Cons IH by simp
    next
      case False
      then have p: "c \<noteq> backtick" "c \<noteq> CHR 0x0D" "\<not> (c = CHR ''$'' \<and> HasPrefix t ''{'')" "js_plain t"
        using "1.prems" Cons by auto
      then have IH: "js_cook (escape_newlines t @ nl @ backtick # r) = Some (t @ nl)"
        using "1.IH" Cons by simp
      have "HasPrefix (escape_newlines t @ nl @ backtick # r) ''{'' = HasPrefix t ''{''"
        using escape_newlines_brace [of t] by (cases "escape_newlines t") (auto simp: HasPrefix_def nl_def)
      then have "js_cook (c # escape_newlines t @ nl @ backtick # r)
          = map_option ((#) c) (js_cook (escape_newlines t @ nl @ backtick # r))"
        using p(1-3) False by (subst js_cook.simps) auto
      then show ?thesis using IH False Cons by (simp add: escape_newlines_other)
    qed
  qed
qed

lemma js_template_parts:
  "\<exists>pre. js_template_head = pre @ backtick # nl \<and> backtick \<notin> set pre"
  "\<exists>post. js_template_tail = nl @ backtick # post"
proof -
  show "\<exists>pre. js_template_head = pre @ backtick # nl \<and> backtick \<notin> set pre"
    by (rule exI [of _ "take (length js_template_head - 2) js_template_head"]) code_simp
  show "\<exists>post. js_template_tail = nl @ backtick # post"
    by (rule exI [of _ "drop 2 js_template_tail"]) code_simp
qed

lemma template_string_generated:
  "\<exists>r. template_string (js_template_head @ escape_newlines json @ js_template_tail)
    = js_cook (nl @ escape_newlines json @ nl @ backtick # r)"
proof -
  obtain pre post where t: "js_template_head = pre @ backtick # nl" "backtick \<notin> set pre"
      "js_template_tail = nl @ backtick # post"
    using js_template_parts by blast
  have "dropWhile (\<lambda>c. c \<noteq> backtick) (js_template_head @ escape_newlines json @ js_template_tail)
      = backtick # nl @ escape_newlines json @ nl @ backtick # post"
    using t(2) by (simp add: t dropWhile_append)
  then show ?thesis by (auto simp: template_string_def)
qed

lemma js_cook_nl: "js_cook (nl @ x) = map_option ((@) nl) (js_cook x)"
  by (subst js_cook.simps) (simp add: nl_def backtick_def append_single)

lemma template_string_plain:
  "js_plain json \<Longrightarrow>
    template_string (js_template_head @ escape_newlines json @ js_template_tail) = Some (nl @ json @ nl)"
  using template_string_generated [of json] js_cook_plain [of json] by (auto simp: js_cook_nl)

text \<open>A JSON text with an escaped double quote: the literal drops the backslash.\<close>

definition quote_json :: string where
  "quote_json = ''{'' @ quoted ''name'' @ '': ''
     @ quoted (''a '' @ [CHR 0x5C, CHR 0x22] @ ''b'' @ [CHR 0x5C, CHR 0x22]) @ ''}''"

lemma quote_json_read:
  "json_read [] quote_json = Some (JObj [(''name'', JStr (''a '' @ quoted ''b''))], [])"
  by code_simp

lemma quote_json_lost:
  "template_string (js_template_head @ escape_newlines quote_json @ js_template_tail)
    = Some (nl @ ''{'' @ quoted ''name'' @ '': '' @ quoted (''a '' @ quoted ''b'') @ ''}'' @ nl)"
  "json_read [] (nl @ ''{'' @ quoted ''name'' @ '': '' @ quoted (''a '' @ quoted ''b'') @ ''}'' @ nl) = None"
  by code_simp+

text \<open>
  A view of the files on the disk that a successful write changes as it should. What it shows
  after \<open>apply\<close> is what has been written.
\<close>

definition keeps_files :: "('m, 'd) manifest_api \<Rightarrow> ('d \<Rightarrow> string \<Rightarrow> bytes option) \<Rightarrow> bool" where
  "keeps_files api files \<longleftrightarrow> (\<forall>p b d d'. WriteFile api p b d = (None, d') \<longrightarrow> files d' = (files d)(p \<mapsto> b))"

lemma apply_server_file:
  assumes "apply_server api m s = (None, s')" "MarshalIndent api m ''  '' = Inr json"
  shows "WriteFile api ''server/manifest.go'' (go_template_head @ json @ go_template_tail) (disk s) = (None, disk s')"
  using assms by (auto simp: apply_server_def on_disk_def Let_def split: prod.splits option.splits)

lemma apply_webapp_file:
  assumes "apply_webapp api m s = (None, s')" "MarshalIndent api m ''    '' = Inr json"
  shows "WriteFile api ''webapp/src/manifest.ts'' (js_template_head @ escape_newlines json @ js_template_tail) (disk s)
    = (None, disk s')"
  using assms by (auto simp: apply_webapp_def on_disk_def Let_def split: prod.splits option.splits)

lemma apply_server_writes:
  assumes "applyManifest api m s = (None, s')" "HasServer api m" "MarshalIndent api m ''  '' = Inr json"
  shows "\<exists>d d'. WriteFile api ''server/manifest.go'' (go_template_head @ json @ go_template_tail) d = (None, d')
    \<and> (\<forall>files. keeps_files api files \<longrightarrow>
        files (disk s') ''server/manifest.go'' = Some (go_template_head @ json @ go_template_tail))"
proof -
  obtain s1 where s1: "apply_server api m s = (None, s1)"
      "(if HasWebapp api m then apply_webapp api m s1 else (None, s1)) = (None, s')"
    using assms(1,2) by (auto simp: applyManifest_def split: prod.splits option.splits)
  note w = apply_server_file [OF s1(1) assms(3)]
  have keep: "files (disk s') ''server/manifest.go'' = files (disk s1) ''server/manifest.go''" if "keeps_files api files" for files
  proof (cases "HasWebapp api m")
    case True
    then have a: "apply_webapp api m s1 = (None, s')" using s1(2) by simp
    then obtain json' where "MarshalIndent api m ''    '' = Inr json'"
      by (auto simp: apply_webapp_def split: sum.splits)
    from apply_webapp_file [OF a this] that show ?thesis by (auto simp: keeps_files_def)
  qed (use s1(2) in simp)
  have "files (disk s1) ''server/manifest.go'' = Some (go_template_head @ json @ go_template_tail)"
    if "keeps_files api files" for files
    using w that by (auto simp: keeps_files_def)
  then show ?thesis using w keep by auto
qed

lemma apply_webapp_writes:
  assumes "applyManifest api m s = (None, s')" "HasWebapp api m" "MarshalIndent api m ''    '' = Inr json"
  shows "\<exists>d d'. WriteFile api ''webapp/src/manifest.ts''
      (js_template_head @ escape_newlines json @ js_template_tail) d = (None, d')
    \<and> (\<forall>files. keeps_files api files \<longrightarrow>
        files (disk s') ''webapp/src/manifest.ts'' = Some (js_template_head @ escape_newlines json @ js_template_tail))"
proof -
  obtain s1 where "apply_webapp api m s1 = (None, s')"
    using assms(1,2) by (auto simp: applyManifest_def split: prod.splits option.splits)
  note w = apply_webapp_file [OF this assms(3)]
  then show ?thesis by (auto simp: keeps_files_def)
qed

end
