(* ===== verification/Manifest_Literal.thy ===== *)
theory Manifest_Literal
  imports Manifest_Tool
begin

section \<open>What the literal of the web app does to the texts of a manifest\<close>

text \<open>
  The JSON of the manifest is pasted into a JavaScript template literal, which replaces the
  escapes of JSON a second time. The lemmas count the marks of a text, its double quotes,
  backslashes and line feeds: in JSON each of them takes a backslash, and of the backslashes
  that the literal leaves there is at most one for every backslash and line feed of the
  manifest, none for a double quote. So whatever is read from the literal has fewer marks than
  a manifest with a double quote. The count along the reader is made once, in the locale
  \<open>json_count\<close>, and interpreted for the backslashes of a text and for what the literal keeps.
\<close>

subsection \<open>The texts of a JSON value\<close>

fun json_text :: "json \<Rightarrow> string" where
  "json_text (JStr t) = t"
| "json_text (JArr vs) = concat (map json_text vs)"
| "json_text (JObj ms) = concat (map (\<lambda>(k, v). k @ json_text v) ms)"
| "json_text JNull = []"
| "json_text (JBool b) = []"
| "json_text (JNum n) = []"

definition json_mark :: "char \<Rightarrow> bool" where
  "json_mark c \<longleftrightarrow> c \<in> {CHR 0x22, CHR 0x5C, CHR 0x0A}"

definition json_marks :: "json \<Rightarrow> nat" where
  "json_marks v = length (filter json_mark (json_text v))"

definition text_sum :: "(char \<Rightarrow> int) \<Rightarrow> string \<Rightarrow> int" where
  "text_sum f t = sum_list (map f t)"

lemma text_sum_simps [simp]:
  "text_sum f [] = 0" "text_sum f (c # s) = f c + text_sum f s" "text_sum f (s @ t) = text_sum f s + text_sum f t"
  by (simp_all add: text_sum_def)

lemma text_sum_concat: "text_sum f (concat ts) = sum_list (map (text_sum f) ts)"
  by (induction ts) simp_all

abbreviation json_sum :: "(char \<Rightarrow> int) \<Rightarrow> json \<Rightarrow> int" where
  "json_sum f v \<equiv> text_sum f (json_text v)"

lemma text_sum_rev: "text_sum f (concat (rev ts)) = text_sum f (concat ts)"
  by (simp add: text_sum_concat rev_map [symmetric] sum_list_rev)

lemma json_sum_rev:
  "text_sum f (concat (map g (rev xs))) = text_sum f (concat (map g xs))"
  by (simp add: rev_map [symmetric] text_sum_rev)

fun frame_sum :: "(char \<Rightarrow> int) \<Rightarrow> frame \<Rightarrow> int" where
  "frame_sum f (InArr vs) = json_sum f (JArr vs)"
| "frame_sum f (InObj ms k) = json_sum f (JObj ms) + text_sum f k"

subsection \<open>Counting along the reader\<close>

text \<open>What the reader skips between the strings holds no backslash.\<close>

definition skipped :: "string \<Rightarrow> string \<Rightarrow> bool" where
  "skipped s r \<longleftrightarrow> (\<exists>p. s = p @ r \<and> CHR 0x5C \<notin> set p)"

lemma skipped_refl [simp]: "skipped s s"
  by (simp add: skipped_def)

lemma skipped_trans: "skipped s t \<Longrightarrow> skipped t r \<Longrightarrow> skipped s r"
  by (fastforce simp: skipped_def)

lemma skipped_cons [simp]: "c \<noteq> CHR 0x5C \<Longrightarrow> skipped (c # s) s"
  by (simp add: skipped_def)

lemma skipped_Cons: "c \<noteq> CHR 0x5C \<Longrightarrow> skipped s t \<Longrightarrow> skipped (c # s) t"
  by (rule skipped_trans [OF skipped_cons])

lemma skipped_dropWhile: "(\<And>c. P c \<Longrightarrow> c \<noteq> CHR 0x5C) \<Longrightarrow> skipped s (dropWhile P s)"
  unfolding skipped_def
  by (rule exI [of _ "takeWhile P s"]) (auto dest: set_takeWhileD)

lemma not_digit_backslash [simp]: "\<not> is_digit (CHR 0x5C)"
  by (simp add: is_digit_def)

lemma skipped_digits: "skipped s (dropWhile is_digit s)"
  by (rule skipped_dropWhile) (auto simp: is_digit_def)

lemma skipped_ws: "skipped s (skip_ws s)"
  unfolding skip_ws_def by (rule skipped_dropWhile) (auto simp: is_ws_def)

lemma skipped_prefix: "HasPrefix s p \<Longrightarrow> CHR 0x5C \<notin> set p \<Longrightarrow> skipped s (drop (length p) s)"
  by (auto simp: HasPrefix_iff skipped_def)

lemma skipped_ws_Cons: "skip_ws s = c # r \<Longrightarrow> c \<noteq> CHR 0x5C \<Longrightarrow> skipped s r"
  using skipped_trans [OF skipped_ws [of s]] by simp

lemma skipped_frac: "json_frac s = Some (f, r) \<Longrightarrow> skipped s r"
  by (auto simp: json_frac_def split: list.splits if_splits intro: skipped_Cons skipped_digits)

lemma skipped_exp: "json_exp s = Some (f, r) \<Longrightarrow> skipped s r"
  by (auto simp: json_exp_def Let_def split: list.splits if_splits intro!: skipped_Cons intro: skipped_digits)

lemma skipped_int: "json_int s = Some (f, r) \<Longrightarrow> skipped s r"
  by (auto simp: json_int_def is_digit_def split: list.splits if_splits intro: skipped_Cons skipped_digits)

lemma skipped_number: "json_number s = Some (f, r) \<Longrightarrow> skipped s r"
  by (auto simp: json_number_def Let_def split: list.splits if_splits option.splits prod.splits
      dest!: skipped_int skipped_frac skipped_exp intro: skipped_trans skipped_Cons)

text \<open>How a value starts.\<close>

lemma json_read_cases:
  assumes "json_read st s = Some (v, r)"
  obtains (empty_obj) cs where "skip_ws s = CHR ''{'' # cs" "\<not> maxNestingDepth \<le> length st"
      "skip_ws cs \<noteq> [] \<and> hd (skip_ws cs) = CHR ''}''" "json_fill st (JObj []) (tl (skip_ws cs)) = Some (v, r)"
    | (obj) cs k q where "skip_ws s = CHR ''{'' # cs" "\<not> maxNestingDepth \<le> length st"
      "\<not> (skip_ws cs \<noteq> [] \<and> hd (skip_ws cs) = CHR ''}'')" "json_key cs = Some (k, q)"
      "json_read (InObj [] k # st) q = Some (v, r)"
    | (empty_arr) cs where "skip_ws s = CHR ''['' # cs" "\<not> maxNestingDepth \<le> length st"
      "skip_ws cs \<noteq> [] \<and> hd (skip_ws cs) = CHR '']''" "json_fill st (JArr []) (tl (skip_ws cs)) = Some (v, r)"
    | (arr) cs where "skip_ws s = CHR ''['' # cs" "\<not> maxNestingDepth \<le> length st"
      "\<not> (skip_ws cs \<noteq> [] \<and> hd (skip_ws cs) = CHR '']'')" "json_read (InArr [] # st) cs = Some (v, r)"
    | (leaf) c cs x q where "skip_ws s = c # cs" "c \<noteq> CHR ''{''" "c \<noteq> CHR ''[''"
      "json_scalar (skip_ws s) = Some (x, q)" "json_fill st x q = Some (v, r)"
proof -
  obtain c cs where s: "skip_ws s = c # cs"
    using assms by (cases "skip_ws s") (simp_all add: json_read.simps)
  note read = assms [unfolded json_read.simps [of st s] s list.case]
  consider "c = CHR ''{''" | "c \<noteq> CHR ''{''" "c = CHR ''[''" | "c \<noteq> CHR ''{''" "c \<noteq> CHR ''[''" by blast
  then show ?thesis
  proof cases
    case 1
    then show ?thesis using read s
      by (cases "skip_ws cs \<noteq> [] \<and> hd (skip_ws cs) = CHR ''}''")
        (auto simp del: json_fill.simps split: if_splits option.splits intro: empty_obj obj)
  next
    case 2
    then show ?thesis using read s
      by (cases "skip_ws cs \<noteq> [] \<and> hd (skip_ws cs) = CHR '']''")
        (auto simp del: json_fill.simps split: if_splits intro: empty_arr arr)
  next
    case 3
    then show ?thesis using read s leaf by (auto split: option.splits)
  qed
qed

subsection \<open>The bytes of characters\<close>

text \<open>The bytes of a character that is not ASCII are no ASCII characters.\<close>

definition high :: "string \<Rightarrow> bool" where
  "high s \<longleftrightarrow> (\<forall>c \<in> set s. 128 \<le> code c)"

lemma high_marks: "high s \<Longrightarrow> CHR 0x5C \<notin> set s \<and> (\<forall>c \<in> set s. \<not> json_mark c)"
  by (auto simp: high_def json_mark_def)

lemma high_rune:
  assumes "128 \<le> code c" "rune_len (c # s) \<noteq> 0"
  shows "high (take (rune_len (c # s)) (c # s))"
proof -
  let ?n = "lead_len c"
  have n: "rune_len (c # s) = ?n" "2 \<le> ?n" "\<not> length s < ?n - 1" "second_ok c (s ! 0)"
      "list_all cont (take (?n - 2) (drop 1 s))"
    using assms lead_len_ascii [of c] by (auto simp: rune_len.simps Let_def split: if_splits)
  then obtain d s' where s: "s = d # s'" by (cases s) auto
  have "128 \<le> code d" using n(4) by (auto simp: s second_ok_def Let_def split: if_splits)
  moreover have "128 \<le> code e" if "e \<in> set (take (?n - 2) s')" for e
    using n(5) that by (auto simp: s list_all_iff cont_def)
  moreover have "take ?n (c # s) = c # d # take (?n - 2) s'"
    using n(2) by (cases ?n) (auto simp: s take_Cons' numeral_2_eq_2)
  ultimately show ?thesis using assms(1) by (auto simp: high_def n(1))
qed

lemma high_replacement: "high replacement"
  by (simp add: high_def replacement_def)

lemma high_encode: "128 \<le> r \<Longrightarrow> r < 0x110000 \<Longrightarrow> high (utf8_encode r)"
  by (auto simp: high_def utf8_encode_def)

lemma encode_ascii: "r < 128 \<Longrightarrow> utf8_encode r = [char_of r]"
  by (simp add: utf8_encode_def)

lemma hex_val_less: "hex_val c = Some n \<Longrightarrow> n < 16 \<and> c \<noteq> CHR 0x5C \<and> c \<noteq> backtick \<and> c \<noteq> CHR 0x0A"
  by (auto simp: hex_val_def Let_def backtick_def split: if_splits)

lemma hex4_split:
  assumes "hex4 s = Some (r, t)"
  shows "\<exists>p. s = p @ t \<and> (\<forall>c \<in> set p. hex_val c \<noteq> None)"
proof (cases s rule: hex4.cases)
  case (1 a b c d s')
  then show ?thesis using assms by (intro exI [of _ "[a, b, c, d]"]) (auto split: option.splits)
qed (use assms in simp_all)

lemma hex4_digits:
  assumes "hex4 s = Some (r, t)"
  shows "r < 65536 \<and> skipped s t"
  using assms
  by (cases s rule: hex4.cases)
    (auto split: option.splits dest!: hex_val_less intro!: skipped_Cons)

text \<open>A \<open>\u\<close> escape stands for an ASCII character, or for none.\<close>

lemma unicode_escape_cases:
  assumes "unicode_escape s = Some (u, t)"
  obtains (ascii) r where "hex4 s = Some (r, t)" "r < 128" "u = [char_of r]"
    | (wide) r where "hex4 s = Some (r, t)" "128 \<le> r" "high u"
    | (pair) r q x where "hex4 s = Some (r, CHR 0x5C # CHR ''u'' # x)" "128 \<le> r"
        "hex4 x = Some (q, t)" "128 \<le> q" "high u"
proof -
  obtain r y where h: "hex4 s = Some (r, y)" using assms by (auto simp: unicode_escape_def split: option.splits)
  note r = hex4_digits [OF h]
  show ?thesis
  proof (cases "hi_surrogate r \<and> second_half y \<noteq> None")
    case True
    then obtain q where q: "second_half y = Some (q, t)"
        "u = utf8_encode (0x10000 + (r - 0xD800) * 1024 + (q - 0xDC00))"
      using assms h by (auto simp: unicode_escape_def)
    then obtain x where x: "y = CHR 0x5C # CHR ''u'' # x" "hex4 x = Some (q, t)" "lo_surrogate q"
      by (auto simp: second_half_def split: list.splits if_splits option.splits)
    have "high u" using True x(3) unfolding q(2) hi_surrogate_def lo_surrogate_def
      by (intro high_encode) auto
    with x h True show ?thesis by (intro pair) (auto simp: hi_surrogate_def lo_surrogate_def)
  next
    case False
    then have u: "t = y" "u = (if hi_surrogate r \<or> lo_surrogate r then replacement else utf8_encode r)"
      using assms h by (auto simp: unicode_escape_def split: if_splits option.splits)
    then show ?thesis using h r high_replacement high_encode [of r] encode_ascii [of r] ascii [of r] wide [of r]
      by (cases "r < 128") (auto simp: hi_surrogate_def lo_surrogate_def)
  qed
qed

text \<open>How a string starts.\<close>

lemma json_string_cases:
  assumes "json_string s = Some (t, r)"
  obtains (close) "s = CHR 0x22 # r" "t = []"
    | (unicode) es u q t' where "s = CHR 0x5C # CHR ''u'' # es" "unicode_escape es = Some (u, q)"
        "json_string q = Some (t', r)" "t = u @ t'"
    | (short) e es d t' where "s = CHR 0x5C # e # es" "e \<noteq> CHR ''u''" "short_escape e = Some d"
        "json_string es = Some (t', r)" "t = d # t'"
    | (plain) c cs t' where "s = c # cs" "c \<noteq> CHR 0x22" "c \<noteq> CHR 0x5C" "32 \<le> code c"
        "json_string cs = Some (t', r)" "t = c # t'"
    | (bytes) p q u t' where "s = p @ q" "p \<noteq> []" "high p" "json_string q = Some (t', r)" "t = u @ t'" "high u"
proof -
  obtain c cs where s: "s = c # cs" using assms by (cases s) (simp_all add: json_string.simps)
  note read = assms [unfolded s json_string.simps [of "c # cs"] list.case]
  consider "c = CHR 0x22" | "c = CHR 0x5C" | "c \<noteq> CHR 0x22" "c \<noteq> CHR 0x5C" "code c < 128"
    | "c \<noteq> CHR 0x22" "c \<noteq> CHR 0x5C" "\<not> code c < 128" by blast
  then show ?thesis
  proof cases
    case 1
    then show ?thesis using read s close by simp
  next
    case 2
    then show ?thesis using read s by (auto split: list.splits if_splits option.splits intro: unicode short)
  next
    case 3
    then show ?thesis using read s by (auto split: if_splits intro: plain)
  next
    case 4
    then have h: "128 \<le> code c" by simp
    show ?thesis
    proof (cases "rune_len s = 0")
      case True
      then obtain t' where "json_string cs = Some (t', r)" "t = replacement @ t'"
        using read 4 s h by (auto split: if_splits)
      then show ?thesis using h s by (intro bytes [of "[c]" cs t' replacement]) (simp_all add: high_def replacement_def)
    next
      case False
      let ?p = "take (rune_len s) s"
      obtain t' where "json_string (drop (rune_len s) s) = Some (t', r)" "t = ?p @ t'"
        using read 4 s h False by (auto split: if_splits)
      then show ?thesis using high_rune [OF h, of cs] False s
        by (intro bytes [of ?p "drop (rune_len s) s" t' ?p]) simp_all
    qed
  qed
qed

text \<open>
  A count \<open>m\<close> of the input that an escape lowers by at most the weight \<open>f\<close> of what it stands
  for, and that only backslashes change: then so does every string and every value.
\<close>

locale json_count =
  fixes m :: "string \<Rightarrow> int" and f :: "char \<Rightarrow> int"
  assumes m_skipped: "CHR 0x5C \<notin> set p \<Longrightarrow> m (p @ r) = m r"
    and m_unicode: "unicode_escape s = Some (u, r) \<Longrightarrow> m (CHR 0x5C # CHR ''u'' # s) \<le> text_sum f u + m r"
    and m_short: "e \<noteq> CHR ''u'' \<Longrightarrow> short_escape e = Some d \<Longrightarrow> m (CHR 0x5C # e # s) \<le> f d + m s"
    and f_plain: "32 \<le> code c \<Longrightarrow> c \<noteq> CHR 0x22 \<Longrightarrow> c \<noteq> CHR 0x5C \<Longrightarrow> 0 \<le> f c"
begin

lemma f_high: "high s \<Longrightarrow> 0 \<le> text_sum f s"
proof (induction s)
  case (Cons c s)
  then have "high s" "128 \<le> code c" by (simp_all add: high_def)
  moreover from this(2) have "0 \<le> f c" by (intro f_plain) auto
  ultimately show ?case using Cons.IH by simp
qed simp

lemma m_string: "json_string s = Some (t, r) \<Longrightarrow> m s \<le> text_sum f t + m r"
proof (induction s arbitrary: t rule: length_induct)
  case (1 s)
  have IH: "m q \<le> text_sum f t' + m r" if "length q < length s" "json_string q = Some (t', r)" for q t'
    using "1.IH" that by blast
  from "1.prems" show ?case
  proof (cases rule: json_string_cases)
    case close
    then show ?thesis using m_skipped [of "[CHR 0x22]" r] by simp
  next
    case (unicode es u q t')
    have "length q < length s" using unicode_escape_shorter [OF unicode(2)] by (simp add: unicode(1))
    from IH [OF this unicode(3)] m_unicode [OF unicode(2)] show ?thesis by (simp add: unicode(1,4))
  next
    case (short e es d t')
    then have "m es \<le> text_sum f t' + m r" by (intro IH) simp_all
    with m_short [OF short(2,3), of es] show ?thesis by (simp add: short(1,5))
  next
    case (plain c cs t')
    then have "m cs \<le> text_sum f t' + m r" by (intro IH) simp_all
    with f_plain [OF plain(4,2,3)] m_skipped [of "[c]" cs] show ?thesis using plain(3) by (simp add: plain(1,6))
  next
    case (bytes p q u t')
    then have "m q \<le> text_sum f t' + m r" by (intro IH) simp_all
    with f_high [OF bytes(6)] m_skipped [of p q] high_marks [OF bytes(3)] show ?thesis by (simp add: bytes(1,5))
  qed
qed

lemma skip: "skipped s r \<Longrightarrow> m s = m r"
  by (auto simp: skipped_def m_skipped)

lemma key: "json_key s = Some (k, r) \<Longrightarrow> m s \<le> text_sum f k + m r"
  by (auto simp: json_key_def split: list.splits option.splits if_splits
      dest!: m_string skipped_ws_Cons skip)

lemma scalar: "json_scalar s = Some (v, r) \<Longrightarrow> m s \<le> json_sum f v + m r"
proof (cases "s \<noteq> [] \<and> hd s = CHR 0x22")
  case True
  then show "json_scalar s = Some (v, r) \<Longrightarrow> ?thesis"
    using skip [of s "tl s"] by (cases s) (auto simp: json_scalar_def dest!: m_string)
next
  case False
  have p: "HasPrefix s x \<Longrightarrow> CHR 0x5C \<notin> set x \<Longrightarrow> m (drop (length x) s) = m s" for x
    using skip [OF skipped_prefix] by simp
  show "json_scalar s = Some (v, r) \<Longrightarrow> ?thesis"
    using False p [of "''null''"] p [of "''true''"] p [of "''false''"]
    by (auto simp: json_scalar_def numeral_eq_Suc split: if_splits dest!: skipped_number skip)
qed

lemma open_skip: "skip_ws s = c # cs \<Longrightarrow> c \<noteq> CHR 0x5C \<Longrightarrow> m s = m cs"
  by (rule skip [OF skipped_ws_Cons])

lemma open_close:
  assumes "skip_ws s = c # cs" "skip_ws cs \<noteq> [] \<and> hd (skip_ws cs) = d" "c \<noteq> CHR 0x5C" "d \<noteq> CHR 0x5C"
  shows "m s = m (tl (skip_ws cs))"
proof -
  have "skip_ws cs = d # tl (skip_ws cs)" using assms(2) by (cases "skip_ws cs") simp_all
  then show ?thesis using open_skip [OF assms(1,3)] open_skip [OF _ assms(4)] by metis
qed

lemma read_fill:
  "json_read st s = Some (v, r) \<Longrightarrow> m s + sum_list (map (frame_sum f) st) \<le> json_sum f v + m r"
  "json_fill st x s = Some (v, r) \<Longrightarrow> m s + json_sum f x + sum_list (map (frame_sum f) st) \<le> json_sum f v + m r"
proof (induction st s and st x s arbitrary: v r and v r rule: json_read_json_fill.induct)
  case (1 st s)
  from "1.prems" show ?case
  proof (cases rule: json_read_cases)
    case (empty_obj cs)
    from "1.IH"(1) [OF empty_obj(1) refl empty_obj(2-4)] show ?thesis
      using open_close [OF empty_obj(1) empty_obj(3)] by simp
  next
    case (obj cs k q)
    from "1.IH"(2) [OF obj(1) refl obj(2-4) refl obj(5)] show ?thesis
      using key [OF obj(4)] open_skip [OF obj(1)] by simp
  next
    case (empty_arr cs)
    from "1.IH"(3) [OF empty_arr(1) _ refl empty_arr(2-4)] show ?thesis
      using open_close [OF empty_arr(1) empty_arr(3)] by simp
  next
    case (arr cs)
    from "1.IH"(4) [OF arr(1) _ refl arr(2-4)] show ?thesis using open_skip [OF arr(1)] by simp
  next
    case (leaf c cs x q)
    from "1.IH"(5) [OF leaf(1-4) refl leaf(5)] show ?thesis
      using scalar [OF leaf(4)] skip [OF skipped_ws [of s]] by simp
  qed
next
  case (3 vs st x s)
  obtain c cs where s: "skip_ws s = c # cs" using "3.prems" by (cases "skip_ws s") simp_all
  consider "c = CHR '',''" | "c \<noteq> CHR '',''" "c = CHR '']''" using "3.prems" s by (auto split: if_splits)
  then show ?case
  proof cases
    case 1
    then have "json_read (InArr (x # vs) # st) cs = Some (v, r)" using "3.prems" s by simp
    from "3.IH"(1) [OF s 1 this] show ?thesis using open_skip [OF s] 1 by simp
  next
    case 2
    then have "json_fill st (JArr (rev (x # vs))) cs = Some (v, r)" using "3.prems" s by simp
    from "3.IH"(2) [OF s 2 this] show ?thesis using open_skip [OF s] 2 by (simp add: json_sum_rev)
  qed
next
  case (4 ms k st x s)
  obtain c cs where s: "skip_ws s = c # cs" using "4.prems" by (cases "skip_ws s") simp_all
  consider k' q where "c = CHR '',''" "json_key cs = Some (k', q)" | "c \<noteq> CHR '',''" "c = CHR ''}''"
    using "4.prems" s by (auto split: if_splits option.splits)
  then show ?case
  proof cases
    case (1 k' q)
    then have "json_read (InObj ((k, x) # ms) k' # st) q = Some (v, r)" using "4.prems" s by simp
    from "4.IH"(1) [OF s 1 refl this] show ?thesis using open_skip [OF s] key [OF 1(2)] 1(1) by simp
  next
    case 2
    then have "json_fill st (JObj (rev ((k, x) # ms))) cs = Some (v, r)" using "4.prems" s by simp
    from "4.IH"(2) [OF s 2 this] show ?thesis using open_skip [OF s] 2 by (simp add: json_sum_rev)
  qed
qed simp

end

subsection \<open>The two counts\<close>

text \<open>The backslashes that the literal keeps of a text: those of \<open>\\\<close>, of \<open>\n\<close> and of \<open>\u005c\<close>.\<close>

fun kept :: "string \<Rightarrow> nat" where
  "kept (c # d # s) =
     (if c = CHR 0x5C
      then (if d = CHR 0x5C \<or> d = CHR ''n'' \<or> d = CHR ''u'' \<and> map_option fst (hex4 s) = Some 0x5C then 1 else 0) + kept s
      else kept (d # s))"
| "kept s = 0"

definition backslashes :: "string \<Rightarrow> nat" where
  "backslashes s = length (filter (\<lambda>c. c = CHR 0x5C) s)"

lemma backslashes_simps [simp]:
  "backslashes [] = 0" "backslashes (c # s) = (if c = CHR 0x5C then Suc (backslashes s) else backslashes s)"
  "backslashes (s @ t) = backslashes s + backslashes t"
  by (simp_all add: backslashes_def)

lemma backslashes_none: "CHR 0x5C \<notin> set p \<Longrightarrow> backslashes p = 0"
  by (induction p) auto

lemma backslashes_skipped: "skipped s r \<Longrightarrow> backslashes s = backslashes r"
  by (auto simp: skipped_def backslashes_none)

lemma kept_cons: "c \<noteq> CHR 0x5C \<Longrightarrow> kept (c # s) = kept s"
  by (cases s) simp_all

lemma kept_none: "CHR 0x5C \<notin> set p \<Longrightarrow> kept (p @ r) = kept r"
  by (induction p) (auto simp: kept_cons)

lemma kept_skipped: "skipped s r \<Longrightarrow> kept s = kept r"
  by (auto simp: skipped_def kept_none)

definition mark_cost :: "char \<Rightarrow> int" where
  "mark_cost c = (if json_mark c then - 1 else 0)"

lemma char_of_backslash [simp]: "char_of (92 :: nat) = CHR 0x5C"
  by code_simp

definition keep_cost :: "char \<Rightarrow> int" where
  "keep_cost c = (if c = CHR 0x5C \<or> c = CHR 0x0A then 1 else 0)"

lemma high_cost:
  assumes "high u"
  shows "text_sum mark_cost u = 0" "text_sum keep_cost u = 0"
  using assms by (induction u) (auto simp: high_def mark_cost_def keep_cost_def json_mark_def)

text \<open>Every mark takes a backslash of its own.\<close>

interpretation marks: json_count "\<lambda>s. - int (backslashes s)" mark_cost
proof
  fix s u r
  assume "unicode_escape s = Some (u, r)"
  then show "- int (backslashes (CHR 0x5C # CHR ''u'' # s)) \<le> text_sum mark_cost u + - int (backslashes r)"
    by (cases rule: unicode_escape_cases)
      (auto dest!: hex4_digits backslashes_skipped simp: high_cost mark_cost_def)
qed (auto simp: backslashes_none mark_cost_def json_mark_def short_escape_def split: if_splits)

text \<open>Every backslash that is kept stands for a backslash or a line feed.\<close>

lemma kept_hex4: "hex4 s = Some (r, t) \<Longrightarrow> kept (CHR 0x5C # CHR ''u'' # s) = (if r = 0x5C then 1 else 0) + kept t"
  using hex4_digits [of s r t] by (auto dest: kept_skipped)

interpretation keeps: json_count "\<lambda>s. int (kept s)" keep_cost
proof
  fix s u r
  assume "unicode_escape s = Some (u, r)"
  then show "int (kept (CHR 0x5C # CHR ''u'' # s)) \<le> text_sum keep_cost u + int (kept r)"
    by (cases rule: unicode_escape_cases)
      (auto simp: kept_hex4 high_cost keep_cost_def simp del: kept.simps)
qed (auto simp: kept_none short_escape_def keep_cost_def split: if_splits)

subsection \<open>What the literal leaves\<close>

text \<open>The backslashes of a literal's value: from \<open>\\\<close> and \<open>\u005c\<close>, up to the closing back quote.\<close>

fun cooked :: "string \<Rightarrow> nat" where
  "cooked (c # d # s) =
     (if c = backtick then 0
      else if c = CHR 0x5C
      then (if d = CHR 0x5C \<or> d = CHR ''u'' \<and> map_option fst (hex4 s) = Some 0x5C then 1 else 0) + cooked s
      else cooked (d # s))"
| "cooked s = 0"

lemma cooked_cons: "c \<noteq> CHR 0x5C \<Longrightarrow> cooked (c # s) = (if c = backtick then 0 else cooked s)"
  by (cases s) simp_all

lemma cooked_end [simp]: "cooked (backtick # x) = 0" "cooked (nl @ s) = cooked s"
  by (cases x) (simp_all add: nl_def backtick_def cooked_cons)

lemma cooked_none: "CHR 0x5C \<notin> set p \<Longrightarrow> backtick \<notin> set p \<Longrightarrow> cooked (p @ s) = cooked s"
  by (induction p) (auto simp: cooked_cons)

lemma cooked_hex4:
  assumes "hex4 s = Some (r, t)"
  shows "cooked (CHR 0x5C # CHR ''u'' # s) = (if r = 0x5C then 1 else 0) + cooked t"
proof -
  obtain p where p: "s = p @ t" "\<forall>c \<in> set p. hex_val c \<noteq> None" using hex4_split [OF assms] by blast
  then have "CHR 0x5C \<notin> set p" "backtick \<notin> set p" by (auto dest: hex_val_less)
  then have "cooked s = cooked t" using p(1) cooked_none by simp
  then show ?thesis using assms by (simp add: backtick_def)
qed

lemma backslashes_encode: "r < 65536 \<Longrightarrow> backslashes (utf8_encode r) \<le> (if r = 0x5C then 1 else 0)"
proof (cases "r < 128")
  case True
  have "r = 0x5C" if "char_of r = CHR 0x5C"
  proof -
    have "code (char_of r) = code (CHR 0x5C)" by (rule arg_cong [OF that])
    moreover have "code (char_of r) = r" using True by simp
    ultimately show ?thesis by simp
  qed
  then have "r \<noteq> 0x5C \<Longrightarrow> char_of r \<noteq> CHR 0x5C" by blast
  then show ?thesis unfolding encode_ascii [OF True] by (cases "r = 0x5C") simp_all
next
  case False
  then show "r < 65536 \<Longrightarrow> ?thesis" using high_encode [of r] high_marks [of "utf8_encode r"] backslashes_none by simp
qed

lemma backslashes_cook: "js_cook s = Some t \<Longrightarrow> backslashes t \<le> cooked s"
proof (induction s arbitrary: t rule: length_induct)
  case (1 s)
  have IH: "backslashes u \<le> cooked q" if "length q < length s" "js_cook q = Some u" for q u
    using "1.IH" that by blast
  obtain c cs where s: "s = c # cs" using "1.prems" by (cases s) (simp_all add: js_cook.simps)
  note cook = "1.prems" [unfolded s js_cook.simps [of "c # cs"] list.case]
  consider "c = backtick" | "c \<noteq> backtick" "c = CHR 0x5C" | "c \<noteq> backtick" "c \<noteq> CHR 0x5C" "c = CHR 0x0D"
    | "c \<noteq> backtick" "c \<noteq> CHR 0x5C" "c \<noteq> CHR 0x0D" by blast
  then show ?case
  proof cases
    case 1
    then show ?thesis using cook by simp
  next
    case 2
    then obtain e es where cs: "cs = e # es" using cook by (cases cs) simp_all
    show ?thesis
    proof (cases "e = CHR ''u''")
      case True
      then obtain r y u where h: "hex4 es = Some (r, y)" "js_cook y = Some u" "t = utf8_encode r @ u"
        using cook 2 cs by (auto split: option.splits if_splits)
      have "backslashes u \<le> cooked y"
        by (rule IH [OF _ h(2)]) (use hex4_shorter [OF h(1)] in \<open>simp add: s cs\<close>)
      then show ?thesis using 2 True cooked_hex4 [OF h(1)] backslashes_encode [of r] hex4_digits [OF h(1)]
        by (simp add: s cs h(3) del: cooked.simps)
    next
      case False
      then obtain d u where d: "js_escape e = Some d" "js_cook es = Some u" "t = d # u"
        using cook 2 cs by (auto split: option.splits)
      have "backslashes u \<le> cooked es" by (rule IH [OF _ d(2)]) (simp add: s cs)
      moreover have "d = CHR 0x5C \<Longrightarrow> e = CHR 0x5C" using d(1) by (auto simp: js_escape_def split: if_splits)
      ultimately show ?thesis using 2 False by (auto simp: s cs d(3))
    qed
  next
    case 3
    then obtain u where u: "js_cook (if HasPrefix cs nl then tl cs else cs) = Some u" "t = CHR 0x0A # u"
      using cook by (auto simp del: HasPrefix_def)
    have "backslashes u \<le> cooked (if HasPrefix cs nl then tl cs else cs)"
      by (rule IH [OF _ u(1)]) (cases cs; simp add: s)
    moreover have "cooked (if HasPrefix cs nl then tl cs else cs) = cooked cs"
      by (cases cs) (auto simp: HasPrefix_def nl_def cooked_cons backtick_def)
    ultimately show ?thesis using 3 by (simp add: s u(2) cooked_cons)
  next
    case 4
    then obtain u where u: "js_cook cs = Some u" "t = c # u"
      using cook by (auto split: if_splits)
    have "backslashes u \<le> cooked cs" by (rule IH [OF _ u(1)]) (simp add: s)
    then show ?thesis using 4 by (simp add: s u(2) cooked_cons)
  qed
qed

text \<open>Hexadecimal digits stay where they are.\<close>

lemma escaped_digit:
  assumes "escape_newlines q @ nl @ y = c # z" "hex_val c \<noteq> None"
  shows "\<exists>q'. q = c # q' \<and> z = escape_newlines q' @ nl @ y"
proof (cases q)
  case Nil
  then show ?thesis using assms hex_val_less [of c] by (auto simp: nl_def)
next
  case (Cons d q')
  have c: "c \<noteq> CHR 0x5C" using assms(2) hex_val_less [of c] by auto
  have "d \<noteq> CHR 0x5C" using assms(1) c Cons by (cases q') (auto split: if_splits)
  then show ?thesis using assms(1) Cons by (simp add: escape_newlines_other)
qed

lemma hex4_escaped:
  assumes "hex4 (escape_newlines q @ nl @ y) = Some (r, t)"
  shows "\<exists>t'. hex4 q = Some (r, t')"
proof -
  obtain a b c d z where z: "escape_newlines q @ nl @ y = a # b # c # d # z"
    and v: "hex_val a \<noteq> None" "hex_val b \<noteq> None" "hex_val c \<noteq> None" "hex_val d \<noteq> None"
    using assms by (cases "escape_newlines q @ nl @ y" rule: hex4.cases) (auto split: option.splits)
  obtain q1 where 1: "q = a # q1" "escape_newlines q1 @ nl @ y = b # c # d # z" using escaped_digit [OF z v(1)] by auto
  obtain q2 where 2: "q1 = b # q2" "escape_newlines q2 @ nl @ y = c # d # z" using escaped_digit [OF 1(2) v(2)] by auto
  obtain q3 where 3: "q2 = c # q3" "escape_newlines q3 @ nl @ y = d # z" using escaped_digit [OF 2(2) v(3)] by auto
  obtain q4 where 4: "q3 = d # q4" using escaped_digit [OF 3(2) v(4)] by auto
  show ?thesis using assms unfolding z by (auto simp: 1(1) 2(1) 3(1) 4 split: option.splits)
qed

lemma cooked_escaped: "cooked (escape_newlines s @ nl @ backtick # x) \<le> kept s"
proof (induction s rule: length_induct)
  case (1 s)
  let ?tail = "nl @ backtick # x"
  have IH: "cooked (escape_newlines q @ ?tail) \<le> kept q" if "length q < length s" for q
    using "1.IH" that by blast
  have n: "cooked (CHR ''n'' # y) = cooked y" for y by (simp add: cooked_cons backtick_def)
  consider "s = []" | c q where "s = c # q" "c \<noteq> CHR 0x5C" | "s = [CHR 0x5C]"
    | q where "s = CHR 0x5C # CHR ''n'' # q" | q where "s = CHR 0x5C # CHR 0x5C # CHR ''n'' # q"
    | q where "s = CHR 0x5C # CHR 0x5C # q" "q = [] \<or> hd q \<noteq> CHR ''n''"
    | e q where "s = CHR 0x5C # e # q" "e \<noteq> CHR ''n''" "e \<noteq> CHR 0x5C"
    by (metis list.exhaust list.sel(1))
  then show ?case
  proof cases
    case 1
    then show ?thesis by simp
  next
    case (2 c q)
    then show ?thesis using IH [of q] by (simp add: escape_newlines_other cooked_cons kept_cons)
  next
    case 3
    then show ?thesis using cooked_end(1) [of x] by (simp add: nl_def backtick_def)
  next
    case (4 q)
    then show ?thesis using IH [of q] by (simp add: n backtick_def)
  next
    case (5 q)
    then show ?thesis using IH [of q] by (simp add: n backtick_def kept_cons)
  next
    case (6 q)
    then have "escape_newlines s = CHR 0x5C # CHR 0x5C # escape_newlines q" by (cases q) simp_all
    then show ?thesis using IH [of q] 6 by (simp add: backtick_def)
  next
    case (7 e q)
    then have "escape_newlines s = CHR 0x5C # e # escape_newlines q" by (simp add: escape_newlines_other)
    moreover have "cooked (CHR 0x5C # e # escape_newlines q @ ?tail) \<le> kept s"
    proof (cases "e = CHR ''u'' \<and> map_option fst (hex4 (escape_newlines q @ ?tail)) = Some 0x5C")
      case True
      then have "map_option fst (hex4 q) = Some 0x5C" using hex4_escaped [of q "backtick # x"] by auto
      then show ?thesis using IH [of q] 7 True by (simp add: backtick_def)
    next
      case False
      then show ?thesis using IH [of q] 7 by (auto simp: backtick_def)
    qed
    ultimately show ?thesis by simp
  qed
qed

text \<open>
  What is read from the literal has fewer marks than a manifest that holds a double quote: it
  is another value, also when the members of the same name are merged.
\<close>

lemma keep_cost_less:
  assumes "CHR 0x22 \<in> set s"
  shows "text_sum keep_cost s < int (length (filter json_mark s))"
proof -
  have le: "text_sum keep_cost u \<le> int (length (filter json_mark u))" for u
    by (induction u) (auto simp: keep_cost_def json_mark_def)
  obtain a b where "s = a @ CHR 0x22 # b" using split_list [OF assms] by blast
  then show ?thesis using le [of a] le [of b] by (simp add: keep_cost_def json_mark_def)
qed

lemma mark_cost_sum: "text_sum mark_cost s = - int (length (filter json_mark s))"
  by (induction s) (simp_all add: mark_cost_def)

lemma literal_loses_marks:
  assumes "json_read [] json = Some (v, [])" "CHR 0x22 \<in> set (json_text v)"
    and "template_string (js_template_head @ escape_newlines json @ js_template_tail) = Some text"
    and "json_read [] text = Some (v', r)"
  shows "json_marks v' < json_marks v"
proof -
  obtain x where "js_cook (nl @ escape_newlines json @ nl @ backtick # x) = Some text"
    using template_string_generated [of json] assms(3) by auto
  then have "backslashes text \<le> kept json"
    using backslashes_cook cooked_escaped [of json x] by (fastforce intro: le_trans)
  moreover have "int (json_marks v') \<le> int (backslashes text)"
    using marks.read_fill(1) [OF assms(4)] by (simp add: mark_cost_sum json_marks_def)
  moreover have "int (kept json) \<le> text_sum keep_cost (json_text v)"
    using keeps.read_fill(1) [OF assms(1)] by simp
  ultimately show ?thesis using keep_cost_less [OF assms(2)] by (simp add: json_marks_def)
qed

text \<open>A name that smuggles a member into the manifest: \<open>a","b":"c\<close>.\<close>

definition inject_name :: string where
  "inject_name = ''a'' @ quoted '','' @ ''b'' @ quoted '':'' @ ''c''"

definition inject_json :: string where
  "inject_json = ''{'' @ quoted ''name'' @ '': '' @ json_quote inject_name @ ''}''"

lemma inject_json_read:
  "json_read [] inject_json = Some (JObj [(''name'', JStr inject_name)], [])"
  by code_simp

lemma inject_json_literal:
  "template_string (js_template_head @ escape_newlines inject_json @ js_template_tail)
    = Some (nl @ ''{'' @ quoted ''name'' @ '': '' @ quoted inject_name @ ''}'' @ nl)"
  by code_simp

lemma inject_json_lost:
  "json_read [] (nl @ ''{'' @ quoted ''name'' @ '': '' @ quoted inject_name @ ''}'' @ nl)
    = Some (JObj [(''name'', JStr ''a''), (''b'', JStr ''c'')], nl)"
  by code_simp

end
