(* ===== verification/Demo_Tools.thy ===== *)
theory Demo_Tools
  imports Demo Pluginctl Manifest_Literal
begin

section \<open>Concrete inputs for the build tools\<close>

text \<open>
  Log entries as the server writes them, a server with two pages of log entries that answers
  every call, and a small manifest.
\<close>

definition log_line :: "string \<Rightarrow> string \<Rightarrow> string" where
  "log_line pid time = ''{'' @ json_name ''plugin_id'' @ json_quote pid
     @ '','' @ json_name ''timestamp'' @ json_quote time @ ''}''"

lemma decode_log_line:
  assumes "valid_utf8 pid" "valid_utf8 time"
  shows "decode_entry (log_line pid time) = Some \<lparr>le_PluginID = pid, le_Timestamp = time\<rparr>"
proof -
  have k: "valid_utf8 ''plugin_id''" "valid_utf8 ''timestamp''" by (simp_all add: valid_utf8_ascii)
  have "json_read [] (log_line pid time) = Some (JObj [(''plugin_id'', JStr pid), (''timestamp'', JStr time)], [])"
    using assms k
    by (simp add: log_line_def read_open read_string_member fill_comma fill_close maxNestingDepth_def
        del: json_fill.simps(3))
  then show ?thesis
    by (simp add: decode_entry_def Unmarshal_def skip_ws_def decode_struct_def field_for_def
        logEntry_fields_def string_field_def)
qed

definition old_line :: string where
  "old_line = log_line ''p'' ''2024-02-29 12:00:00.123 Z''"

definition new_line :: string where
  "new_line = log_line ''p'' ''2024-02-29 13:00:01.000 +01:00''"

lemma demo_lines:
  "decode_entry old_line = Some \<lparr>le_PluginID = ''p'', le_Timestamp = ''2024-02-29 12:00:00.123 Z''\<rparr>"
  "decode_entry new_line = Some \<lparr>le_PluginID = ''p'', le_Timestamp = ''2024-02-29 13:00:01.000 +01:00''\<rparr>"
  by (simp_all add: old_line_def new_line_def decode_log_line valid_utf8_ascii)

lemma demo_times:
  "Time_Parse ''2024-02-29 12:00:00.123 Z'' = Some 1709208000123000000"
  "Time_Parse ''2024-02-29 13:00:01.000 +01:00'' = Some 1709208001000000000"
  by code_simp+

lemma demo_lines_neq [simp]: "old_line \<noteq> new_line" "new_line \<noteq> old_line" "old_line \<noteq> []" "new_line \<noteq> []"
  using demo_lines by (auto simp: old_line_def log_line_def new_line_def)

lemma demo_trim: "TrimPrefix old_line newline = old_line" "TrimPrefix new_line newline = new_line"
  by (simp_all add: old_line_def new_line_def log_line_def TrimPrefix_def CutPrefix_def HasPrefix_def newline_def)

definition demo_pages :: "int64 \<Rightarrow> string list" where
  "demo_pages page = (if page = 0 then [new_line] else if page = 1 then [old_line] else [])"

definition demo_ctl_api :: "unit ctl_api" where
  "demo_ctl_api = \<lparr>
     GetLogs = (\<lambda>c page n w. (Inr (demo_pages page), w)), GetFileJson = (\<lambda>c w. (Inr (Some True), w)),
     UploadPluginForced = (\<lambda>c b w. (None, w)), EnablePlugin = (\<lambda>c i w. (None, w)),
     DisablePlugin = (\<lambda>c i w. (None, w)), Login = (\<lambda>c u p w. (Inr ''token'', w)),
     LocalModeSocketPath = ''/var/tmp/mattermost_local.socket'', Getenv = (\<lambda>k w. ''''),
     DialUnix = (\<lambda>p w. (None, w)), OpenFile = (\<lambda>p w. (Inr ''bundle'', w)),
     WriteStdout = (\<lambda>l w. (None, w))\<rparr>"

definition demo_ctl :: "unit ctl" where
  "demo_ctl = \<lparr>remote = (), stdout = [], log_out = []\<rparr>"

lemma demo_stdout: "stdout_ok demo_ctl_api"
  by (simp add: stdout_ok_def demo_ctl_api_def)

lemma demo_fetch: "fetchLogs demo_ctl_api c page logsPerPage ''p'' 0 s = (Inr (demo_pages page), s)"
  by (simp add: fetchLogs_def on_remote_def demo_ctl_api_def demo_pages_def filterLogEntries_def
      demo_lines demo_times demo_trim)

definition demo_manifest :: "unit manifest" where
  "demo_manifest = \<lparr>m_Id = ''p'', Version = '''', ReleaseNotesURL = '''', HomepageURL = ''https://h'', m_rest = ()\<rparr>"

definition demo_manifest_api :: "(unit, (string \<times> bytes) list) manifest_api" where
  "demo_manifest_api = \<lparr>
     FindManifest = (\<lambda>d. (Inr ''plugin.json'', d)), OpenManifest = (\<lambda>p d. (Inr ''{}'', d)),
     DecodeStrict = (\<lambda>b. Inr demo_manifest), WriteFile = (\<lambda>p b d. (None, (p, b) # d)),
     MarshalIndent = (\<lambda>m i. Inr ''{}''), HasServer = (\<lambda>m. True), HasWebapp = (\<lambda>m. True),
     IsValid = (\<lambda>m. None), url_JoinPath = (\<lambda>b es. Inr (Join (b # es) ''/''))\<rparr>"

lemma demo_files: "keeps_files (demo_manifest_api\<lparr>MarshalIndent := f\<rparr>) map_of"
  by (simp add: keeps_files_def demo_manifest_api_def)

end
