(* ===== verification/Spec2Isabelle.thy ===== *)
theory Spec2Isabelle
  imports Demo_Tools
begin

text \<open>
  \<^bold>\<open>Disappearing messages for Mattermost: what this library models and proves.\<close>

  The program is a Mattermost server plugin in Go. The administrator of a channel gives it a time
  to live (TTL), over HTTP or with \<open>/disappear\<close>; new posts of the channel are entered with
  their expiry into an index table of the plugin; a scheduled job takes expired posts from the
  index and deletes their data. Three build tools belong to the repository.

  \<^bold>\<open>Parts and theories.\<close> In the order of the code, each with the file it models:
  \<^item> TTL policy (\<open>server/ttl/ttl.go\<close>): \<open>TTL_Policy\<close>. Bounds, presets, errors.
  \<^item> TTL store (\<open>server/ttl/store.go\<close>): \<open>TTL_Store\<close>. One JSON object for a channel in the plugin's
    key-value store; \<open>kvStore.Set\<close> is a compare-and-set loop, \<open>set_loop\<close>, whose concurrent runs
    are the relation \<open>race\<close> of \<open>TTL_Race\<close>.
  \<^item> TTL service (\<open>server/ttl/service.go\<close>): \<open>TTL_Service\<close>. Validation, permission, persistence.
  \<^item> Expire index (\<open>server/expiry/store.go\<close>): the contract on maps is \<open>Expire_Index\<close>, the SQL
    statements on rows are \<open>Expire_Store\<close>. \<open>Database\<close> is the database they run on.
  \<^item> Expiry service (\<open>server/expiry/service.go\<close>): \<open>Expiry_Service\<close>.
  \<^item> Hard purge (\<open>server/purge/purge.go\<close>): \<open>Purge\<close>, one transaction over four tables.
  \<^item> Configuration and purge switch (\<open>server/configuration.go\<close>, \<open>server/purger_switch.go\<close>):
    \<open>Config\<close> and \<open>Purge_Switch\<close>.
  \<^item> Sweeper (\<open>server/sweeper/sweeper.go\<close>): \<open>Sweeper\<close>.
  \<^item> HTTP API and slash command (\<open>server/api/handler.go\<close>, \<open>server/api/command.go\<close>):
    \<open>Api_Handler\<close> and \<open>Api_Command\<close>; the bytes of the responses are \<open>Api_Response\<close>.
  \<^item> The plugin's hooks (\<open>server/plugin.go\<close>, \<open>server/main.go\<close>): \<open>Plugin\<close>. Their interleavings on the nodes
    of a cluster, with restarts and changes by the server, are the relation \<open>run\<close> of \<open>Cluster\<close>;
    the interleavings of the single calls of indexing and sweeping are \<open>interleaved\<close> of
    \<open>Interleaving\<close>, those of the calls of requests and commands are \<open>serving\<close> of \<open>Requests\<close>.
  \<^item> The specification of the whole plugin on maps (\<open>spec_step\<close>, \<open>spec_run\<close>), the abstraction
    \<open>spec_of\<close> and the simulation are \<open>Refinement\<close>.
  \<^item> Log viewer and deployment tool (\<open>build/pluginctl/logs.go\<close>, \<open>build/pluginctl/main.go\<close>):
    \<open>Ctl_Logs\<close> and \<open>Pluginctl\<close>. Manifest tool (\<open>build/manifest/main.go\<close>): \<open>Manifest_Tool\<close>; what the
    literal of its TypeScript file does to the texts of a manifest is \<open>Manifest_Literal\<close>.
  \<^item> The language and its library, as far as the program uses them: \<open>Prelude\<close> (64-bit integers),
    \<open>Go_Strings\<close>, \<open>Go_Strconv\<close>, \<open>Go_Utf8\<close>, \<open>Go_Json\<close>, \<open>Go_Quote\<close>, \<open>Go_Float\<close>, \<open>Go_Time\<close>, \<open>Go_Duration\<close>,
    \<open>Go_Timestamp\<close>.
  \<^item> \<open>World\<close> is the state the parts of the plugin share, with the records of the plugin API;
    \<open>Demo\<close> and \<open>Demo_Tools\<close> hold the concrete inputs at which the properties are applied.

  \<^bold>\<open>How code became definitions.\<close> A struct is a record, an error a value of a datatype with a
  constructor for each sentinel or message, a method a function of the same name that takes and
  returns the state. A definition that has another's name in Go carries its type's or file's name
  as a prefix. The state \<open>'w world\<close> is the database (the plugin's table \<open>expire_rows\<close>, the other
  tables, and the outcomes the next calls will have: \<open>Done\<close>, \<open>Failed\<close>, or \<open>Lost\<close>, which is done but
  reported as failed), the state \<open>srv\<close> of the server, of any type, and two traces, log lines and
  WebSocket events. Interfaces of the code are records of functions. What an implementation
  promises its client is a locale, with the client's lemmas proved inside: \<open>kv_service\<close> and
  \<open>ttl_setting_store\<close> for the key-value store, \<open>ttl_reader\<close> and \<open>ttl_manager\<close> for the TTL service,
  \<open>sweep_store\<close> and \<open>expire_index\<close> for the index, \<open>purger\<close> and \<open>switched_purger\<close> for deletion,
  \<open>sweeper_ports\<close>, \<open>expiry_ports\<close> and \<open>api_ports\<close> for the clients; \<open>json_count\<close> is a count that the
  JSON reader respects. Each is interpreted on the code's own
  definitions, so the properties below speak of the code and not of the contracts.

  \<^bold>\<open>What is assumed.\<close> Of the key-value store of Mattermost only what \<open>kv_service\<close> states, its
  documented behaviour: a get returns the cell, an atomic set succeeds exactly when the cell
  still holds the old value, an error may or may not have taken effect. The in-memory store of the
  repository's tests satisfies it. All other calls of the server, of the REST client and of
  the operating system are arbitrary functions. The database executes its statements atomically
  and may fail or lose the answer at every call.

  \<^bold>\<open>What the properties say\<close>, by the ids before them:
  \<^item> C1, the purge: all or nothing. The lemmas after it say that an unknown schema makes it fail
    without any effect, and that it is safe to retry.
  \<^item> C2 to C5, the sweeper: it deletes what is due and only that, retries after a failure, hands
    posts to the server in soft mode, and drains every backlog. A lemma after C2 says that the
    entries of all other posts stay.
  \<^item> C6, end to end: a message posted in a channel with a TTL is deleted when enough ticks follow its
    expiry.
  \<^item> C7 to C12, the whole plugin along arbitrary runs: when tables are deleted from, that every
    hook is a step of the specification, and which posts can be hit, also when single calls
    interleave. C11 is a defect: a reply that extends its thread between the query and the purge
    of a sweep comes too late. C12 ties the small steps to the code. A lemma after it says how
    nodes are wired.
  \<^item> C13 to C16, settings: concurrent writers, the JSON and the set-get round trip, and the
    range that all stored settings keep.
  \<^item> C17 to C25, the API and the command: permissions, each status and its effect, the bytes of
    an answer, refusals with their texts, durations. C18 and C20 are defects: nobody checks the
    membership of a direct channel, and a large number of seconds wraps around.
  \<^item> C26 to C28, concurrent requests: what is stored and announced was permitted and asked for,
    and the steps are the handlers. C27 is a defect: the last event can announce a setting that
    has been overwritten.
  \<^item> C29 to C33, the index: refinement of a map, threads, and expiries without wrap-around. C31 shows that a reply can
    bring a thread's expiry forward.
  \<^item> C34, configuration: direct purging is opt-in.
  \<^item> C35 to C40, the build tools: the log filter and watcher (C36 is a defect), what success means for
    each command of the deployment tool, and the generated files (C40 is a defect).

  \<^bold>\<open>Bounds and fuel.\<close> The compare-and-set loop has the 20 iterations of \<open>defaultMaxRetries\<close>; C13
  shows that they suffice for 20 writers, and C28 that a request takes at most 42 steps. The loops
  over rows, batches, tags and log entries are structural; the readers of JSON, durations and
  fields come with termination proofs; the loop over log pages may run for ever and is a partial
  function (C37 says when it ends). The ticker and the clock are arguments: a list of events or
  times.

  \<^bold>\<open>Not modelled.\<close> The web app (no Go code), generated manifests, tests and CI. Within the parts:
  the texts of errors of libraries and which runes are printable (arguments), requests with
  method CONNECT, and the pages of \<open>http.ServeMux\<close> itself; the length limits of the columns of the
  plugin's table; whether the SQL driver accepts the placeholder \<open>?\<close>; contexts and deadlines,
  except as calls that fail. Hooks and ticks are atomic steps of a \<open>run\<close>; single calls interleave
  in \<open>race\<close> for the writers of settings, in \<open>serving\<close> for requests and in \<open>interleaved\<close> for
  indexing and sweeping; each of the last two takes the other as a change from outside. Routes are matched
  on the decoded path of a request. The type \<open>model.Manifest\<close> with its encoding, and \<open>url.JoinPath\<close>,
  are parameters; of a disk, C40 assumes that it keeps what is written to it (\<open>keeps_files\<close>).
\<close>

section \<open>Properties\<close>

subsection \<open>The transactional purge\<close>

definition purged :: "string list \<Rightarrow> db_tables \<Rightarrow> db_tables" where
  "purged ids tx = (\<lambda>t. case map_of footprint t of
     None \<Rightarrow> tx t | Some c \<Rightarrow> map_option (delete_rows c ids) (tx t))"

lemma wipe_purged: "wipe footprint ids tx = purged ids tx"
proof
  fix t
  show "wipe footprint ids tx t = purged ids tx t"
  proof (cases "map_of footprint t")
    case None
    then have "t \<notin> fst ` set footprint" by (simp add: map_of_eq_None_iff)
    with None show ?thesis by (simp add: purged_def wipe_outside)
  next
    case (Some c)
    then have "(t, c) \<in> set footprint" by (rule map_of_SomeD)
    then have "wipe footprint ids tx t = map_option (delete_rows c ids) (tx t)"
      by (rule wipe_inside [OF distinct_footprint])
    then show ?thesis using Some by (simp add: purged_def)
  qed
qed

text \<open>
  C1: a hard purge is all or nothing, whatever the database does to its calls. A success
  reports the size of the batch and has deleted, in every table of the footprint, exactly the
  rows of the posts of the batch; an error reports zero and has deleted either nothing or (the
  commit went through although the call failed) exactly the same rows. The expire index, and
  everything outside the database, is never touched.
\<close>

theorem purge_all_or_nothing:
  "case sqlPurger_Purge ids s of ((n, er), s') \<Rightarrow>
     (case er of
        None \<Rightarrow> n = int (length ids) \<and> tables s' = purged ids (tables s)
      | Some e \<Rightarrow> n = 0 \<and> tables s' \<in> {tables s, purged ids (tables s)})
     \<and> expire_rows s' = expire_rows s \<and> sqldb.more s' = sqldb.more s"
proof -
  obtain n er s' where p: "sqlPurger_Purge ids s = ((n, er), s')" by (metis prod.exhaust)
  show ?thesis
    using sqlPurger_wipes_or_keeps [OF p] sqlPurger_keeps_index [OF p] hard.purge_count [OF p]
    by (cases er) (auto simp: p wipe_purged)
qed

text \<open>
  On a database whose schema is not the one the purge was written for (a footprint table
  or its column is missing), a purge fails and changes nothing at all, not even the tables
  that are there: the error of one statement rolls the earlier ones back.
\<close>

lemma purge_wrong_schema:
  assumes "\<not> schema_ok footprint (tables s)" "ids \<noteq> []" "sqlPurger_Purge ids s = ((n, er), s')"
  shows "n = 0 \<and> er \<noteq> None \<and> tables s' = tables s \<and> expire_rows s' = expire_rows s"
  using sqlPurger_bad_schema [OF assms] by (simp add: same_data_def)

text \<open>
  A purge that is retried after any failure, and this time succeeds, leaves the tables as
  one successful purge would have: when the first commit had gone through unnoticed, the retry
  deletes nothing more.
\<close>

lemma purge_retry:
  assumes "sqlPurger_Purge ids s = ((n, Some e), s1)" "sqlPurger_Purge ids s1 = ((m, None), s2)"
  shows "tables s2 = purged ids (tables s) \<and> m = int (length ids)"
  using sqlPurger_wipes_or_keeps [OF assms(1)] sqlPurger_wipes_or_keeps [OF assms(2)]
  by (auto simp: wipe_idem simp flip: wipe_purged)

subsection \<open>The sweeper\<close>

text \<open>
  C2: a tick of the sweeper never deletes data that is not due. Whatever the configuration,
  the license, the server version, the database and the API do, a post whose rows in the
  footprint tables change has an entry in the expire index that had expired at the time of
  the tick.
\<close>

theorem sweep_only_expired:
  assumes "index_ok s"
    and "post_rows (Sweeper_Run sw sqlStore
      (configPurger_Purge holder sqlPurger_Purge (server_of del lic ver)) LogError now s) p \<noteq> post_rows s p"
  shows "\<exists>e. index_of s p = Some e \<and> sint (ExpireAt e) \<le> sint now"
  using prod_sweep.run_only_expired [OF assms] .

theorem sweep_only_expired_witness:
  "post_rows (Sweeper_Run \<lparr>batchSize = 1\<rparr> sqlStore demo_purge LogError 500 (demo [])) ''p1''
     \<noteq> post_rows (demo []) ''p1''
   \<and> (\<exists>e. index_of (demo []) ''p1'' = Some e \<and> sint (ExpireAt e) \<le> sint (500 :: int64))"
proof -
  have ch: "post_rows (Sweeper_Run \<lparr>batchSize = 1\<rparr> sqlStore demo_purge LogError 500 (demo [])) ''p1''
      \<noteq> post_rows (demo []) ''p1''"
    unfolding demo_tick by (subst post_rows_wipe [of _ "[''p1'']" "demo []"])
      (use demo_rows_p1 in \<open>simp_all add: demo_def\<close>)
  then show ?thesis
    using sweep_only_expired [OF demo_ok] unfolding demo_purge_def by blast
qed

text \<open>
  A tick keeps the entry of every post that has not expired, and keeps the index
  consistent (one row for a post).
\<close>

lemma sweep_keeps_live:
  assumes "index_ok s" "index_of s p = Some e" "sint now < sint (ExpireAt e)"
  shows "let s' = Sweeper_Run sw sqlStore
      (configPurger_Purge holder sqlPurger_Purge (server_of del lic ver)) LogError now s
    in index_of s' p = Some e \<and> index_ok s'"
  unfolding Let_def
  using prod_sweep.run_keeps_live [OF assms(1-3)] prod_sweep.run_ok [OF assms(1)] by blast

text \<open>
  C3: when the purge of a batch fails or is skipped, the index keeps every entry, so the next
  tick finds the same posts again; the last line of the log says how many posts and why.
\<close>

theorem sweep_failure_retries:
  assumes "index_ok s" "sqlStore_GetExpired now (batchSize sw) s = (Inr es, s1)"
    and "configPurger_Purge holder sqlPurger_Purge (server_of del lic ver) (map PostID es) s1
      = ((n, Some err), s2)"
  defines "s' \<equiv> Sweeper_Run sw sqlStore
      (configPurger_Purge holder sqlPurger_Purge (server_of del lic ver)) LogError now s"
  shows "index_of s' = index_of s \<and> logs s' = logs s2
    @ [Error msg_purge_failed [(''n'', LogInt (int (length es))), (''err'', LogErr (PurgeErr err))]]"
proof -
  have "es \<noteq> []" using assms(3) by (auto simp: configPurger_Purge_def)
  then have "s' = LogError msg_purge_failed
      [(''n'', LogInt (int (length es))), (''err'', LogErr (PurgeErr err))] s2"
    using assms(2,3) by (simp add: s'_def Sweeper_Run_def)
  moreover have "index_of s' = index_of s"
    unfolding s'_def using prod_sweep.run_failed_keeps [of s now sw es s1 holder del lic ver n err s2] assms(1-3) by simp
  ultimately show ?thesis by simp
qed

theorem sweep_failure_retries_witness:
  "index_of (Sweeper_Run \<lparr>batchSize = 1\<rparr> sqlStore demo_purge LogError 500 (demo [Done, Failed]))
     = index_of (demo [])"
proof -
  have p: "demo_purge (map PostID [demo_entry ''p1'' 100]) (demo [Failed])
      = ((0, Some (PurgeBegin DriverError)), demo [])"
    unfolding demo_purge_def using demo_hard
    by (subst configPurger_hard)
      (simp_all add: demo_entry_def sqlPurger_Purge_def purge_inClause_def next_outcome_def demo_def)
  show ?thesis
    using sweep_failure_retries [OF demo_ok demo_GetExpired_then p [unfolded demo_purge_def]]
    unfolding demo_purge_def by (simp add: demo_index fun_eq_iff)
qed

text \<open>
  C4: the fallback. With hard purge disabled, or on a licensed server, a tick on a healthy
  database hands each post of its batch to the server's own deletion, once and the oldest
  first, logs each refusal, and deletes no row itself. Then it drops the entries of the whole
  batch: a post whose deletion was refused is never tried again.
\<close>

theorem sweep_soft_deletes:
  fixes s :: "'w world" and now :: int64 and ver :: "'w \<Rightarrow> string"
    and del :: "string \<Rightarrow> 'w \<Rightarrow> app_error option \<times> 'w"
  assumes "index_ok s" "expire_rows s \<noteq> None" "outcomes s = []" "0 < sint (batchSize sw)"
    and "\<not> EnablePurge (conf holder) \<or> lic (srv s)"
  shows "let s' = Sweeper_Run sw sqlStore
      (configPurger_Purge holder sqlPurger_Purge (server_of del lic ver)) LogError now s
    in \<exists>es rs. oldest_batch now (nat (sint (batchSize sw))) (index_of s) es
      \<and> delete_posts del (map PostID es) (srv s) = (rs, srv s')
      \<and> index_of s' = map_remove (map PostID es) (index_of s)
      \<and> tables s' = tables s \<and> logs s' = logs s @ soft_log (map PostID es) rs"
  unfolding Let_def by (rule soft_tick [where s = s and lic = lic and del = del and ver = ver, OF assms])

theorem sweep_soft_deletes_witness:
  "\<exists>es rs. delete_posts (\<lambda>i w. (Some ''no'', w)) (map PostID es) (srv (demo [])) = (rs, srv (demo []))
    \<and> oldest_batch 500 1 (index_of (demo [])) es"
proof -
  have "0 < sint (batchSize \<lparr>batchSize = 1\<rparr>)" by simp
  from sweep_soft_deletes [where now = 500 and holder = demo_holder and lic = "\<lambda>w. True"
      and del = "\<lambda>i w. (Some ''no'', w)" and ver = "\<lambda>w. ''10.1''", OF demo_ok _ _ this, of "[]"]
  obtain es rs w where "delete_posts (\<lambda>i w. (Some ''no'', w)) (map PostID es) (srv (demo [])) = (rs, w)"
    "oldest_batch 500 1 (index_of (demo [])) es"
    by (auto simp: demo_def Let_def)
  moreover have "snd (delete_posts (\<lambda>i w. (Some ''no'', w)) ids v) = v" for ids and v :: fakeKV
    by (induction ids) (simp_all add: case_prod_beta Let_def)
  ultimately show ?thesis by (metis snd_conv)
qed

text \<open>
  C5: the sweeper makes progress. On a healthy database, with hard purge enabled and allowed,
  enough ticks (the size of the backlog divided by the batch size) at or after \<open>t0\<close> clear the
  backlog of posts that had expired at \<open>t0\<close>, leave no row of these posts in any footprint
  table, and log no error. Posts that expire meanwhile cannot starve the older ones.
\<close>

theorem sweep_drains:
  fixes s :: "'w world"
  assumes "healthy s" "hard_mode holder (lic (srv s)) (ver (srv s))" "0 < sint (batchSize sw)"
    and "\<And>t. t \<in> set ts \<Longrightarrow> sint t0 \<le> sint t"
    and "card (backlog t0 (index_of s)) \<le> length ts * nat (sint (batchSize sw))"
    and "p \<in> backlog t0 (index_of s)"
  shows "let s' = Sweeper_ticks sw sqlStore
      (configPurger_Purge holder sqlPurger_Purge (server_of del lic ver)) LogError ts s
    in backlog t0 (index_of s') = {} \<and> post_rows s' p = [[], [], [], []] \<and> logs s' = logs s"
  using ticks_drain [where s = s and lic = lic and ver = ver and del = del and ts = ts and ?t0.0 = t0,
      OF assms(1-5)] assms(6)
  by (simp add: Let_def)

theorem sweep_drains_witness:
  "''p1'' \<in> backlog 500 (index_of (demo []))
   \<and> post_rows (Sweeper_ticks \<lparr>batchSize = 1\<rparr> sqlStore demo_purge LogError [500] (demo [])) ''p1''
     = [[], [], [], []]"
proof -
  have b: "backlog 500 (index_of (demo [])) = {''p1''}"
    by (auto simp: backlog_def demo_index demo_entry_def split: if_splits)
  then show ?thesis
    using sweep_drains [of "demo []" demo_holder "\<lambda>w. False" "\<lambda>w. ''10.1''" "\<lparr>batchSize = 1\<rparr>" "[500]"
        500 "''p1''" "\<lambda>i w. (None, w)"] demo_healthy demo_hard
    unfolding demo_purge_def by (simp add: Let_def)
qed

subsection \<open>The whole plugin\<close>

text \<open>
  C6: messages disappear. A post that is announced in a channel with a TTL, while the database
  works, is erased from every footprint table and has no due entry left after enough ticks, on
  any node, at or after its creation time plus the TTL (one tick for every 500 due posts), and
  nothing is logged as an error, provided hard purge is enabled and allowed.
\<close>

theorem message_disappears:
  fixes s :: "'w world"
  assumes "kv_service (api_kv api) cells other" "healthy s" "expiryService_set p" "Post_Id po \<noteq> ''''"
    and "Service_GetTTL (the_store api) (Post_ChannelId po) s = (Inr (d, True), s1)"
    and "sweeperJob p' = JobRunning" "plugin_sweeper p' = Some (Sweeper_New 500)"
    and "hard_mode (cfg p') (api_license api (srv s1)) (api_version api (srv s1))"
    and "\<And>t. t \<in> set ts \<Longrightarrow> sint (Post_CreateAt po + Milliseconds d) \<le> sint t"
    and "s2 = MessageHasBeenPosted api now (Some po) p s"
    and "card {q. \<exists>e. index_of s2 q = Some e \<and> sint (ExpireAt e) \<le> sint (Post_CreateAt po + Milliseconds d)}
      \<le> length ts * 500"
  shows "let s3 = fold (\<lambda>t. sweeper_tick api t p') ts s2 in
    post_rows s3 (Post_Id po) = [[], [], [], []] \<and> logs s3 = logs s
    \<and> (\<forall>e. index_of s3 (Post_Id po) \<noteq> Some e \<or> sint (Post_CreateAt po + Milliseconds d) < sint (ExpireAt e))"
proof -
  have w: "plugin_world api cells other"
    using assms(1) by (simp add: plugin_world_def world_kv_def)
  have n: "0 < sint (batchSize (Sweeper_New 500))" "nat (sint (batchSize (Sweeper_New 500))) = 500"
    by (simp_all add: Sweeper_New_def)
  have b: "card (backlog (expiry d po) (index_of s2)) \<le> length ts * nat (sint (batchSize (Sweeper_New 500)))"
    using assms(11) n(2) by (simp add: backlog_def expiry_def)
  have t: "sint (expiry d po) \<le> sint t" if "t \<in> set ts" for t using assms(9) that by (simp add: expiry_def)
  let ?s3 = "fold (\<lambda>t. sweeper_tick api t p') ts s2"
  have "post_rows ?s3 (Post_Id po) = [[], [], [], []] \<and> Post_Id po \<notin> backlog (expiry d po) (index_of ?s3)
      \<and> logs ?s3 = logs s"
    by (rule plugin_world.post_disappears [OF w assms(2-7) n(1) assms(8) _ assms(10) b]) (rule t)
  then show ?thesis by (simp add: Let_def backlog_def expiry_def not_le)
qed

theorem message_disappears_witness:
  "post_rows (sweeper_tick demo_api 60040 demo_node (fresh (Some [demo_indexed]) [])) ''p1'' = [[], [], [], []]"
proof -
  have h: "healthy (fresh (Some []) [])" using demo_schema by (simp add: healthy_def fresh_def index_ok_def)
  have g: "Service_GetTTL (the_store demo_api) (Post_ChannelId demo_post) (fresh (Some []) [])
      = (Inr (60 * Second, True), fresh (Some []) [])"
    using fresh_ttl [of "Some []" "[]"] by (simp add: demo_post_def)
  have n: "expiryService_set demo_node" "Post_Id demo_post \<noteq> ''''" "sweeperJob demo_node = JobRunning"
    "plugin_sweeper demo_node = Some (Sweeper_New 500)" "cfg demo_node = demo_holder"
    by (simp_all add: demo_node_def demo_post_def Sweeper_New_def)
  have m: "hard_mode (cfg demo_node) (api_license demo_api (srv (fresh (Some []) []))) (api_version demo_api (srv (fresh (Some []) [])))"
    using demo_hard n(5) by (simp add: demo_api_def)
  have x: "sint (Post_CreateAt demo_post + Milliseconds (60 * Second)) = 60040"
    by (simp add: demo_post_def Milliseconds_def go_div_def signed_divide_int_def)
  have p: "fresh (Some [demo_indexed]) [] = MessageHasBeenPosted demo_api 50 (Some demo_post) demo_node (fresh (Some []) [])"
    by (simp add: fresh_posted)
  let ?due = "{q. \<exists>e. index_of (fresh (Some [demo_indexed]) []) q = Some e
      \<and> sint (ExpireAt e) \<le> sint (Post_CreateAt demo_post + Milliseconds (60 * Second))}"
  have "?due \<subseteq> {''p1''}"
    by (auto simp: fresh_def index_of_def rows_map_def getByPostSQL_def demo_indexed_def split: if_splits)
  then have "card ?due \<le> card {''p1''}" by (rule card_mono [rotated]) simp
  then have c: "card ?due \<le> length [60040 :: int64] * 500" by simp
  have t: "sint (Post_CreateAt demo_post + Milliseconds (60 * Second)) \<le> sint t" if "t \<in> set [60040 :: int64]" for t
    using that unfolding x by simp
  from message_disappears [OF demo_kv h n(1,2) g n(3,4) m t p c] show ?thesis
    by (simp add: Let_def demo_post_def)
qed

text \<open>
  C7: rows of Mattermost's own tables are deleted directly by the scheduled job only, and only
  when the System Console enabled it, the server is not licensed, its version is on the
  allowlist of that moment, and the tables have the schema the purge was written for. In all
  other cases a tick leaves every table as it is.
\<close>

theorem hard_purge_guard:
  fixes s :: "'w world"
  assumes "index_ok s" "tables (sweeper_tick api now p s) \<noteq> tables s"
  shows "EnablePurge (conf (cfg p)) \<and> \<not> api_license api (srv s)
    \<and> (\<exists>a\<in>set (PurgeSchemaAllowlist (Some (conf (cfg p)))). \<exists>r. api_version api (srv s) = a @ r)
    \<and> schema_ok footprint (tables s) \<and> sweeperJob p = JobRunning"
proof -
  obtain sw where sw: "sweeperJob p = JobRunning" "plugin_sweeper p = Some sw"
    using assms(2) by (auto simp: sweeper_tick_def split: sweeper_job.splits option.splits)
  then have "hard_mode (cfg p) (api_license api (srv s)) (api_version api (srv s)) \<and> schema_ok footprint (tables s)"
    using Sweeper_Run_tables [OF assms(1), of sw "cfg p" "api_DeletePost api" "api_license api" "api_version api" now]
      assms(2) by (simp add: sweeper_tick_def the_server_def)
  then show ?thesis
    using sw(1) by (auto simp: hard_mode_def purgeDecision_hard_iff versionAllowed_iff holder_get_def)
qed

theorem hard_purge_guard_witness:
  "tables (sweeper_tick demo_api 500 demo_plugin (demo [])) \<noteq> demo_tables
   \<and> EnablePurge (conf (cfg demo_plugin)) \<and> \<not> api_license demo_api (srv (demo []))"
proof -
  have ne: "tables (sweeper_tick demo_api 500 demo_plugin (demo [])) \<noteq> tables (demo [])"
    using demo_rows_changed by (auto dest: post_rows_tables)
  from hard_purge_guard [OF demo_ok ne] ne show ?thesis by (simp add: demo_def)
qed

text \<open>
  C8: the plugin does what its specification says. The specification knows settings, an index
  and the rows of posts as maps; its steps are: a user who may manage a channel sets a TTL of a
  minute to a year or clears it, a new post is entered and a reply moves its thread, and a tick
  takes the 500 oldest expired entries and erases their posts, their entries, both or none.
  Along every run of the plugin on a cluster, whatever fails, every hook on every node is one
  such step or changes nothing, and the run is a run of the specification.
\<close>

theorem plugin_refines_spec:
  fixes s0 :: "'w world"
  assumes "kv_service (api_kv api) cells other" "quiet api cells"
    and "plugin_run api cells s0 P s" "index_ok s0"
    and "hook api ev (P i) s = (p', s')" "user_ok ev"
  shows "spec_run (spec_of cells s0) (spec_of cells s)
    \<and> spec_step (\<lambda>u ch. may_manage (perm_of (api_perm api)) u ch s) ev (spec_of cells s) (spec_of cells s')"
proof -
  have w: "plugin_world api cells other"
    using assms(1) by (simp add: plugin_world_def world_kv_def)
  have r: "spec_run (spec_of cells s0) (spec_of cells s) \<and> index_ok s"
    by (rule plugin_world.run_refines [OF w assms(3,2,4)])
  have "wired (P i)" using plugin_run_run [OF assms(3)] run_wired by blast
  with r show ?thesis using plugin_world.hook_refines [OF w assms(5,2) _ _ assms(6)] by blast
qed

theorem plugin_refines_spec_witness:
  "spec_step (\<lambda>u ch. may_manage (perm_of demo_perm) u ch (fresh (Some []) [Info msg_activated []]))
     (Posted 50 (Some demo_post)) (spec_of fk_data (fresh (Some []) [Info msg_activated []]))
     (spec_of fk_data (fresh (Some [demo_indexed]) [Info msg_activated []]))
   \<and> index_of (fresh (Some [demo_indexed]) [Info msg_activated []]) ''p1'' = Some demo_indexed"
proof -
  let ?s = "fresh (Some []) [Info msg_activated []]"
  have ok: "index_ok (fresh None [])" by (simp add: fresh_def index_ok_def)
  have h: "hook demo_api (Posted 50 (Some demo_post)) (((\<lambda>_. new_plugin) (0 := demo_node)) 0) ?s
      = (demo_node, fresh (Some [demo_indexed]) [Info msg_activated []])"
    by (simp add: fresh_posted)
  have "index_of (fresh (Some [demo_indexed]) [Info msg_activated []]) ''p1'' = Some demo_indexed"
    by (simp add: fresh_def index_of_def rows_map_def getByPostSQL_def demo_indexed_def)
  moreover have "api_perm demo_api = demo_perm" by (simp add: demo_api_def)
  ultimately show ?thesis
    using plugin_refines_spec [OF demo_kv demo_quiet demo_plugin_run ok h] by (simp add: user_ok_def)
qed

text \<open>
  C9: the plugin never deletes a post it was not told about, nor too early. In every run of a
  cluster that starts with an empty expire index, however hooks, ticks, restarts and changes
  by the server interleave: when a tick changes the rows of a post, the post was announced to
  the plugin while its channel had a TTL, and the expiry of some post of the same thread (its
  creation time plus the TTL its channel had then) had passed.
\<close>

theorem run_deletes_due_posts_only:
  fixes s0 :: "'w world"
  assumes "kv_service (api_kv api) cells other"
    and "run api s0 h P s" "index_ok s0" "index_of s0 = Map.empty"
    and "post_rows (sweeper_tick api now (P i) s) q \<noteq> post_rows s q"
  shows "(\<exists>t po s1 d. (Posted t (Some po), s1) \<in> set h \<and> Post_Id po = q
       \<and> world_ttl cells s1 (Post_ChannelId po) = Some d)
    \<and> (\<exists>e t po s1 d. index_of s q = Some e \<and> (Posted t (Some po), s1) \<in> set h
       \<and> threadRoot po = RootID e \<and> world_ttl cells s1 (Post_ChannelId po) = Some d
       \<and> sint (Post_CreateAt po + Milliseconds d) \<le> sint now)"
proof -
  have w: "plugin_world api cells other"
    using assms(1) by (simp add: plugin_world_def world_kv_def)
  note inv = plugin_world.run_index [OF w assms(2-4)]
  obtain sw where "sweeper_tick api now (P i) s = Sweeper_Run sw sqlStore
      (configPurger_Purge (cfg (P i)) sqlPurger_Purge (the_server api)) LogError now s"
    using assms(5) by (auto simp: sweeper_tick_def split: sweeper_job.splits option.splits)
  then obtain e where e: "index_of s q = Some e" "sint (ExpireAt e) \<le> sint now"
    using prod_sweep.run_only_expired [of s sw "cfg (P i)" "api_DeletePost api" "api_license api"
        "api_version api" now q] inv assms(5) by (auto simp: the_server_def)
  then have "plugin_world.accounted cells h q e" using inv by blast
  then show ?thesis
    using e by (simp add: plugin_world.accounted_def [OF w] expiry_def) metis
qed

theorem run_deletes_due_posts_only_witness:
  "post_rows (sweeper_tick demo_api 60040 demo_node (fresh (Some [demo_indexed]) [Info msg_activated []])) ''p1''
     \<noteq> post_rows (fresh (Some [demo_indexed]) [Info msg_activated []]) ''p1''
   \<and> (\<exists>t po s1. (Posted t (Some po), s1) \<in> set
        [(Posted 50 (Some demo_post), fresh (Some []) [Info msg_activated []]), (Activate, fresh None [])]
      \<and> Post_Id po = ''p1'')"
proof -
  have kv: "kv_service (api_kv demo_api) fk_data (\<lambda>f. ())"
    using fake.kv_service_axioms by (simp add: demo_api_def)
  have 0: "index_ok (fresh None [])" "index_of (fresh None []) = Map.empty"
    by (simp_all add: fresh_def index_ok_def index_of_def)
  have "post_rows (sweeper_tick demo_api 60040 (((\<lambda>_. new_plugin) (0 := demo_node)) 0)
      (fresh (Some [demo_indexed]) [Info msg_activated []])) ''p1''
      \<noteq> post_rows (fresh (Some [demo_indexed]) [Info msg_activated []]) ''p1''"
    using fresh_tick by simp
  from run_deletes_due_posts_only [OF kv fresh_run 0 this] show ?thesis using fresh_tick by blast
qed

text \<open>
  C10: the same holds when hooks and ticks are not atomic. In every interleaving of the single
  calls of indexing posts and of sweeping on all nodes, in which nodes stop at any point and
  everything outside the index changes at any time: a call that changes the rows of a post is
  the purge of a sweep whose query had found the post due, and the entry it found came from a
  post that was announced, with the expiry of a post of its thread.
\<close>

theorem interleaved_deletes_due_posts:
  fixes s0 :: "'w world"
  assumes "kv_service (api_kv api) cells other"
    and "interleaved api s0 h T s" "index_ok s0" "index_of s0 = Map.empty"
    and "task_step api holder (T i) s = (t', s')" "post_rows s' q \<noteq> post_rows s q"
  shows "\<exists>now ids sw s1 e. T i = Purging now ids \<and> q \<in> set ids
    \<and> (Querying now sw, s1) \<in> set h \<and> index_of s1 q = Some e \<and> sint (ExpireAt e) \<le> sint now
    \<and> (\<exists>t po s2 d. (Lookup t po, s2) \<in> set h \<and> Post_Id po = q
         \<and> world_ttl cells s2 (Post_ChannelId po) = Some d)
    \<and> (\<exists>t po s2 d. (Lookup t po, s2) \<in> set h \<and> threadRoot po = RootID e
         \<and> world_ttl cells s2 (Post_ChannelId po) = Some d \<and> ExpireAt e = Post_CreateAt po + Milliseconds d)"
proof -
  have w: "plugin_world api cells other"
    using assms(1) by (simp add: plugin_world_def world_kv_def)
  obtain now ids where T: "T i = Purging now ids" "q \<in> set ids" and d: "was_due cells h now q"
    using plugin_world.interleaved_deletes [OF w assms(2-6)] by blast
  then obtain sw s1 e where e: "(Querying now sw, s1) \<in> set h" "index_of s1 q = Some e"
    "sint (ExpireAt e) \<le> sint now" "announced cells h q e"
    unfolding was_due_def by blast
  show ?thesis
    by (rule exI [of _ now], rule exI [of _ ids], rule exI [of _ sw], rule exI [of _ s1], rule exI [of _ e])
      (use T e in \<open>auto simp: announced_def looked_up_def expiry_def\<close>)
qed

theorem interleaved_deletes_due_posts_witness:
  "\<exists>h T s'. interleaved demo_api (fresh (Some []) []) h T extended
     \<and> task_step demo_api demo_holder (T 1) extended = (Pruning [''p1''], s')
     \<and> (\<exists>now sw s1 e. (Querying now sw, s1) \<in> set h \<and> index_of s1 ''p1'' = Some e \<and> sint (ExpireAt e) \<le> sint now)"
proof -
  obtain h T where r: "interleaved demo_api (fresh (Some []) []) h T extended" "T 1 = Purging 60040 [''p1'']"
    using demo_crossing by blast
  obtain s' where p: "task_step demo_api demo_holder (T 1) extended = (Pruning [''p1''], s')"
      "post_rows s' ''p1'' \<noteq> post_rows extended ''p1''"
    using extended_purge unfolding r(2) by blast
  have "index_ok (fresh (Some []) [])" "index_of (fresh (Some []) []) = Map.empty"
    by (simp_all add: fresh_def index_ok_def index_of_def rows_map_def getByPostSQL_def fun_eq_iff)
  from interleaved_deletes_due_posts [OF demo_kv r(1) this p] show ?thesis using r(1) p(1) by blast
qed

text \<open>
  C11: but a purge can come too late to be right. Between the query of a sweep and its purge
  another node may index a reply that moves the expiry of the thread past the time of the
  sweep; the pending purge still deletes the rows of the thread's root and its entry. No call
  fails in this interleaving.
\<close>

theorem thread_extension_can_be_lost:
  "\<exists>h T s s' e. interleaved demo_api (fresh (Some []) []) h T s
    \<and> T 1 = Purging 60040 [''p1''] \<and> outcomes s = [] \<and> logs s = []
    \<and> index_of s ''p1'' = Some e \<and> 60040 < sint (ExpireAt e)
    \<and> post_rows s ''p1'' \<noteq> [[], [], [], []]
    \<and> (solo demo_api demo_holder ^^ 2) (T 1, s) = (Idle, s')
    \<and> post_rows s' ''p1'' = [[], [], [], []] \<and> index_of s' ''p1'' = None"
proof -
  obtain h T where r: "interleaved demo_api (fresh (Some []) []) h T extended" "T 1 = Purging 60040 [''p1'']"
    using demo_crossing by blast
  have m: "hard_mode demo_holder (api_license demo_api (srv extended)) (api_version demo_api (srv extended))"
    using demo_hard by (simp add: demo_api_def)
  obtain s' where "(solo demo_api demo_holder ^^ 2) (T 1, extended) = (Idle, s')"
    "post_rows s' ''p1'' = [[], [], [], []]" "index_of s' ''p1'' = None"
    using pending_purge [OF extended_facts(1) m, of "''p1''" "[''p1'']" 60040] r(2) by auto
  then show ?thesis using r extended_facts
    by (intro exI [of _ h] exI [of _ T] exI [of _ extended] exI [of _ s']) (simp add: extended_def fresh_def)
qed

text \<open>
  C12: the small steps of the interleavings are the code. A task that is left alone for its
  three calls computes what a tick of the sweeper, and what the hook for a new post, compute in
  one go; a writer that runs alone, two steps for each iteration, computes exactly the result
  and the state of \<open>kvStore.Set\<close>; whatever the database, the server and the key-value store
  answer.
\<close>

theorem steps_are_the_code:
  "(solo api holder ^^ 3) (Querying now sw, s)
     = (Idle, Sweeper_Run sw sqlStore (configPurger_Purge holder sqlPurger_Purge (the_server api)) LogError now s)
   \<and> (expiryService_set p \<and> Post_Id po \<noteq> '''' \<longrightarrow>
       (solo api holder ^^ 3) (Lookup now po, s) = (Idle, MessageHasBeenPosted api now (Some po) p s))
   \<and> writer_steps (2 * retries) kv ch (marshal_TTLSetting t) (enter retries) s2
       = (case kvStore_Set NewKVStore kv ch t s2 of (er, s') \<Rightarrow> (Finished er, s'))"
proof (intro conjI impI)
  show "(solo api holder ^^ 3) (Querying now sw, s)
     = (Idle, Sweeper_Run sw sqlStore (configPurger_Purge holder sqlPurger_Purge (the_server api)) LogError now s)"
    by (rule solo_sweep)
  show "(solo api holder ^^ 3) (Lookup now po, s) = (Idle, MessageHasBeenPosted api now (Some po) p s)"
    if "expiryService_set p \<and> Post_Id po \<noteq> ''''"
    using that solo_posted by blast
  show "writer_steps (2 * retries) kv ch (marshal_TTLSetting t) (enter retries) s2
       = (case kvStore_Set NewKVStore kv ch t s2 of (er, s') \<Rightarrow> (Finished er, s'))"
    using set_loop_steps [of retries kv ch "marshal_TTLSetting t" s2]
    by (simp add: kvStore_Set_def retries_def)
qed

theorem steps_are_the_code_witness:
  "(solo demo_api demo_holder ^^ 3) (Lookup 50 demo_post, fresh (Some []) []) = (Idle, fresh (Some [demo_indexed]) [])"
  using steps_are_the_code [of demo_api demo_holder 50 "Sweeper_New 500" "fresh (Some []) []" demo_node demo_post
      fakeKV_api "''ch''" demo_setting "\<lparr>fk_data = Map.empty\<rparr>"]
    fresh_posted [of "[]"] by (simp add: demo_node_def demo_post_def)

text \<open>
  On every node and at every moment of a run, the scheduled job exists only if the expire
  index, the TTL service, the expiry service and the purger were all set up, and it sweeps in
  batches of 500; the API handler is set exactly when the TTL service is.
\<close>

lemma run_nodes_wired:
  assumes "run api s0 h P s"
  shows "(if sweeperJob (P i) = NoJob then True
     else expiryService_set (P i) \<and> expireStore_set (P i) \<and> ttlService_set (P i) \<and> purger_set (P i)
       \<and> plugin_sweeper (P i) = Some \<lparr>batchSize = 500\<rparr>)
    \<and> apiHandler_set (P i) = ttlService_set (P i)"
  using run_wired [OF assms, of i] by (auto simp: wired_def Sweeper_New_def)

subsection \<open>TTL settings\<close>

text \<open>
  C13: the compare-and-set loop of \<open>kvStore.Set\<close> is fair enough for 20 writers. When at most 20
  calls of \<open>Set\<close> for one channel run concurrently, their key-value calls interleaved in any
  order, none of them ends in \<open>ErrTooManyRetries\<close>, however long the others are delayed.
\<close>

theorem set_race_no_give_up:
  assumes "kv_service kv cells other" "race kv ch vals N s0 W s" "N \<le> 20"
  shows "W i \<noteq> Finished (Some ErrTooManyRetries)"
  using kv_service.race_no_give_up [OF assms] .

theorem set_race_no_give_up_witness:
  "\<exists>W s. race fakeKV_api ''ch'' (\<lambda>i. [digit i]) 2 \<lparr>fk_data = Map.empty\<rparr> W s
     \<and> W 0 = Reading 19 \<and> W 1 = Finished None \<and> W 0 \<noteq> Finished (Some ErrTooManyRetries)"
proof -
  from demo_race obtain W s where r: "race fakeKV_api ''ch'' (\<lambda>i. [digit i]) 2 \<lparr>fk_data = Map.empty\<rparr> W s"
    and w: "W 0 = Reading 19" "W 1 = Finished None" by blast
  have "W 0 \<noteq> Finished (Some ErrTooManyRetries)"
    by (rule set_race_no_give_up [OF fake.kv_service_axioms r]) simp
  then show ?thesis using r w by blast
qed

text \<open>
  Concurrent sets are serialised. As soon as one of them has reported success, the store
  holds the whole value of one writer whose write took effect, at the channel's key, and every
  other key is as it was: no write is torn, and no success is lost to a writer that failed.
\<close>

lemma set_race_survivor:
  assumes "kv_service kv cells other" "race kv ch vals N s0 W s" "i < N" "W i = Finished None"
  shows "\<exists>j<N. (W j = Finished None \<or> (\<exists>c e. W j = Finished (Some (ErrKVSet c e))))
    \<and> cells s = (cells s0)(kvKey ch \<mapsto> vals j) \<and> other s = other s0"
  using kv_service.race_survivor [OF assms] kv_service.race_inv_holds [OF assms(1,2)]
  by (auto simp: committed_def kv_service.race_inv_def [OF assms(1)])

text \<open>
  A store that answers every compare-and-set with a conflict makes \<open>Set\<close> give up with
  \<open>ErrTooManyRetries\<close> after exactly the 20 attempts of the configuration, each a get and a set.
\<close>

lemma set_gives_up_after_20:
  assumes "\<And>k s. KVGet kv k s = (Inr None, get s)"
    and "\<And>k v opts s. KVSetWithOptions kv k v opts s = (Inr False, put s)"
  shows "kvStore_Set NewKVStore kv ch t s = (Some ErrTooManyRetries, ((put \<circ> get) ^^ 20) s)"
proof -
  have "set_loop n kv ch v s = (Some ErrTooManyRetries, ((put \<circ> get) ^^ n) s)" for n v s
    by (induction n arbitrary: s) (simp_all add: assms funpow_Suc_right del: funpow.simps(2))
  moreover have "nat (sint (maxRetries NewKVStore)) = 20"
    by (simp add: NewKVStore_def defaultMaxRetries_def)
  ultimately show ?thesis by (simp only: kvStore_Set_def)
qed

text \<open>
  C14: what is stored is what is read back. The JSON of a setting whose user id is valid UTF-8
  decodes to the same setting, with every field, whatever characters the id holds and whatever
  the numbers are.
\<close>

theorem setting_json_roundtrip:
  assumes "valid_utf8 (SetBy t)"
  shows "unmarshal_TTLSetting (marshal_TTLSetting t) = Some t"
  using unmarshal_marshal [OF assms] .

theorem setting_json_roundtrip_witness:
  "unmarshal_TTLSetting (marshal_TTLSetting \<lparr>DurationSeconds = - 5, SetBy = [CHR 0x22, CHR ''<''], SetAt = 0\<rparr>)
     = Some \<lparr>DurationSeconds = - 5, SetBy = [CHR 0x22, CHR ''<''], SetAt = 0\<rparr>"
  by (rule setting_json_roundtrip) (simp add: valid_utf8_ascii)

text \<open>
  C15: a TTL that \<open>SetTTL\<close> has accepted is the one \<open>GetTTL\<close> returns. The duration was valid, the
  actor may manage the channel, and a later read that does not fail returns the duration cut
  to whole seconds (or, for fractions just below a second, rounded up): again a valid TTL, and
  the same duration when it was a whole number of seconds.
\<close>

theorem set_then_get_ttl:
  assumes "kv_service kv cells other"
    and "Service_SetTTL (kvStore_api NewKVStore kv) perm actor ch d at s = (None, s1)"
    and "valid_utf8 actor"
    and "Service_GetTTL (kvStore_api NewKVStore kv) ch s1 = (Inr (d', b), s2)"
  shows "b \<and> ValidateTTL d = None \<and> may_manage perm actor ch s \<and> ValidateTTL d' = None
    \<and> sint d' \<in> {sint d div 1000000000 * 1000000000, sint d div 1000000000 * 1000000000 + 1000000000}
    \<and> (sint d mod 1000000000 = 0 \<longrightarrow> d' = d)"
proof -
  let ?st = "kvStore_api NewKVStore kv" and ?t = "\<lparr>DurationSeconds = int64_Seconds d, SetBy = actor, SetAt = at\<rparr>"
  have v: "ValidateTTL d = None" and m: "may_manage perm actor ch s" and st: "st_Set ?st ch ?t s = (None, s1)"
    using assms(2) by (auto simp: Service_SetTTL_eq checkCanManage_None_iff split: if_splits)
  obtain r s3 where g: "st_Get ?st ch s1 = (r, s3)" by (cases "st_Get ?st ch s1")
  then obtain w where w: "r = Inr w" using assms(4) by (auto simp: Service_GetTTL_def split: sum.splits)
  have "w = Some ?t"
    using ttl_setting_store.set_then_get [OF kv_service.kvStore_implements [OF assms(1)] st _ g [unfolded w]]
      assms(3) by simp
  then have "d' = int64_Seconds d * Second" "b"
    using assms(4) g w by (auto simp: Service_GetTTL_def)
  then show ?thesis using v m valid_TTL_whole [OF v] by simp
qed

theorem set_then_get_ttl_witness:
  "\<exists>s1 d'. Service_SetTTL (kvStore_api NewKVStore fakeKV_api) demo_perm ''admin'' ''ch'' (90 * Second) 7
       \<lparr>fk_data = Map.empty\<rparr> = (None, s1)
     \<and> Service_GetTTL (kvStore_api NewKVStore fakeKV_api) ''ch'' s1 = (Inr (d', True), s1) \<and> d' = 90 * Second"
proof -
  let ?st = "kvStore_api NewKVStore fakeKV_api" and ?d = "90 * Second"
  let ?t = "\<lparr>DurationSeconds = 90, SetBy = ''admin'', SetAt = 7\<rparr>"
  let ?s1 = "\<lparr>fk_data = [''ttl:ch'' \<mapsto> marshal_TTLSetting ?t]\<rparr>"
  have u: "valid_utf8 ''admin''" by (simp add: valid_utf8_ascii)
  have sec: "int64_Seconds 90000000000 = 90" using int64_Seconds_whole [of 90] by simp
  have set: "Service_SetTTL ?st demo_perm ''admin'' ''ch'' ?d 7 \<lparr>fk_data = Map.empty\<rparr> = (None, ?s1)"
    by (simp add: Service_SetTTL_eq ValidateTTL_def may_manage_def demo_perm_def sec kvStore_Set_def
        NewKVStore_def defaultMaxRetries_def numeral_eq_Suc fakeKV_defs kvKey_def slice_def)
  have get: "Service_GetTTL ?st ''ch'' ?s1 = (Inr (?d, True), ?s1)"
    using unmarshal_marshal [of ?t] u
    by (simp add: Service_GetTTL_def kvStore_Get_def fakeKV_defs kvKey_def)
  from set_then_get_ttl [OF fake.kv_service_axioms set u get] set get show ?thesis by blast
qed

subsection \<open>The HTTP API and the slash command\<close>

abbreviation plugin_ttl :: "'w kv_api \<Rightarrow> ('w world) perm_api \<Rightarrow> ('w world) ttl_api" where
  "plugin_ttl kv perm \<equiv> ttlService (kvStore_api NewKVStore (kv_of kv)) perm"

lemma api_ports_of:
  assumes "kv_service kv cells other"
  shows "api_ports (plugin_ttl kv perm) (may_manage perm) (\<lambda>s. settings_of (cells (srv s)))
    (\<lambda>s. (other (srv s), outside_srv s))"
  by (rule world_kv.api_contract) (simp add: world_kv_def assms)

lemma served_by_status:
  assumes "Handler_ServeHTTP ttl now r s = (resp, s')"
  shows "status resp = 201 \<Longrightarrow> handleSet ttl now r s = (resp, s')"
    and "status resp = 204 \<Longrightarrow> \<exists>ch. handleDelete ttl ch r s = (resp, s')"
proof -
  consider (mux) "status resp \<in> {301, 404, 405}"
    | (set) "handleSet ttl now r s = (resp, s')" | (get) ch where "handleGet ttl ch r s = (resp, s')"
    | (delete) ch where "handleDelete ttl ch r s = (resp, s')"
    using assms
    by (auto simp: Handler_ServeHTTP_def Let_def mux_route_def split: route.splits list.splits if_splits)
  moreover have "status resp \<noteq> 201 \<and> status resp \<noteq> 204" if "handleGet ttl ch r s = (resp, s')" for ch
    using that by (cases rule: handleGet_cases) auto
  moreover have "status resp \<noteq> 204" if "handleSet ttl now r s = (resp, s')"
    using that by (cases rule: handleSet_cases) auto
  moreover have "status resp \<noteq> 201" if "handleDelete ttl ch r s = (resp, s')" for ch
    using that by (cases rule: handleDelete_cases) auto
  ultimately show "status resp = 201 \<Longrightarrow> handleSet ttl now r s = (resp, s')"
    and "status resp = 204 \<Longrightarrow> \<exists>ch. handleDelete ttl ch r s = (resp, s')"
    by (cases; auto)+
qed

text \<open>
  C16: the type of the stored settings. If every stored setting has between a minute and a year,
  so it is at every moment of a run in which only the plugin writes settings, also when the
  store fails or a product wraps around. Therefore the TTL that posts are indexed with is
  always a valid one, and its product with a second is exact.
\<close>

theorem settings_stay_valid:
  fixes s0 :: "'w world"
  assumes "kv_service (api_kv api) cells other" "quiet api cells"
    and "plugin_run api cells s0 P s" "index_ok s0" "settings_wf (settings_of (cells (srv s0)))"
  shows "settings_wf (settings_of (cells (srv s)))
    \<and> (case world_ttl cells s ch of None \<Rightarrow> True | Some d \<Rightarrow> ValidateTTL d = None)"
proof -
  have w: "plugin_world api cells other"
    using assms(1) by (simp add: plugin_world_def world_kv_def)
  have "spec_run (spec_of cells s0) (spec_of cells s)"
    using plugin_world.run_refines [OF w assms(3,2,4)] by blast
  then have wf: "settings_wf (settings_of (cells (srv s)))"
    using spec_run_wf assms(5) by (fastforce simp: spec_of_def)
  then show ?thesis
    using plugin_world.settings_wf_ttl [OF w wf, of ch] by (auto split: option.splits)
qed

theorem settings_stay_valid_witness:
  "settings_wf (settings_of (fk_data (srv (fresh (Some []) [Info msg_activated []]))))
   \<and> world_ttl fk_data (fresh (Some []) [Info msg_activated []]) ''ch'' \<noteq> None"
proof -
  have ok: "index_ok (fresh None [])" by (simp add: fresh_def index_ok_def)
  have t: "settings_of (fk_data (srv (fresh rows lg))) = [''ch'' \<mapsto> demo_setting]" for rows lg
    by (rule fresh_settings)
  then have "settings_wf (settings_of (fk_data (srv (fresh None []))))"
    by (simp add: settings_wf_def demo_setting_def)
  from settings_stay_valid [OF demo_kv demo_quiet demo_plugin_run ok this] show ?thesis
    by (simp add: world_ttl_def ttl_of_def t)
qed

text \<open>
  C17: no user changes a channel's TTL without permission, by whichever entrance. When a
  request or a slash command changes the stored setting of a channel, even one that ends in
  an error, its user may manage the channel: as a system administrator, as a member of a
  direct or group channel, or with the channel's own permission for its type.
\<close>

theorem changes_need_permission:
  assumes "kv_service (api_kv api) cells other"
    and "hook api ev p s = (p', s')"
    and "(\<exists>now r. ev = Http now r \<and> rq_user r = u) \<or> (\<exists>now args. ev = Command now args \<and> arg_UserId args = u)"
    and "settings_of (cells (srv s')) ch \<noteq> settings_of (cells (srv s)) ch"
  shows "HasPermissionTo (api_perm api) u PermissionManageSystem (srv s)
    \<or> (\<exists>c. GetChannel (api_perm api) ch (srv s) = (Some c, None)
         \<and> (IsGroupOrDirect c \<or> HasPermissionToChannel (api_perm api) u ch
              (if IsOpen c then PermissionManagePublicChannelProperties
               else PermissionManagePrivateChannelProperties) (srv s)))"
proof -
  note ports = api_ports_of [OF assms(1), of "perm_of (api_perm api)"]
  have "may_manage (perm_of (api_perm api)) u ch s"
    using assms(3)
  proof (elim disjE exE conjE)
    fix now r assume ev: "ev = Http now r" "rq_user r = u"
    then obtain resp where "Handler_ServeHTTP (the_ttl api) now r s = (resp, s')"
      using assms(2,4) by (auto simp: Plugin_ServeHTTP_def split: prod.splits if_splits)
    then show ?thesis
      using api_ports.serve_changes [OF ports _ assms(4)] ev(2) unfolding the_ttl_def the_store_def by blast
  next
    fix now args assume ev: "ev = Command now args" "arg_UserId args = u"
    then obtain resp where "Handler_ExecuteCommand (the_ttl api) now args s = (resp, s')"
      using assms(2,4) by (auto simp: Plugin_ExecuteCommand_def split: prod.splits if_splits)
    then show ?thesis
      using api_ports.command_changes [OF ports _ assms(4)] ev(2) unfolding the_ttl_def the_store_def by blast
  qed
  then show ?thesis by (simp add: may_manage_def perm_of_def)
qed

theorem changes_need_permission_witness:
  "settings_of (fk_data (srv (snd (hook demo_api (Http 7 (demo_http 90)) demo_node (demo []))))) ''ch'' \<noteq> None
   \<and> (HasPermissionTo demo_perm ''admin'' PermissionManageSystem (srv (demo []))
     \<or> (\<exists>c. GetChannel demo_perm ''ch'' (srv (demo [])) = (Some c, None) \<and> IsGroupOrDirect c))"
proof -
  have v: "ValidateTTL (90 * Second) = None" by (simp add: ValidateTTL_def)
  obtain p' s' where h: "hook demo_api (Http 7 (demo_http 90)) demo_node (demo []) = (p', s')"
    by (cases "hook demo_api (Http 7 (demo_http 90)) demo_node (demo [])")
  have "settings_of (fk_data (srv s')) ''ch'' \<noteq> None"
    using h demo_created [OF v] by (auto simp: Plugin_ServeHTTP_def demo_node_def demo_settings)
  with changes_need_permission [OF demo_kv h, of "''admin''" "''ch''"] show ?thesis
    unfolding h snd_conv by (auto simp: demo_http_def demo_api_def demo_perm_def)
qed

text \<open>A well-formed request of a permitted user is accepted, unless the store fails.\<close>

lemma permitted_set_created:
  assumes "kv_service kv cells other" "ValidateTTL (n * Second) = None" "0 \<le> sint n"
    and "may_manage perm u ch s" "valid_utf8 u" "u \<noteq> []" "valid_utf8 ch" "ch \<noteq> []"
    and "r = \<lparr>rq_method = ''POST'', rq_path = ''/ttl'', rq_user = u, rq_body = set_request_body ch n\<rparr>"
    and "Handler_ServeHTTP (plugin_ttl kv perm) now r s = (resp, s')" "status resp \<noteq> 409 \<and> status resp \<noteq> 500"
  shows "resp = \<lparr>status = 201, resp_body = SettingBody
       \<lparr>dto_DurationSeconds = n, dto_SetBy = u, dto_SetAt = now\<rparr>\<rparr>
    \<and> settings_of (cells (srv s')) ch
      = Some \<lparr>DurationSeconds = int64_Seconds (n * Second), SetBy = u, SetAt = now\<rparr>"
proof -
  let ?ttl = "plugin_ttl kv perm"
  note ports = api_ports_of [OF assms(1), of perm]
  have p: "CutPrefix ''/ttl'' (''/plugins/'' @ PluginID) = None"
    by (simp add: CutPrefix_def HasPrefix_def PluginID_def)
  have rq: "rq_user r = u" by (simp add: assms(9))
  have d: "decode_set r = Some \<lparr>req_ChannelID = ch, req_TTLSeconds = n\<rparr>"
    by (rule decode_set_request_body) (simp_all add: assms)
  have h: "handleSet ?ttl now r s = (resp, s')"
    using assms(10) p by (simp add: Handler_ServeHTTP_def mux_route_set assms(9))
  obtain er s1 where t: "SetTTL ?ttl u ch (n * Second) now s = (er, s1)"
    by (cases "SetTTL ?ttl u ch (n * Second) now s")
  have "er = None"
  proof (rule ccontr)
    assume "er \<noteq> None"
    then obtain err where err: "er = Some err" by blast
    then have "resp = writeDomainError err" using h d t assms(3,6,8) rq by (simp add: handleSet_def)
    moreover have "\<exists>tt. kvStore_Set NewKVStore (kv_of kv) ch tt s = (Some err, s1)"
      using t err assms(2,4) by (auto simp: Service_SetTTL_eq)
    ultimately show False using assms(11) by (auto simp: kvStore_Set_def dest!: set_loop_error)
  qed
  then have resp: "resp = \<lparr>status = 201, resp_body = SettingBody
       \<lparr>dto_DurationSeconds = n, dto_SetBy = u, dto_SetAt = now\<rparr>\<rparr>"
    using h d t assms(3,6,8) rq by (simp add: handleSet_def Let_def)
  have "settings_of (cells (srv s')) ch
      = Some \<lparr>DurationSeconds = int64_Seconds (n * Second), SetBy = u, SetAt = now\<rparr>"
    by (rule api_ports.set_created [OF ports h]) (use resp d assms(5) rq in simp_all)
  with resp show ?thesis by simp
qed

text \<open>
  C18: in direct and group channels any logged-in user may set the TTL. Nothing asks whether
  the user is a member of the channel: a request that names such a channel is accepted from
  whoever sends it, and the setting is stored, unless the store fails.
\<close>

theorem direct_channel_any_user:
  assumes "kv_service kv cells other" "ValidateTTL (n * Second) = None" "0 \<le> sint n"
    and "GetChannel perm ch s = (Some c, None)" "IsGroupOrDirect c"
    and "valid_utf8 u" "u \<noteq> []" "valid_utf8 ch" "ch \<noteq> []"
    and "r = \<lparr>rq_method = ''POST'', rq_path = ''/ttl'', rq_user = u, rq_body = set_request_body ch n\<rparr>"
    and "Handler_ServeHTTP (plugin_ttl kv perm) now r s = (resp, s')" "status resp \<noteq> 409 \<and> status resp \<noteq> 500"
  shows "status resp = 201 \<and> settings_of (cells (srv s')) ch
      = Some \<lparr>DurationSeconds = int64_Seconds (n * Second), SetBy = u, SetAt = now\<rparr>"
proof -
  have "may_manage perm u ch s" using assms(4,5) by (simp add: may_manage_def)
  from permitted_set_created [OF assms(1-3) this assms(6-12)] show ?thesis by simp
qed

theorem direct_channel_any_user_witness:
  "\<exists>resp s'. Handler_ServeHTTP (plugin_ttl fakeKV_api dm_perm) 7
       \<lparr>rq_method = ''POST'', rq_path = ''/ttl'', rq_user = ''stranger'', rq_body = set_request_body ''dm'' 60\<rparr> (demo []) = (resp, s')
     \<and> status resp = 201 \<and> (\<forall>ch p. \<not> HasPermissionToChannel dm_perm ''stranger'' ch p (demo []))"
proof -
  let ?r = "\<lparr>rq_method = ''POST'', rq_path = ''/ttl'', rq_user = ''stranger'', rq_body = set_request_body ''dm'' 60\<rparr>"
  have v: "ValidateTTL (60 * Second) = None" "0 \<le> sint (60 :: int64)" by (simp_all add: ValidateTTL_def)
  have g: "GetChannel dm_perm ''dm'' (demo []) = (Some \<lparr>IsGroupOrDirect = True, IsOpen = False\<rparr>, None)"
    by (simp add: dm_perm_def)
  obtain resp s' where h: "Handler_ServeHTTP (plugin_ttl fakeKV_api dm_perm) 7 ?r (demo []) = (resp, s')"
    and r: "status resp = 201"
    using dm_created by (cases "Handler_ServeHTTP (plugin_ttl fakeKV_api dm_perm) 7 ?r (demo [])") auto
  from direct_channel_any_user [OF fake.kv_service_axioms v g _ _ _ _ _ refl h] r h
  show ?thesis by (simp add: valid_utf8_ascii dm_perm_def)
qed

text \<open>
  C19: what \<open>201 Created\<close> means. The request was well-formed, the TTL valid and the user
  permitted; the store holds the setting, with the TTL that the response and the one
  WebSocket event of the channel announce, provided the number of seconds sent does not
  overflow the nanoseconds of a \<open>time.Duration\<close>.
\<close>

theorem http_set_created:
  assumes "kv_service kv cells other"
    and "Handler_ServeHTTP (plugin_ttl kv perm) now r s = (resp, s')"
    and "status resp = 201" "valid_utf8 (rq_user r)"
  shows "\<exists>ch n. let dto = \<lparr>dto_DurationSeconds = n, dto_SetBy = rq_user r, dto_SetAt = now\<rparr> in
    decode_set r = Some \<lparr>req_ChannelID = ch, req_TTLSeconds = n\<rparr> \<and> may_manage perm (rq_user r) ch s
    \<and> resp_body resp = SettingBody dto
    \<and> events s' = events s @ [\<lparr>ws_name = ''ttl_changed'', ws_channel = ch, ws_ttl = Some dto, ws_broadcast_channel = ch\<rparr>]
    \<and> (\<exists>n'. settings_of (cells (srv s')) = (settings_of (cells (srv s)))
           (ch \<mapsto> \<lparr>DurationSeconds = n', SetBy = rq_user r, SetAt = now\<rparr>)
         \<and> 60 \<le> sint n' \<and> sint n' \<le> 31536000 \<and> (sint n \<le> 9223372036 \<longrightarrow> n' = n))"
proof -
  note ports = api_ports_of [OF assms(1), of perm]
  show ?thesis
    using served_by_status(1) [OF assms(2,3)] assms(3,4)
  proof (rule api_ports.set_created [OF ports])
    fix req :: setTTLRequest
    let ?n = "req_TTLSeconds req"
    assume a: "0 \<le> sint ?n" "ValidateTTL (?n * Second) = None"
    have "int64_Seconds (?n * Second) = ?n" if "sint ?n \<le> 9223372036"
      using int64_Seconds_whole a(1) that by simp
    moreover assume "decode_set r = Some req" "may_manage perm (rq_user r) (req_ChannelID req) s"
      "settings_of (cells (srv s')) = (settings_of (cells (srv s)))(req_ChannelID req \<mapsto>
         \<lparr>DurationSeconds = int64_Seconds (?n * Second), SetBy = rq_user r, SetAt = now\<rparr>)"
      "resp_body resp = SettingBody (set_dto now r req)"
      "events s' = events s @ [\<lparr>ws_name = EventTTLChanged, ws_channel = req_ChannelID req,
         ws_ttl = Some (set_dto now r req), ws_broadcast_channel = req_ChannelID req\<rparr>]"
    ultimately show ?thesis
      using valid_TTL_seconds [OF a(2)]
      by (intro exI [of _ "req_ChannelID req"] exI [of _ ?n])
        (simp add: Let_def set_dto_def EventTTLChanged_def, metis)
  qed
qed

theorem http_set_created_witness:
  "\<exists>resp s'. Handler_ServeHTTP (plugin_ttl fakeKV_api (perm_of demo_perm)) 7 (demo_http 90) (demo []) = (resp, s')
     \<and> status resp = 201 \<and> settings_of (fk_data (srv s')) \<noteq> settings_of (fk_data (srv (demo [])))
     \<and> length (events s') = 1"
proof -
  have v: "ValidateTTL (90 * Second) = None" by (simp add: ValidateTTL_def)
  obtain resp s' where h: "Handler_ServeHTTP (plugin_ttl fakeKV_api (perm_of demo_perm)) 7 (demo_http 90) (demo []) = (resp, s')"
    and r: "status resp = 201"
    using demo_created [OF v, of 7 "demo []"] by (simp add: demo_ttl)
  have u: "valid_utf8 (rq_user (demo_http 90))" by (simp add: demo_http_def valid_utf8_ascii)
  from http_set_created [OF fake.kv_service_axioms h r u] obtain ch n t where
    "settings_of (fk_data (srv s')) = (settings_of (fk_data (srv (demo []))))(ch \<mapsto> t)" "length (events s') = 1"
    by (auto simp: Let_def demo_def)
  then show ?thesis using h r by (metis demo_no_setting fun_upd_same option.distinct(1))
qed



abbreviation plugin_path :: string where
  "plugin_path \<equiv> ''/plugins/com.mattermost.plugin-message-disappear''"

lemma served_channel:
  assumes "rq_path r \<in> {''/ttl/'' @ ch, plugin_path @ ''/ttl/'' @ ch}" "plain_id ch"
  shows "Handler_ServeHTTP ttl now r s =
    (if rq_method r = ''GET'' \<or> rq_method r = ''HEAD'' then handleGet ttl ch r s
     else if rq_method r = ''DELETE'' then handleDelete ttl ch r s
     else (\<lparr>status = 405, resp_body = MuxBody\<rparr>, s))"
proof -
  have pre: "plugin_path = ''/plugins/'' @ PluginID" by (simp add: PluginID_def)
  have "CutPrefix (''/ttl/'' @ ch) plugin_path = None" by (simp add: CutPrefix_def HasPrefix_def)
  then have "(case CutPrefix (rq_path r) (''/plugins/'' @ PluginID) of Some rest \<Rightarrow> rest | None \<Rightarrow> rq_path r)
      = ''/ttl/'' @ ch"
    using assms(1) CutPrefix_append [of plugin_path "''/ttl/'' @ ch"] unfolding pre [symmetric] by auto
  then show ?thesis
    using mux_route_channel [OF assms(2), of "rq_method r"] by (simp add: Handler_ServeHTTP_def)
qed

text \<open>
  C21: reading, down to the bytes. \<open>GET /ttl/<channel>\<close>, with or without the plugin's prefix,
  answers a logged-in user with a JSON text that a client reads as the stored setting of that
  channel (null when there is none), or with 500 when the store fails. It changes no setting
  and publishes no event. No permission is asked for, and no membership of the channel: the
  handler leaves that to the caller.
\<close>

theorem http_get_setting:
  assumes "kv_service kv cells other" "rq_method r = ''GET''"
    and "rq_path r \<in> {''/ttl/'' @ ch, plugin_path @ ''/ttl/'' @ ch}" "plain_id ch"
    and "case settings_of (cells (srv s)) ch of None \<Rightarrow> True | Some t \<Rightarrow> valid_utf8 (SetBy t)"
    and "Handler_ServeHTTP (plugin_ttl kv perm) now r s = (resp, s')"
  shows "settings_of (cells (srv s')) = settings_of (cells (srv s)) \<and> events s' = events s
    \<and> (if rq_user r = '''' then status resp = 401
       else status resp = 500
         \<or> (\<exists>json. wire printable jsonError resp
              = Some \<lparr>wire_status = 200, wire_type = ''application/json'', wire_body = json @ [CHR 0x0A]\<rparr>
            \<and> json_read [] (json @ [CHR 0x0A]) = Some (JObj [(''ttl'',
                case settings_of (cells (srv s)) ch of
                  None \<Rightarrow> JNull
                | Some t \<Rightarrow> JObj [(''duration'', JNum (FormatInt (DurationSeconds t))),
                    (''set_by'', JStr (SetBy t)), (''set_at'', JNum (FormatInt (SetAt t)))])], [CHR 0x0A])))"
proof -
  have h: "handleGet (plugin_ttl kv perm) ch r s = (resp, s')"
    using assms(6) unfolding served_channel [OF assms(3,4)] by (simp add: assms(2))
  note g = api_ports.get_reads [OF api_ports_of [OF assms(1)] h]
  show ?thesis
    using h
  proof (cases rule: handleGet_cases)
    case refused
    then show ?thesis using g by simp
  next
    case (failed err)
    have "status resp = 500"
      using failed(2,3) by (auto simp: Service_GetSetting_def dest: kvStore_Get_error)
    then show ?thesis using g failed(1) by simp
  next
    case (found v)
    let ?v = "settings_of (cells (srv s)) ch"
    have r: "resp = \<lparr>status = 200, resp_body = GetBody (toDTO ?v)\<rparr>" using g found(3) by simp
    have "json_read [] (marshal_getTTLResponse (toDTO ?v) @ [CHR 0x0A])
        = Some (JObj [(''ttl'', case toDTO ?v of None \<Rightarrow> JNull | Some d \<Rightarrow> json_of_ttlDTO d)], [CHR 0x0A])"
      by (rule read_getTTLResponse) (use assms(5) in \<open>auto simp: toDTO_def split: option.splits\<close>)
    then show ?thesis using g found(1) unfolding r
      by (cases ?v) (auto simp: wire_def writeJSON_def toDTO_def json_of_ttlDTO_def)
  qed
qed

theorem http_get_setting_witness:
  "\<exists>resp s'. Handler_ServeHTTP (plugin_ttl fakeKV_api (perm_of demo_perm)) 7
       \<lparr>rq_method = ''GET'', rq_path = plugin_path @ ''/ttl/ch'', rq_user = ''guest'', rq_body = []\<rparr> (demo []) = (resp, s')
     \<and> events s' = []"
proof -
  let ?r = "\<lparr>rq_method = ''GET'', rq_path = plugin_path @ ''/ttl/ch'', rq_user = ''guest'', rq_body = []\<rparr>"
  obtain resp s' where h: "Handler_ServeHTTP (plugin_ttl fakeKV_api (perm_of demo_perm)) 7 ?r (demo []) = (resp, s')"
    by (cases "Handler_ServeHTTP (plugin_ttl fakeKV_api (perm_of demo_perm)) 7 ?r (demo [])")
  have "settings_of (fk_data (srv (demo []))) ''ch'' = None" by (simp add: settings_of_def demo_def slice_def)
  then have "events s' = events (demo [])"
    using http_get_setting [OF fake.kv_service_axioms _ _ _ _ h, of "''ch''"] by (simp add: plain_id_def)
  then show ?thesis using h by (simp add: demo_def)
qed

text \<open>
  C22: switching off. \<open>DELETE /ttl/<channel>\<close> by a user who may manage the channel removes the
  setting of this channel only and announces it, or the store fails and 500 is returned; any
  other user gets 403 or 404 and nothing changes.
\<close>

theorem http_delete_setting:
  assumes "kv_service kv cells other" "rq_method r = ''DELETE''"
    and "rq_path r \<in> {''/ttl/'' @ ch, plugin_path @ ''/ttl/'' @ ch}" "plain_id ch" "rq_user r \<noteq> ''''"
    and "Handler_ServeHTTP (plugin_ttl kv perm) now r s = (resp, s')"
  shows "if \<not> may_manage perm (rq_user r) ch s then status resp \<in> {403, 404} \<and> s' = s
    else status resp = 500 \<and> events s' = events s
      \<or> status resp = 204 \<and> settings_of (cells (srv s')) = (settings_of (cells (srv s)))(ch := None)
        \<and> events s' = events s @ [\<lparr>ws_name = ''ttl_changed'', ws_channel = ch, ws_ttl = None, ws_broadcast_channel = ch\<rparr>]"
proof -
  let ?ttl = "plugin_ttl kv perm"
  note ports = api_ports_of [OF assms(1), of perm]
  have h: "handleDelete ?ttl ch r s = (resp, s')"
    using assms(6) unfolding served_channel [OF assms(3,4)] by (simp add: assms(2))
  have e: "status resp = 201 \<or> status resp = 204 \<or> events s' = events s"
    using api_ports.events_iff_success [OF ports assms(6)] by (auto split: if_splits)
  show ?thesis
    using h
  proof (cases rule: handleDelete_cases)
    case refused
    then show ?thesis using assms(5) by simp
  next
    case (failed err)
    show ?thesis
    proof (cases "Service_checkCanManage perm (rq_user r) ch s")
      case None
      then have m: "may_manage perm (rq_user r) ch s" by (simp add: checkCanManage_None_iff)
      have "kvStore_Clear (kv_of kv) ch s = (Some err, s')"
        using failed(2) None by (simp add: Service_ClearTTL_def)
      then have "status resp = 500" using failed(3) kvStore_Clear_error by simp
      then show ?thesis using m e by simp
    next
      case (Some err')
      then have m: "\<not> may_manage perm (rq_user r) ch s" by (simp flip: checkCanManage_None_iff)
      have "err' = err \<and> s' = s" using failed(2) Some by (simp add: Service_ClearTTL_def)
      then show ?thesis using m failed(3) checkCanManage_error(2) [OF Some]
        by (auto simp: writeDomainError_def writeError_def)
    qed
  next
    case (deleted s1)
    then show ?thesis using api_ports.delete_done [OF ports h] by (simp add: EventTTLChanged_def)
  qed
qed

theorem http_delete_setting_witness:
  "\<exists>resp s'. Handler_ServeHTTP (plugin_ttl fakeKV_api (perm_of demo_perm)) 7
       \<lparr>rq_method = ''DELETE'', rq_path = ''/ttl/ch'', rq_user = ''guest'', rq_body = []\<rparr> (demo []) = (resp, s')
     \<and> s' = demo [] \<and> status resp \<in> {403, 404}"
proof -
  let ?r = "\<lparr>rq_method = ''DELETE'', rq_path = ''/ttl/ch'', rq_user = ''guest'', rq_body = []\<rparr>"
  obtain resp s' where h: "Handler_ServeHTTP (plugin_ttl fakeKV_api (perm_of demo_perm)) 7 ?r (demo []) = (resp, s')"
    by (cases "Handler_ServeHTTP (plugin_ttl fakeKV_api (perm_of demo_perm)) 7 ?r (demo [])")
  have "\<not> may_manage (perm_of demo_perm) ''guest'' ''ch'' (demo [])"
    by (simp add: may_manage_def perm_of_def demo_perm_def)
  then have "s' = demo [] \<and> status resp \<in> {403, 404}"
    using http_delete_setting [OF fake.kv_service_axioms _ _ _ _ h, of "''ch''"] by (simp add: plain_id_def)
  then show ?thesis using h by blast
qed

text \<open>
  Members of a channel hear of every change that is reported as a success, once: a
  request publishes one event when its status is 201 or 204, and none otherwise.
\<close>

lemma http_events_iff_success:
  assumes "kv_service kv cells other" "Handler_ServeHTTP (plugin_ttl kv perm) now r s = (resp, s')"
  shows "length (events s') = length (events s) + (if status resp \<in> {201, 204} then 1 else 0)"
  using api_ports.events_iff_success [OF api_ports_of [OF assms(1)] assms(2)] by (auto split: if_splits)

text \<open>
  C23: a request that is refused leaves no trace and says why. When the status is a redirect or
  any client error other than a conflict, the state is exactly as before: not even a call to the
  key-value store was made, whatever that store is. Unless the router answers itself, the body is
  JSON whose only member, the message, is read as one of the texts for that status.
\<close>

theorem http_refused_no_trace:
  assumes "Handler_ServeHTTP (ttlService (kvStore_api st kv) perm) now r s = (resp, s')"
    and "status resp \<in> {301, 400, 401, 403, 404, 405}"
  shows "s' = s \<and> (resp_body resp = MuxBody
    \<or> (\<exists>txt json. txt \<in> refusal_texts (status resp)
        \<and> wire printable jsonError resp = Some \<lparr>wire_status = status resp, wire_type = ''application/json'',
            wire_body = json @ [CHR 0x0A]\<rparr>
        \<and> (valid_utf8 txt \<longrightarrow> json_read [] (json @ [CHR 0x0A]) = Some (JObj [(''message'', JStr txt)], [CHR 0x0A]))))"
proof (cases "resp_body resp = MuxBody")
  case False
  obtain m where m: "resp_body resp = MessageBody m"
      "message_text printable jsonError m \<in> refusal_texts (status resp)"
    using refused_text [OF assms False] by blast
  then show ?thesis
    using refused_leaves_no_trace [OF assms] read_message [of "message_text printable jsonError m" "[CHR 0x0A]"]
    by (auto simp: wire_def writeJSON_def)
qed (use refused_leaves_no_trace [OF assms] in simp)

theorem http_refused_no_trace_witness:
  "\<exists>resp. Handler_ServeHTTP (plugin_ttl fakeKV_api (perm_of demo_perm)) 7
      \<lparr>rq_method = ''POST'', rq_path = ''/ttl'', rq_user = '''', rq_body = []\<rparr> (demo []) = (resp, demo [])
     \<and> status resp = 401
     \<and> (\<exists>json. wire (\<lambda>_. True) id resp = Some \<lparr>wire_status = 401, wire_type = ''application/json'',
            wire_body = json @ [CHR 0x0A]\<rparr>)"
proof -
  let ?r = "\<lparr>rq_method = ''POST'', rq_path = ''/ttl'', rq_user = '''', rq_body = []\<rparr>"
  obtain resp s' where h: "Handler_ServeHTTP (plugin_ttl fakeKV_api (perm_of demo_perm)) 7 ?r (demo []) = (resp, s')"
    by (cases "Handler_ServeHTTP (plugin_ttl fakeKV_api (perm_of demo_perm)) 7 ?r (demo [])")
  have "CutPrefix ''/ttl'' (''/plugins/'' @ PluginID) = None"
    by (simp add: CutPrefix_def HasPrefix_def PluginID_def)
  then have r: "status resp = 401" "resp_body resp \<noteq> MuxBody" 
    using h by (auto simp: Handler_ServeHTTP_def mux_route_set handleSet_def writeError_def)
  then have "s' = demo [] \<and> (\<exists>json. wire (\<lambda>_. True) id resp = Some \<lparr>wire_status = 401,
      wire_type = ''application/json'', wire_body = json @ [CHR 0x0A]\<rparr>)"
    using http_refused_no_trace [OF h, of "\<lambda>_. True" id] by auto
  then show ?thesis using h r(1) by auto
qed

text \<open>
  C24: \<open>/disappear set <duration>\<close>. The command either reports an error, with no event, or the
  duration was valid and the user permitted: then the setting is stored, and the answer and
  one event announce it. Unlike the HTTP API, the event always carries what was stored.
\<close>

theorem command_set:
  assumes "kv_service kv cells other" "valid_utf8 (arg_UserId args)"
    and "Fields (arg_Command args) = w # ''set'' # arg # ws" "parseTTLArg arg = Inr d"
    and "Handler_ExecuteCommand (plugin_ttl kv perm) now args s = (resp, s')"
  shows "let ch = arg_ChannelId args; u = arg_UserId args; n = int64_Seconds d in
    (\<exists>err. resp = ephemeral ch (userMessage err) \<and> events s' = events s)
    \<or> ValidateTTL d = None \<and> may_manage perm u ch s \<and> resp = ephemeral ch (msg_enabled arg)
      \<and> settings_of (cells (srv s')) = (settings_of (cells (srv s)))
           (ch \<mapsto> \<lparr>DurationSeconds = n, SetBy = u, SetAt = now\<rparr>)
      \<and> events s' = events s @ [\<lparr>ws_name = ''ttl_changed'', ws_channel = ch,
           ws_ttl = Some \<lparr>dto_DurationSeconds = n, dto_SetBy = u, dto_SetAt = now\<rparr>,
           ws_broadcast_channel = ch\<rparr>]"
proof -
  have c: "cmdSet (plugin_ttl kv perm) now args (w # ''set'' # arg # ws) s = (resp, s')"
    using assms(5) by (simp add: Handler_ExecuteCommand_def assms(3))
  show ?thesis
    by (rule api_ports.cmd_enabled [OF api_ports_of [OF assms(1)] c assms(2), of d])
      (auto simp: assms(4) Let_def toDTO_def EventTTLChanged_def)
qed

theorem command_set_witness:
  "\<exists>resp s'. Handler_ExecuteCommand (plugin_ttl fakeKV_api (perm_of demo_perm)) 7
       \<lparr>arg_Command = ''/disappear set 1h'', arg_UserId = ''guest'', arg_ChannelId = ''ch''\<rparr> (demo []) = (resp, s')
     \<and> events s' = []"
proof -
  let ?a = "\<lparr>arg_Command = ''/disappear set 1h'', arg_UserId = ''guest'', arg_ChannelId = ''ch''\<rparr>"
  obtain resp s' where c: "Handler_ExecuteCommand (plugin_ttl fakeKV_api (perm_of demo_perm)) 7 ?a (demo []) = (resp, s')"
    by (cases "Handler_ExecuteCommand (plugin_ttl fakeKV_api (perm_of demo_perm)) 7 ?a (demo [])")
  have f: "Fields (arg_Command ?a) = [''/disappear'', ''set'', ''1h'']" by code_simp
  have p: "parseTTLArg ''1h'' = Inr Hour"
    using parseTTLArg_preset [of "\<lparr>Label = ''1h'', Duration = Hour\<rparr>"] by (simp add: Presets_def)
  have "\<not> may_manage (perm_of demo_perm) ''guest'' ''ch'' (demo [])"
    by (simp add: may_manage_def perm_of_def demo_perm_def)
  then have "events s' = events (demo [])"
    using command_set [OF fake.kv_service_axioms _ f p c] by (simp add: valid_utf8_ascii Let_def)
  then show ?thesis using c by (simp add: demo_def)
qed

text \<open>
  C25: the duration that \<open>/disappear status\<close> shows can be given back to \<open>/disappear set\<close>. For a
  stored TTL of \<open>n\<close> seconds the answer holds the text of \<open>n\<close> seconds in Go's notation, and that
  text is parsed, past the presets, to exactly \<open>n\<close> seconds again.
\<close>

theorem command_status_roundtrip:
  assumes "kv_service kv cells other" "Fields (arg_Command args) = w # ''status'' # ws"
    and "settings_of (cells (srv s)) (arg_ChannelId args) = Some t"
    and "0 \<le> sint (DurationSeconds t)" "sint (DurationSeconds t) \<le> 9223372036"
    and "Handler_ExecuteCommand (plugin_ttl kv perm) now args s = (resp, s')"
  shows "\<exists>txt. parseTTLArg txt = Inr (DurationSeconds t * Second)
    \<and> (resp = ephemeral (arg_ChannelId args) (msg_on txt)
       \<or> (\<exists>err. resp = ephemeral (arg_ChannelId args) (userMessage err)))"
proof -
  let ?ch = "arg_ChannelId args" and ?ttl = "plugin_ttl kv perm"
  have c: "cmdStatus ?ttl args s = (resp, s')"
    using assms(6) by (simp add: Handler_ExecuteCommand_def assms(2))
  obtain r s1 where g: "GetSetting ?ttl ?ch s = (r, s1)" by (cases "GetSetting ?ttl ?ch s")
  have "ttl_manager ?ttl (may_manage perm) (\<lambda>s. settings_of (cells (srv s))) (\<lambda>s. (other (srv s), outside_srv s))"
    using api_ports_of [OF assms(1)] by (rule api_ports.axioms)
  from ttl_manager.get_setting [OF this g] have "\<forall>v. r = Inr v \<longrightarrow> v = Some t" using assms(3) by simp
  then have "resp = ephemeral ?ch (msg_on (Duration_String (DurationSeconds t * Second)))
      \<or> (\<exists>err. resp = ephemeral ?ch (userMessage err))"
    using c g by (cases r) (auto simp: cmdStatus_def Let_def)
  then show ?thesis using parseTTLArg_seconds [OF assms(4,5)] by blast
qed

theorem command_status_roundtrip_witness:
  "\<exists>txt resp s'. parseTTLArg txt = Inr (60 * Second)
     \<and> Handler_ExecuteCommand (plugin_ttl fakeKV_api (perm_of demo_perm)) 7
         \<lparr>arg_Command = ''/disappear status'', arg_UserId = ''guest'', arg_ChannelId = ''ch''\<rparr> (fresh None []) = (resp, s')"
proof -
  let ?a = "\<lparr>arg_Command = ''/disappear status'', arg_UserId = ''guest'', arg_ChannelId = ''ch''\<rparr>"
  obtain resp s' where c: "Handler_ExecuteCommand (plugin_ttl fakeKV_api (perm_of demo_perm)) 7 ?a (fresh None []) = (resp, s')"
    by (cases "Handler_ExecuteCommand (plugin_ttl fakeKV_api (perm_of demo_perm)) 7 ?a (fresh None [])")
  have f: "Fields (arg_Command ?a) = [''/disappear'', ''status'']" by code_simp
  have t: "settings_of (fk_data (srv (fresh None []))) (arg_ChannelId ?a) = Some demo_setting"
    using unmarshal_marshal [of demo_setting]
    by (simp add: settings_of_def fresh_def kvKey_def slice_def demo_setting_def valid_utf8_ascii)
  from command_status_roundtrip [OF fake.kv_service_axioms f t _ _ c] show ?thesis
    using c by (auto simp: demo_setting_def)
qed

subsection \<open>Concurrent requests\<close>

text \<open>
  C26: requests and commands that run at the same time, call by call in any order, on any number
  of nodes, some of them dropped half-way, while users change roles. A setting that is not the
  initial one is exactly what some request asked for, whose user was found permitted to manage
  the channel; and every event belongs to such a request, whose setting (or none, after switching
  off) the channel did have at some moment of the run: nothing is announced that was not stored.
\<close>

theorem requests_interleaved:
  fixes s0 :: "'w world"
  assumes "kv_service (api_kv api) cells other" "serving api cells s0 h Q s"
    and "\<And>c s1. (Checking c, s1) \<in> set h \<Longrightarrow> valid_utf8 (chg_actor c)"
  defines "settings \<equiv> \<lambda>s. settings_of (cells (srv s))" and "may \<equiv> may_manage (perm_of (api_perm api))"
  shows "(\<forall>ch. settings s ch \<noteq> settings s0 ch \<longrightarrow> (\<exists>c s1. (Checking c, s1) \<in> set h
      \<and> chg_channel c = ch \<and> settings s ch = chg_setting c \<and> may (chg_actor c) ch s1))
    \<and> (\<exists>cs. events s = events s0 @ map event_of cs \<and> (\<forall>c \<in> set cs. \<exists>s1 s2. (Checking c, s1) \<in> set h
      \<and> may (chg_actor c) (chg_channel c) s1
      \<and> s2 \<in> insert s (snd ` set h) \<and> settings s2 (chg_channel c) = chg_setting c))"
proof -
  have w: "plugin_world api cells other"
    using assms(1) by (simp add: plugin_world_def world_kv_def)
  have "\<exists>c. permitted_request api h c \<and> chg_channel c = ch \<and> settings s ch = chg_setting c"
    if "settings s ch \<noteq> settings s0 ch" for ch
    unfolding settings_def
    by (rule plugin_world.serving_settings [OF w assms(2) _ that [unfolded settings_def]]) (rule assms(3))
  then have "\<forall>ch. settings s ch \<noteq> settings s0 ch \<longrightarrow> (\<exists>c s1. (Checking c, s1) \<in> set h
      \<and> chg_channel c = ch \<and> settings s ch = chg_setting c \<and> may (chg_actor c) ch s1)"
    unfolding may_def by blast
  moreover have "\<exists>cs. events s = events s0 @ map event_of cs \<and> (\<forall>c \<in> set cs. permitted_request api h c
      \<and> (\<exists>s2 \<in> insert s (snd ` set h). settings s2 (chg_channel c) = chg_setting c))"
    unfolding settings_def by (rule plugin_world.serving_events [OF w assms(2)]) (rule assms(3))
  then have "\<exists>cs. events s = events s0 @ map event_of cs \<and> (\<forall>c \<in> set cs. \<exists>s1 s2. (Checking c, s1) \<in> set h
      \<and> may (chg_actor c) (chg_channel c) s1
      \<and> s2 \<in> insert s (snd ` set h) \<and> settings s2 (chg_channel c) = chg_setting c)"
    unfolding may_def by (elim exE conjE) (intro exI conjI, assumption, blast)
  ultimately show ?thesis by (rule conjI)
qed

theorem requests_interleaved_witness:
  "\<exists>h Q s c s1. serving demo_api fk_data (demo []) h Q s \<and> (Checking c, s1) \<in> set h
    \<and> settings_of (fk_data (srv s)) ''ch'' = chg_setting c \<and> chg_setting c \<noteq> None
    \<and> may_manage (perm_of demo_perm) (chg_actor c) ''ch'' s1"
proof -
  let ?Q0 = "(\<lambda>_ :: nat. NoRequest)(0 := Checking an_hour, 1 := Checking a_day)"
  let ?s = "(demo [])\<lparr>srv := (srv (demo []))\<lparr>fk_data := (fk_data (srv (demo [])))
      (kvKey (chg_channel an_hour) := chg_cell an_hour)\<rparr>\<rparr>"
  have p: "play demo_api [0, 0, 0] (?Q0, demo []) = (?Q0(0 := Announcing an_hour), ?s)"
    by (rule play_store) (simp_all add: crossing_checks crossing_settings, simp add: demo_api_def)
  obtain h where h: "serving demo_api fk_data (demo []) h (?Q0(0 := Announcing an_hour)) ?s"
    "\<forall>c s1. (Checking c, s1) \<in> set h \<longrightarrow> (Checking c, s1) \<in> set [] \<or> (\<exists>i. ?Q0 i = Checking c)"
    using serving_play [OF serving_two [where cells = fk_data] p] by (elim exE conjE) (rule that)
  have v: "valid_utf8 (chg_actor c)" if "(Checking c, s1) \<in> set h" for c s1
    using h(2) that by (auto simp: an_hour_def a_day_def valid_utf8_ascii split: if_splits)
  have c: "settings_of (fk_data (srv ?s)) ''ch'' = chg_setting an_hour"
    using settings_of_cell [of "fk_data (srv ?s)" an_hour] by (simp add: an_hour_def valid_utf8_ascii)
  moreover have "settings_of (fk_data (srv (demo []))) ''ch'' = None" by (simp add: settings_of_def demo_def slice_def)
  ultimately obtain c s1 where "(Checking c, s1) \<in> set h" "settings_of (fk_data (srv ?s)) ''ch'' = chg_setting c"
      "may_manage (perm_of (api_perm demo_api)) (chg_actor c) ''ch'' s1"
    using requests_interleaved [OF demo_kv h(1) v] crossing_settings(1) by force
  then show ?thesis using h(1) c crossing_settings(1)
    by (intro exI [of _ h] exI [of _ "?Q0(0 := Announcing an_hour)"] exI [of _ ?s] exI [of _ c] exI [of _ s1])
      (simp add: demo_api_def)
qed

text \<open>
  C27: but the last event may be stale. Announcing is not part of storing: when two permitted
  changes of one channel cross, the one that was stored first may announce last. Both requests
  succeed, the store holds the second setting, and the members' clients have been told the first
  one and keep showing it.
\<close>

theorem last_event_can_be_stale:
  assumes "api_kv api = fakeKV_api" "chg_setting a = Some ta" "chg_setting b = Some tb"
    and "chg_channel a = ch" "chg_channel b = ch" "valid_utf8 (SetBy tb)"
    and "\<And>s. change_check api a s = None" "\<And>s. change_check api b s = None"
  shows "\<exists>h Q s'. serving api fk_data s h Q s' \<and> Q 0 = Answered a None \<and> Q 1 = Answered b None
    \<and> settings_of (fk_data (srv s')) ch = Some tb
    \<and> events s' = events s @ [event_of b, event_of a]"
proof -
  let ?Q = "(\<lambda>_. NoRequest)(0 := Answered a None, 1 := Answered b None)"
  let ?s' = "s\<lparr>srv := (srv s)\<lparr>fk_data := (fk_data (srv s))(kvKey ch := chg_cell b)\<rparr>,
      events := events s @ [event_of b, event_of a]\<rparr>"
  have "play api ([0, 0, 0] @ [1, 1, 1] @ [1, 0]) ((\<lambda>_. NoRequest)(0 := Checking a, 1 := Checking b), s) = (?Q, ?s')"
    using stale_schedule [OF assms(1) _ _ _ assms(7,8), of s] assms(2-5) by simp
  from serving_play [OF serving_two this] obtain h where "serving api fk_data s h ?Q ?s'" by blast
  moreover have "settings_of (fk_data (srv ?s')) ch = Some tb"
    using settings_of_put [OF assms(6), of "fk_data (srv s)" ch] assms(3) by (simp add: chg_cell_def)
  ultimately show ?thesis by (intro exI [of _ h] exI [of _ ?Q] exI [of _ ?s']) simp
qed

theorem last_event_can_be_stale_witness:
  "\<exists>h Q s'. serving demo_api fk_data (demo []) h Q s'
    \<and> settings_of (fk_data (srv s')) ''ch'' = Some \<lparr>DurationSeconds = 86400, SetBy = ''owner'', SetAt = 11\<rparr>
    \<and> ws_ttl (last (events s')) = Some \<lparr>dto_DurationSeconds = 3600, dto_SetBy = ''admin'', dto_SetAt = 10\<rparr>"
proof -
  have "\<exists>h Q s'. serving demo_api fk_data (demo []) h Q s' \<and> Q 0 = Answered an_hour None \<and> Q 1 = Answered a_day None
    \<and> settings_of (fk_data (srv s')) ''ch'' = Some \<lparr>DurationSeconds = 86400, SetBy = ''owner'', SetAt = 11\<rparr>
    \<and> events s' = events (demo []) @ [event_of a_day, event_of an_hour]"
    by (rule last_event_can_be_stale [OF _ crossing_settings _ _ _ crossing_checks])
      (simp_all add: demo_api_def an_hour_def a_day_def valid_utf8_ascii)
  then show ?thesis by (fastforce simp: event_of_def an_hour_def)
qed

text \<open>
  C28: these steps are the code. A request (a command) that asks for a change and is left alone
  answers exactly as the handler does, in the same state; all others at most read a setting.
  Forty-two steps are enough: the check, two for each of the 20 attempts, and the event.
\<close>

theorem request_steps_are_the_handler:
  "(case http_change now r of
      Some c \<Rightarrow> (case (request_step api ^^ 42) (Checking c, s) of
          (Answered c' er, s') \<Rightarrow> c' = c \<and> Handler_ServeHTTP (the_ttl api) now r s = (change_response c er, s')
        | _ \<Rightarrow> False)
    | None \<Rightarrow> (let s' = snd (Handler_ServeHTTP (the_ttl api) now r s) in
        s' = s \<or> (\<exists>ch v. GetSetting (the_ttl api) ch s = (v, s'))))
   \<and> (case command_change now args of
      Some c \<Rightarrow> (case (request_step api ^^ 42) (Checking c, s) of
          (Answered c' er, s') \<Rightarrow> c' = c \<and> Handler_ExecuteCommand (the_ttl api) now args s = (change_reply args c er, s')
        | _ \<Rightarrow> False)
    | None \<Rightarrow> (let s' = snd (Handler_ExecuteCommand (the_ttl api) now args s) in
        s' = s \<or> (\<exists>ch v. GetSetting (the_ttl api) ch s = (v, s'))))"
proof (rule conjI, goal_cases)
  case 1
  obtain resp s' where h: "Handler_ServeHTTP (the_ttl api) now r s = (resp, s')"
    by (cases "Handler_ServeHTTP (the_ttl api) now r s")
  show ?case
    using serve_no_change [OF _ h] serve_change [of now r _ api s]
    by (simp add: solo_request h split: option.split prod.split)
next
  case 2
  obtain resp s' where h: "Handler_ExecuteCommand (the_ttl api) now args s = (resp, s')"
    by (cases "Handler_ExecuteCommand (the_ttl api) now args s")
  show ?case
    using command_no_change [OF _ h] command_alone [of now args _ api s]
    by (simp add: solo_request h split: option.split prod.split)
qed

subsection \<open>Indexing posts\<close>

text \<open>
  C29: when \<open>OnPostCreated\<close> succeeds, the database index has changed as the specification
  \<open>map_posted\<close> says of a map: without a TTL not at all; with one, the post is entered with its
  creation time plus the TTL, and a reply moves every entry of its thread to its own expiry.
  The TTL settings are as they were.
\<close>

theorem post_created_refines:
  assumes "kv_service kv cells other" "index_ok s"
    and "OnPostCreated sqlStore (Service_GetTTL (kvStore_api NewKVStore (kv_of kv))) now p s = (None, s')"
  shows "index_of s' = map_posted (world_ttl cells s) now p (index_of s)
    \<and> world_ttl cells s' = world_ttl cells s \<and> index_ok s'"
proof -
  have "world_kv kv cells other" by (simp add: world_kv_def assms(1))
  from expiry_ports.created_success [OF world_kv.expiry_contract [OF this] assms(2,3)]
  show ?thesis by blast
qed

theorem post_created_refines_witness:
  "\<exists>s'. OnPostCreated sqlStore (Service_GetTTL (kvStore_api NewKVStore (kv_of fakeKV_api))) 50 demo_post (fresh (Some []) [])
       = (None, s')
     \<and> index_of s' = map_posted (world_ttl fk_data (fresh (Some []) [])) 50 demo_post (index_of (fresh (Some []) []))"
proof -
  have ok: "index_ok (fresh (Some []) [])" by (simp add: fresh_def index_ok_def)
  have c: "OnPostCreated sqlStore (Service_GetTTL (kvStore_api NewKVStore (kv_of fakeKV_api))) 50 demo_post (fresh (Some []) [])
      = (None, fresh (Some [demo_indexed]) [])"
    by (rule fresh_created)
  from post_created_refines [OF fake.kv_service_axioms ok c] c show ?thesis by blast
qed

text \<open>
  C30: a thread disappears together. When the posts of a server are indexed in order, every
  hook succeeding and each reply arriving after its root, all entries of a thread carry the
  same expiry: the creation time of the newest post of the thread plus the channel's TTL.
\<close>

theorem thread_expires_together:
  assumes "kv_service kv cells other" "index_ok s" "index_of s = Map.empty" "in_order (map snd ps)"
    and "index_posts sqlStore (Service_GetTTL (kvStore_api NewKVStore (kv_of kv))) ps s = (None, s')"
    and "index_of s' q = Some e"
  shows "\<exists>p d. find (\<lambda>p. threadRoot p = RootID e) (map snd ps) = Some p
    \<and> world_ttl cells s (ChannelID e) = Some d \<and> ExpireAt e = Post_CreateAt p + Milliseconds d"
proof -
  have "world_kv kv cells other" by (simp add: world_kv_def assms(1))
  from expiry_ports.index_posts_indexed [OF world_kv.expiry_contract [OF this] assms(2,3,5)]
  have "indexed (world_ttl cells s) ps q = Some e" using assms(6) by simp
  from indexed_thread [OF assms(4) this] show ?thesis by (auto simp: expiry_def)
qed

theorem thread_expires_together_witness:
  "\<exists>d. world_ttl fk_data (fresh (Some []) []) ''ch'' = Some d \<and> ExpireAt demo_indexed = 40 + Milliseconds d"
proof -
  have p: "index_posts sqlStore (Service_GetTTL (kvStore_api NewKVStore (kv_of fakeKV_api))) [(50, demo_post)]
      (fresh (Some []) []) = (None, fresh (Some [demo_indexed]) [])"
    by (simp add: fresh_created)
  have 0: "index_ok (fresh (Some []) [])" "index_of (fresh (Some []) []) = Map.empty" "in_order (map snd [(50, demo_post)])"
    by (simp_all add: fresh_def index_ok_def index_of_def rows_map_def getByPostSQL_def demo_post_def fun_eq_iff)
  have e: "index_of (fresh (Some [demo_indexed]) []) ''p1'' = Some demo_indexed"
    by (simp add: fresh_def index_of_def rows_map_def getByPostSQL_def demo_indexed_def)
  from thread_expires_together [OF fake.kv_service_axioms 0 p e] show ?thesis
    by (auto simp: demo_post_def threadRoot_def demo_indexed_def split: if_splits)
qed



subsection \<open>The index table\<close>

text \<open>
  C32: the SQL store refines a map, in each of its seven methods. \<open>Migrate\<close> keeps the index and, when
  it reports success, there is a table. On a table with one row for a post, every write of the
  store acts on the index as its specification on maps does, or reports an error and may have
  done nothing; a lookup that succeeds returns the entry of the map, and the query of a sweep
  the oldest expired entries, at most \<open>limit\<close>; and nothing outside the plugin's table changes,
  whatever the database does to the calls.
\<close>

theorem sql_store_refines_map:
  assumes "index_ok s"
  shows "(case sqlStore_Migrate s of (er, s') \<Rightarrow> index_ok s' \<and> other_state s' = other_state s
        \<and> index_of s' = index_of s \<and> (er = None \<longrightarrow> expire_rows s' \<noteq> None))
    \<and> (case sqlStore_Upsert x s of (er, s') \<Rightarrow> index_ok s' \<and> other_state s' = other_state s
        \<and> written (map_upsert x) er (index_of s) (index_of s'))
    \<and> (case sqlStore_UpdateExpireByRoot root t s of (er, s') \<Rightarrow> index_ok s' \<and> other_state s' = other_state s
        \<and> written (map_bump root t) er (index_of s) (index_of s'))
    \<and> (case sqlStore_DeleteByPostID p s of (er, s') \<Rightarrow> index_ok s' \<and> other_state s' = other_state s
        \<and> written (map_remove [p]) er (index_of s) (index_of s'))
    \<and> (case sqlStore_DeleteByPostIDs ids s of (er, s') \<Rightarrow> index_ok s' \<and> other_state s' = other_state s
        \<and> written (map_remove ids) er (index_of s) (index_of s'))
    \<and> (case sqlStore_GetByPostID p s of (r, s') \<Rightarrow> index_of s' = index_of s \<and> other_state s' = other_state s
        \<and> r \<in> range Inl \<union> {Inr (index_of s p)})
    \<and> (case sqlStore_GetExpired nowMs limit s of (r, s') \<Rightarrow> index_of s' = index_of s \<and> other_state s' = other_state s
        \<and> r \<in> range Inl \<union> Inr ` {es. oldest_batch nowMs (nat (sint limit)) (index_of s) es})"
proof -
  have m: "case sqlStore_Migrate s of (er, s') \<Rightarrow> index_ok s' \<and> other_state s' = other_state s
        \<and> index_of s' = index_of s \<and> (er = None \<longrightarrow> expire_rows s' \<noteq> None)"
    using sql.migrate [OF assms] Migrate_table by (cases "sqlStore_Migrate s") fastforce
  have u: "case sqlStore_Upsert x s of (er, s') \<Rightarrow> index_ok s' \<and> other_state s' = other_state s
        \<and> written (map_upsert x) er (index_of s) (index_of s')"
    using sql.upsert [OF assms, of x] by (cases "sqlStore_Upsert x s") simp
  have b: "case sqlStore_UpdateExpireByRoot root t s of (er, s') \<Rightarrow> index_ok s' \<and> other_state s' = other_state s
        \<and> written (map_bump root t) er (index_of s) (index_of s')"
    using sql.bump [OF assms, of root t] by (cases "sqlStore_UpdateExpireByRoot root t s") simp
  have d: "case sqlStore_DeleteByPostID p s of (er, s') \<Rightarrow> index_ok s' \<and> other_state s' = other_state s
        \<and> written (map_remove [p]) er (index_of s) (index_of s')"
    using sql.delete_one [OF assms, of p] by (cases "sqlStore_DeleteByPostID p s") simp
  have ds: "case sqlStore_DeleteByPostIDs ids s of (er, s') \<Rightarrow> index_ok s' \<and> other_state s' = other_state s
        \<and> written (map_remove ids) er (index_of s) (index_of s')"
    using sql.delete_ids [OF assms, of ids] by (cases "sqlStore_DeleteByPostIDs ids s") simp
  obtain r s' where g: "sqlStore_GetByPostID p s = (r, s')" by (cases "sqlStore_GetByPostID p s")
  have "index_of s' = index_of s \<and> other_state s' = other_state s \<and> r \<in> range Inl \<union> {Inr (index_of s p)}"
    using sql.get_by_post [OF assms, of p r s'] g by (cases r) auto
  moreover obtain r2 s2 where g2: "sqlStore_GetExpired nowMs limit s = (r2, s2)"
    by (cases "sqlStore_GetExpired nowMs limit s")
  moreover have "index_of s2 = index_of s \<and> other_state s2 = other_state s
      \<and> r2 \<in> range Inl \<union> Inr ` {es. oldest_batch nowMs (nat (sint limit)) (index_of s) es}"
    using sql.get_expired [OF assms, of nowMs limit r2 s2] g2 by (cases r2) auto
  ultimately show ?thesis using m u b d ds g by simp
qed

theorem sql_store_refines_map_witness:
  "index_of (snd (sqlStore_Upsert (demo_entry ''p3'' 7) (demo []))) ''p3'' = Some (demo_entry ''p3'' 7)"
proof -
  obtain er s' where u: "sqlStore_Upsert (demo_entry ''p3'' 7) (demo []) = (er, s')"
    by (cases "sqlStore_Upsert (demo_entry ''p3'' 7) (demo [])")
  then have "er = None" by (simp add: sqlStore_Upsert_def db_exec_Done demo_def on_expire_def)
  moreover have "written (map_upsert (demo_entry ''p3'' 7)) er (index_of (demo [])) (index_of s')"
    using sql_store_refines_map [OF demo_ok, of "[]" "demo_entry ''p3'' 7" "''''" 0 "''''" "[]"] u by simp
  ultimately show ?thesis unfolding u snd_conv by (simp add: map_upsert_def demo_index demo_entry_def)
qed

text \<open>
  What a sweep works on. \<open>GetExpired\<close> returns at most \<open>limit\<close> entries, all expired, each
  post once and the oldest first; it leaves an expired entry out only when the batch is full
  and holds nothing younger. It changes neither the index nor anything else.
\<close>

lemma get_expired_oldest:
  assumes "index_ok s" "sqlStore_GetExpired nowMs limit s = (Inr es, s')"
  shows "length es \<le> nat (sint limit) \<and> distinct (map PostID es)
    \<and> sorted (map (\<lambda>e. sint (ExpireAt e)) es)
    \<and> (\<forall>e\<in>set es. index_of s (PostID e) = Some e \<and> sint (ExpireAt e) \<le> sint nowMs)
    \<and> (\<forall>p e. index_of s p = Some e \<and> sint (ExpireAt e) \<le> sint nowMs \<longrightarrow> e \<in> set es
         \<or> length es = nat (sint limit) \<and> (\<forall>b\<in>set es. sint (ExpireAt b) \<le> sint (ExpireAt e)))
    \<and> index_of s' = index_of s \<and> other_state s' = other_state s"
  using sql.get_expired [OF assms(1), of nowMs limit "Inr es" s'] assms(2) sql.index_key [of s]
  by (simp add: oldest_batch_def expired_in_def) metis

text \<open>
  C33: no overflow on the way to an expiry. At every moment of a run in which only the plugin
  writes settings, when \<open>OnPostCreated\<close> succeeds for a post created before the year 292 million
  in a channel with a setting, the index holds an entry for the post, and its expiry, and for a
  reply that of every entry of its thread, is the creation time plus the stored seconds in
  milliseconds: the exact sum, without wrap-around, at least a minute and at most a year later.
\<close>

theorem expiry_bounds:
  fixes s0 :: "'w world"
  assumes "kv_service (api_kv api) cells other" "quiet api cells"
    and "plugin_run api cells s0 P s" "index_ok s0" "settings_wf (settings_of (cells (srv s0)))"
    and "OnPostCreated sqlStore (Service_GetTTL (the_store api)) now p s = (None, s')"
    and "settings_of (cells (srv s)) (Post_ChannelId p) = Some t"
    and "0 \<le> sint (Post_CreateAt p)" "sint (Post_CreateAt p) \<le> 9200000000000000000"
  shows "index_of s' (Post_Id p) \<noteq> None
    \<and> 60000 \<le> 1000 * sint (DurationSeconds t) \<and> 1000 * sint (DurationSeconds t) \<le> 31536000000
    \<and> (\<forall>q e. index_of s' q = Some e \<and> (q = Post_Id p \<or> Post_RootId p \<noteq> '''' \<and> RootID e = Post_RootId p) \<longrightarrow>
         sint (ExpireAt e) = sint (Post_CreateAt p) + 1000 * sint (DurationSeconds t))"
proof -
  have w: "plugin_world api cells other" and kv: "world_kv (api_kv api) cells other"
    using assms(1) by (simp_all add: plugin_world_def world_kv_def)
  have run: "spec_run (spec_of cells s0) (spec_of cells s)" and ok: "index_ok s"
    using plugin_world.run_refines [OF w assms(3,2,4)] by blast+
  have "settings_wf (settings_of (cells (srv s)))"
    using spec_run_wf [OF run] assms(5) by (fastforce simp: spec_of_def)
  then have n: "60 \<le> sint (DurationSeconds t)" "sint (DurationSeconds t) \<le> 31536000"
    using assms(7) by (auto simp: settings_wf_def)
  have "index_of s' = map_posted (world_ttl cells s) now p (index_of s)"
    by (rule expiry_ports.created_success [OF world_kv.expiry_contract [OF kv] ok assms(6) [unfolded the_store_def]])
  then have i: "index_of s' = map_created (DurationSeconds t * Second) now p (index_of s)"
    using assms(7) by (simp add: map_posted_def world_ttl_def ttl_of_def)
  have "sint (ExpireAt e) = sint (Post_CreateAt p) + 1000 * sint (DurationSeconds t)"
    if "index_of s' q = Some e" "q = Post_Id p \<or> Post_RootId p \<noteq> '''' \<and> RootID e = Post_RootId p" for q e
  proof -
    have "ExpireAt e = expiry (DurationSeconds t * Second) p"
      using map_created_expiry [OF that(1) [unfolded i]] that(2) by (auto simp: threadRoot_def)
    then show ?thesis using expiry_exact [OF n assms(8,9)] by simp
  qed
  then show ?thesis using n map_created_self [of "DurationSeconds t * Second" now p "index_of s"] i by auto
qed

theorem expiry_bounds_witness:
  "sint (ExpireAt demo_indexed) = 40 + 1000 * 60"
proof -
  let ?s = "fresh (Some []) [Info msg_activated []]"
  have t: "settings_of (fk_data (srv (fresh rows lg))) = [''ch'' \<mapsto> demo_setting]" for rows lg
    by (rule fresh_settings)
  have ok: "index_ok (fresh None [])" by (simp add: fresh_def index_ok_def)
  have wf: "settings_wf (settings_of (fk_data (srv (fresh None []))))"
    by (simp add: t settings_wf_def demo_setting_def)
  have c: "OnPostCreated sqlStore (Service_GetTTL (the_store demo_api)) 50 demo_post ?s
      = (None, fresh (Some [demo_indexed]) [Info msg_activated []])"
    using fresh_created [of "[Info msg_activated []]"] by (simp add: the_store_def demo_api_def)
  have s: "settings_of (fk_data (srv ?s)) (Post_ChannelId demo_post) = Some demo_setting"
    by (simp add: t demo_post_def)
  have e: "index_of (fresh (Some [demo_indexed]) [Info msg_activated []]) ''p1'' = Some demo_indexed"
    by (simp add: fresh_def index_of_def demo_indexed_def)
  have p: "Post_Id demo_post = ''p1''" "Post_CreateAt demo_post = 40" "DurationSeconds demo_setting = 60"
    by (simp_all add: demo_post_def demo_setting_def)
  show ?thesis
    using expiry_bounds [OF demo_kv demo_quiet demo_plugin_run ok wf c s] e unfolding p by auto
qed

subsection \<open>Configuration\<close>

text \<open>
  C34: hard purge is opt-in. In every run of a cluster, a node whose tick deletes rows of the
  server's tables directly holds a configuration in which \<open>EnablePurge\<close> is set and which was
  loaded successfully on an activation or a configuration change. A configuration that fails to load keeps the previous one, and the
  first one never enables it.
\<close>

theorem run_purge_opt_in:
  fixes s0 :: "'w world"
  assumes "kv_service (api_kv api) cells other"
    and "run api s0 h P s" "index_ok s0" "index_of s0 = Map.empty"
    and "tables (sweeper_tick api now (P i) s) \<noteq> tables s"
  shows "\<exists>ev s1 c w. (ev, s1) \<in> set h \<and> (ev = Activate \<or> ev = ConfigChange)
    \<and> LoadPluginConfiguration api (srv s1) = (Inr c, w) \<and> conf (cfg (P i)) = c \<and> EnablePurge c"
proof -
  have w: "plugin_world api cells other"
    using assms(1) by (simp add: plugin_world_def world_kv_def)
  have ok: "index_ok s" using plugin_world.run_index [OF w assms(2-4)] by blast
  obtain sw where "sweeper_tick api now (P i) s = Sweeper_Run sw sqlStore
      (configPurger_Purge (cfg (P i)) sqlPurger_Purge (the_server api)) LogError now s"
    using assms(5) by (auto simp: sweeper_tick_def split: sweeper_job.splits option.splits)
  then have "hard_mode (cfg (P i)) (api_license api (srv s)) (api_version api (srv s))"
    using Sweeper_Run_tables [OF ok, of sw "cfg (P i)" "api_DeletePost api" "api_license api" "api_version api" now]
      assms(5) by (simp add: the_server_def)
  then have "EnablePurge (conf (cfg (P i)))"
    by (auto simp: hard_mode_def purgeDecision_hard_iff holder_get_def)
  then show ?thesis using run_config [OF assms(2), of i] by (auto simp: zero_configuration_def)
qed

theorem run_purge_opt_in_witness:
  "\<exists>ev s1. (ev, s1) \<in> set [(Posted 50 (Some demo_post), fresh (Some []) [Info msg_activated []]), (Activate, fresh None [])]
     \<and> (ev = Activate \<or> ev = ConfigChange)
   \<and> tables (sweeper_tick demo_api 60040 demo_node (fresh (Some [demo_indexed]) [Info msg_activated []]))
     \<noteq> tables (fresh (Some [demo_indexed]) [Info msg_activated []])"
proof -
  let ?s = "fresh (Some [demo_indexed]) [Info msg_activated []]"
  have 0: "index_ok (fresh None [])" "index_of (fresh None []) = Map.empty"
    by (simp_all add: fresh_def index_ok_def index_of_def)
  have t: "tables (sweeper_tick demo_api 60040 (((\<lambda>_. new_plugin) (0 := demo_node)) 0) ?s) \<noteq> tables ?s"
    using fresh_tick [of "[Info msg_activated []]"] post_rows_tables by fastforce
  from run_purge_opt_in [OF demo_kv fresh_run 0 t] t show ?thesis unfolding fun_upd_same by blast
qed

subsection \<open>The build tools\<close>

text \<open>
  C35: the log filter. \<open>filterLogEntries\<close> succeeds exactly when it can read every entry (and the
  time stamp of those of the plugin); then it returns, in order, the entries of the plugin
  that are not older than \<open>since\<close>, each without its leading newline.
\<close>

theorem filter_log_entries:
  "filterLogEntries es pluginID since = Inr out \<longleftrightarrow>
    list_all (readable pluginID) es
    \<and> out = map (\<lambda>e. TrimPrefix e newline) (filter (shown pluginID since) es)"
  by (simp add: filterLogEntries_def filter_loop_iff)

text \<open>
  A tick of \<open>logs-watch\<close> that still finds the entry it printed last on the first page prints
  exactly the entries after it, in order, and remembers the last one: nothing is printed
  twice and nothing is left out.
\<close>

lemma watch_prints_new_entries:
  assumes "stdout_ok api" "oldest \<notin> set pre"
    and "fetchLogs api client 0 logsPerPage pluginID now s = (Inr (pre @ oldest # new), s1)"
  shows "watch_loop api client pluginID now [TickerTick] oldest s =
    Some (Watching (last (oldest # new)), s1\<lparr>stdout := stdout s1 @ map (\<lambda>e. e @ newline) new\<rparr>)"
  using watch_tick_new [OF assms] by (simp add: put_lines_def lines_of_def)

text \<open>
  C36: the watcher gets stuck on two pages. Once the new entries fill two pages, it remembers
  the last entry of the older page; from then on every tick prints both pages again, the newer
  one first, although the server has nothing new.
\<close>

theorem watch_prints_pages_again:
  assumes "stdout_ok api"
    and "\<And>p s. fetchLogs api client p logsPerPage pluginID now s = (Inr (pages p), s)"
    and "pages 2 = []" "pages 0 \<noteq> []" "pages 1 \<noteq> []"
    and "last (pages 0) \<notin> set (pages 1)" "last (pages 1) \<notin> set (pages 0)" "'''' \<notin> set (pages 0)"
  shows "watch_loop api client pluginID now (replicate (Suc n) TickerTick) '''' s =
    Some (Watching (last (pages 1)), s\<lparr>stdout := stdout s
      @ map (\<lambda>e. e @ newline) (concat (replicate (Suc n) (pages 0 @ pages 1)))\<rparr>)"
  using watch_reprints [OF assms(1,2) refl refl assms(3-8), of "Suc n" s]
  by (simp only: put_lines_def lines_of_def) simp

theorem watch_prints_pages_again_witness:
  "\<exists>o' s'. watch_loop demo_ctl_api (SocketClient []) ''p'' 0 [TickerTick, TickerTick] '''' demo_ctl = Some (Watching o', s')
     \<and> stdout s' = map (\<lambda>e. e @ newline) [new_line, old_line, new_line, old_line]"
proof -
  have "watch_loop demo_ctl_api (SocketClient []) ''p'' 0 (replicate (Suc 1) TickerTick) '''' demo_ctl =
    Some (Watching (last (demo_pages 1)), demo_ctl\<lparr>stdout := stdout demo_ctl
      @ map (\<lambda>e. e @ newline) (concat (replicate (Suc 1) (demo_pages 0 @ demo_pages 1)))\<rparr>)"
    by (rule watch_prints_pages_again [OF demo_stdout demo_fetch])
      (simp_all add: demo_pages_def demo_lines_neq(4) [symmetric])
  then show ?thesis by (simp add: demo_pages_def demo_ctl_def)
qed

text \<open>
  C37: a tick of \<open>logs-watch\<close> ends. When the pages from some number on hold no entry to show (or
  cannot be fetched), the loop over the pages returns, whatever the pages before hold and
  whatever happens to the output.
\<close>

theorem watch_tick_terminates:
  assumes "\<And>p s r s'. N \<le> sint p \<Longrightarrow> fetchLogs api client p logsPerPage pluginID now s = (r, s') \<Longrightarrow>
      r = Inr [] \<or> (\<exists>e. r = Inl e)"
    and "0 \<le> N" "N < 9223372036854775808"
  shows "\<exists>r. watch_pages api client pluginID now 0 oldest s = Some r"
  by (rule watch_pages_end [of N]) (use assms in simp_all)

theorem watch_tick_terminates_witness:
  "\<exists>r. watch_pages demo_ctl_api (SocketClient []) ''p'' 0 0 [] demo_ctl = Some r"
proof (rule watch_tick_terminates [where N = 2])
  fix p s r s'
  assume "2 \<le> sint p" "fetchLogs demo_ctl_api (SocketClient []) p logsPerPage ''p'' 0 s = (r, s')"
  then show "r = Inr [] \<or> (\<exists>e. r = Inl e)" using demo_fetch [of "SocketClient []" p s] by (auto simp: demo_pages_def)
qed simp_all

text \<open>
  C38: what the exit status of the deployment tool means. After status 0 every call of the command
  has succeeded, in order, each on the state the one before left: \<open>deploy\<close> has read the bundle,
  uploaded it and then enabled the plugin; \<open>disable\<close> has disabled it, \<open>enable\<close> has enabled it,
  \<open>reset\<close> has disabled it and then enabled it; \<open>logs\<close> has found the JSON log switched on, fetched
  the first page of 500 entries and written each entry that the filter keeps to the standard
  output, and only \<open>logs\<close> prints anything. No other command succeeds, and \<open>logs-watch\<close> never ends
  with success. Otherwise the status is 1, the last lines printed are the text of the error and
  the usage, and nothing was done after the error.
\<close>

theorem pluginctl_success:
  assumes "pluginctl_main jsonError timeError api args now evs s = Some (Some st, s')"
  shows "if st = 0 then
      \<exists>exe cmd pluginID more client s1. args = exe # cmd # pluginID # more \<and> getClient api s = (Inr client, s1)
      \<and> (cmd = ''deploy'' \<and> (\<exists>path rest b w1 w2. more = path # rest \<and> OpenFile api path (remote s1) = (Inr b, w1)
             \<and> UploadPluginForced api client b w1 = (None, w2) \<and> EnablePlugin api client pluginID w2 = (None, remote s'))
         \<or> cmd = ''disable'' \<and> DisablePlugin api client pluginID (remote s1) = (None, remote s')
         \<or> cmd = ''enable'' \<and> EnablePlugin api client pluginID (remote s1) = (None, remote s')
         \<or> cmd = ''reset'' \<and> (\<exists>w. DisablePlugin api client pluginID (remote s1) = (None, w)
             \<and> EnablePlugin api client pluginID w = (None, remote s'))
         \<or> cmd = ''logs'' \<and> (\<exists>w1 es w2 out. GetFileJson api client (remote s1) = (Inr (Some True), w1)
             \<and> GetLogs api client 0 500 w1 = (Inr es, w2) \<and> filterLogEntries es pluginID 0 = Inr out
             \<and> all_written api out w2 (remote s') \<and> stdout s' = stdout s @ map (\<lambda>e. e @ newline) out))
      \<and> (cmd = ''logs'' \<or> stdout s' = stdout s)
    else st = 1 \<and> (\<exists>err s1. pluginctl api args now evs s = Some (Returned (Some err), s1)
      \<and> stdout s' = stdout s1 @ [''Failed: '' @ ctl_Error jsonError timeError err @ newline, helpText]
      \<and> remote s' = remote s1)"
proof (cases "pluginctl api args now evs s = Some (Returned None, s')")
  case False
  then show ?thesis using assms
    by (auto simp: pluginctl_main_def split: option.splits watch_result.splits)
next
  case True
  then have st: "st = 0" using assms by (simp add: pluginctl_main_def)
  then show ?thesis using pluginctl_done [OF True] by simp
qed

theorem pluginctl_success_witness:
  "\<exists>s'. pluginctl_main id id demo_ctl_api [''pluginctl'', ''disable'', ''p''] 0 [] demo_ctl = Some (Some 0, s')
     \<and> DisablePlugin demo_ctl_api (SocketClient ''/var/tmp/mattermost_local.socket'') ''p'' () = (None, remote s')
     \<and> stdout s' = []"
proof -
  obtain s' where p: "pluginctl_main id id demo_ctl_api [''pluginctl'', ''disable'', ''p''] 0 [] demo_ctl = Some (Some 0, s')"
    by (simp add: pluginctl_main_def pluginctl_def getClient_def getUnixClient_def on_remote_def demo_ctl_api_def demo_ctl_def
        disablePlugin_def returned_def Let_def)
  have "fst (getClient demo_ctl_api demo_ctl) = Inr (SocketClient ''/var/tmp/mattermost_local.socket'')"
    by (simp add: getClient_def getUnixClient_def on_remote_def demo_ctl_api_def Let_def)
  with pluginctl_success [OF p] p show ?thesis by (auto simp: demo_ctl_def)
qed

text \<open>
  The version the build gives the plugin. A version in the manifest is kept; otherwise it
  is the first tag of the commit that starts with a v, or else the latest tag (v0.0.0 without
  one) with the commit's hash after a plus, always without the leading v. The release notes
  are filled in only when there are none and a tag exists; nothing else changes.
\<close>

lemma find_manifest_version:
  assumes "findManifest api v s = (Inr m, s')"
  shows "\<exists>b m0. DecodeStrict api b = Inr m0
    \<and> Version m = (if Version m0 \<noteq> '''' then Version m0
        else TrimPrefix (case find (\<lambda>t. HasPrefix t ''v'') (Fields (BuildTagCurrent v)) of
            Some t \<Rightarrow> t
          | None \<Rightarrow> (if BuildTagLatest v \<noteq> '''' then BuildTagLatest v else ''v0.0.0'') @ ''+'' @ BuildHashShort v) ''v'')
    \<and> (ReleaseNotesURL m0 \<noteq> '''' \<or> BuildTagLatest v = '''' \<longrightarrow> ReleaseNotesURL m = ReleaseNotesURL m0)
    \<and> m\<lparr>Version := Version m0, ReleaseNotesURL := ReleaseNotesURL m0\<rparr> = m0"
proof -
  obtain b m0 where d: "DecodeStrict api b = Inr m0"
    and m: "m = (let m1 = (if Version m0 = '''' then m0\<lparr>Version := build_version v\<rparr> else m0) in
        if ReleaseNotesURL m1 = '''' \<and> BuildTagLatest v \<noteq> ''''
        then m1\<lparr>ReleaseNotesURL := projr (url_JoinPath api (HomepageURL m1) [''releases'', ''tag'', BuildTagLatest v])\<rparr>
        else m1)"
    using findManifest_result [OF assms] by blast
  have "build_version v = TrimPrefix (case find (\<lambda>t. HasPrefix t ''v'') (Fields (BuildTagCurrent v)) of
            Some t \<Rightarrow> t
          | None \<Rightarrow> (if BuildTagLatest v \<noteq> '''' then BuildTagLatest v else ''v0.0.0'') @ ''+'' @ BuildHashShort v) ''v''"
    by (rule build_version_eq)
  then show ?thesis using d
    by (intro exI [of _ b] exI [of _ m0]) (auto simp: m Let_def)
qed

text \<open>
  C39: the generated files hold the manifest. When \<open>apply\<close> succeeds, \<open>server/manifest.go\<close> has been
  written for a plugin with a server part, and the raw string literal in it that the generated
  code decodes at start-up is exactly the JSON of the manifest between two newlines, provided
  the JSON has no back quote (which would end the literal) and no carriage return; and
  \<open>webapp/src/manifest.ts\<close> for a plugin with a web app, where the same holds of the template
  literal that it parses, provided the JSON is moreover without \<open>${\<close> and without any escapes
  but of newlines. Both texts are what the files hold afterwards, on a disk that keeps what is
  written to it.
\<close>

theorem apply_manifest_roundtrip:
  assumes "applyManifest api m s = (None, s')"
    and "MarshalIndent api m ''  '' = Inr json" "MarshalIndent api m ''    '' = Inr json'"
  shows "(HasServer api m \<and> backtick \<notin> set json \<and> CHR 0x0D \<notin> set json \<longrightarrow>
      (\<exists>src d d'. WriteFile api ''server/manifest.go'' src d = (None, d') \<and> raw_string src = nl @ json @ nl
         \<and> (\<forall>files. keeps_files api files \<longrightarrow> files (disk s') ''server/manifest.go'' = Some src)))
    \<and> (HasWebapp api m \<and> js_plain json' \<longrightarrow>
      (\<exists>src d d'. WriteFile api ''webapp/src/manifest.ts'' src d = (None, d')
         \<and> template_string src = Some (nl @ json' @ nl)
         \<and> (\<forall>files. keeps_files api files \<longrightarrow> files (disk s') ''webapp/src/manifest.ts'' = Some src)))"
  using apply_server_writes [OF assms(1) _ assms(2)] apply_webapp_writes [OF assms(1) _ assms(3)]
    raw_string_generated [of json] template_string_plain [of json'] by blast

theorem apply_manifest_roundtrip_witness:
  "\<exists>s' src src'. applyManifest demo_manifest_api demo_manifest \<lparr>disk = [], printed = []\<rparr> = (None, s')
     \<and> map_of (disk s') ''server/manifest.go'' = Some src \<and> raw_string src = nl @ ''{}'' @ nl
     \<and> map_of (disk s') ''webapp/src/manifest.ts'' = Some src' \<and> template_string src' = Some (nl @ ''{}'' @ nl)"
proof -
  obtain s' where a: "applyManifest demo_manifest_api demo_manifest \<lparr>disk = [], printed = []\<rparr> = (None, s')"
    by (simp add: applyManifest_def apply_server_def apply_webapp_def on_disk_def demo_manifest_api_def Let_def)
  have j: "MarshalIndent demo_manifest_api demo_manifest i = Inr ''{}''" for i
    by (simp add: demo_manifest_api_def)
  have h: "HasServer demo_manifest_api demo_manifest" "HasWebapp demo_manifest_api demo_manifest"
    "backtick \<notin> set ''{}''" "CHR 0x0D \<notin> set ''{}''" "js_plain ''{}''" "keeps_files demo_manifest_api map_of"
    by (simp_all add: demo_manifest_api_def backtick_def keeps_files_def)
  from apply_manifest_roundtrip [OF a j j] h a show ?thesis by blast
qed



text \<open>A name with a quoted word makes the literal no JSON at all.\<close>

lemma quoted_word_is_no_json:
  "json_read [] quote_json = Some (JObj [(''name'', JStr (''a '' @ quoted ''b''))], [])
   \<and> (\<exists>text. template_string (js_template_head @ escape_newlines quote_json @ js_template_tail) = Some text
        \<and> json_read [] text = None)"
  using quote_json_read quote_json_lost by blast

end
